(* ===== verification/Prelude.thy ===== *)
theory Prelude
  imports
    Main
    "HOL-Library.Char_ord"
    "HOL-Library.List_Lexorder"
    "HOL-Library.Product_Lexorder"
begin

text \<open>
  What the components share: Rust results and errors, saturating 64-bit arithmetic, the string
  functions of the Rust standard library, decimal printing and parsing (the configuration table
  stores integers as text), and the SQL statements the code uses, on tables kept as lists of rows
  in insertion order.

  A string is a list of code points below 256. On that range \<open>to_lowercase\<close> and
  \<open>is_whitespace\<close> below are exactly Rust's \<open>str::to_lowercase\<close> and
  \<open>char::is_whitespace\<close>: no character of the range lower-cases to several characters or
  leaves the range. SQLite's \<open>LOWER\<close> and \<open>COLLATE NOCASE\<close> fold the ASCII
  letters only, and are a function of their own (\<open>ascii_lower\<close>).
\<close>

named_theorems sql_defs \<open>the definitions of the SQL statements on tables\<close>
named_theorems str_simps \<open>normal forms of the string functions\<close>

section \<open>Results\<close>

datatype error =
    LabelNameEmpty
  | ReservedLabel string
  | LabelExists string
  | NoSuchLabel nat
  | ReservedMissing string
  | LabelVanished
  | UniqueViolation
  | ContactNotFound nat
  | SpecialContact nat
  | NotAPattern string
  | ChatNotFound nat
  | SpecialChat nat
  | MessageNotFound nat
  | CannotSendPlaintext
  | CannotSendEncrypted "string list"
  | MissingKeys "string list"
  | CategoryNameEmpty
  | CategoryExists string
  | CategoryVanished
  | NoRecipient
  | NoToAddress
  | InvalidAddress string
  | BoolExpected
  | BadHex
  | BadKeyLength
  | NotAnEncryptedBlob
  | CannotDecrypt
  | CannotEncrypt
  | NoBlobKey
  | NeedDbPassphrase
  | FileNotFound string
  | PassphraseRequired
  | NotVerifiable nat
  | MissingOrigin
  | EmptyAddress
  | ThreadMissing nat

datatype 'a result = Ok 'a | Err error

fun is_ok :: "'a result \<Rightarrow> bool" where
  "is_ok (Ok _) = True"
| "is_ok (Err _) = False"

fun unwrap_or :: "'a \<Rightarrow> 'a result \<Rightarrow> 'a" where
  "unwrap_or d (Ok a) = a"
| "unwrap_or d (Err _) = d"

text \<open>
  A fallible operation on a state: the result and the state it leaves. On an error the state is
  the one reached so far, because each statement of the code commits on its own.
\<close>

type_synonym ('s, 'a) eff = "'s \<Rightarrow> 'a result \<times> 's"

definition bind_eff :: "('s, 'a) eff \<Rightarrow> ('a \<Rightarrow> ('s, 'b) eff) \<Rightarrow> ('s, 'b) eff" where
  "bind_eff m f s = (case m s of (Ok a, s') \<Rightarrow> f a s' | (Err e, s') \<Rightarrow> (Err e, s'))"

text \<open>A step whose error is only logged: the code's \<open>.log_err(context).ok()\<close>.\<close>

definition best_effort :: "('s, 'a) eff \<Rightarrow> 's \<Rightarrow> 's" where
  "best_effort m s = snd (m s)"

lemma bind_eff_Ok [simp]: "m s = (Ok a, s') \<Longrightarrow> bind_eff m f s = f a s'"
  by (simp add: bind_eff_def)

lemma bind_eff_Err [simp]: "m s = (Err e, s') \<Longrightarrow> bind_eff m f s = (Err e, s')"
  by (simp add: bind_eff_def)

section \<open>Saturating 64-bit arithmetic\<close>

definition i64_min :: int where "i64_min = - (2 ^ 63)"
definition i64_max :: int where "i64_max = 2 ^ 63 - 1"

definition sat64 :: "int \<Rightarrow> int" where
  "sat64 x = max i64_min (min i64_max x)"

definition saturating_add :: "int \<Rightarrow> int \<Rightarrow> int" where "saturating_add a b = sat64 (a + b)"
definition saturating_sub :: "int \<Rightarrow> int \<Rightarrow> int" where "saturating_sub a b = sat64 (a - b)"
definition saturating_mul :: "int \<Rightarrow> int \<Rightarrow> int" where "saturating_mul a b = sat64 (a * b)"

definition in_i64 :: "int \<Rightarrow> bool" where "in_i64 x \<longleftrightarrow> i64_min \<le> x \<and> x \<le> i64_max"

lemmas sat_defs = sat64_def saturating_add_def saturating_sub_def saturating_mul_def
  i64_min_def i64_max_def in_i64_def

lemma in_i64_sat64 [simp]: "in_i64 (sat64 x)"
  by (simp add: sat_defs)

lemma sat64_id [simp]: "in_i64 x \<Longrightarrow> sat64 x = x"
  by (simp add: sat_defs)

lemma sat64_mono: "x \<le> y \<Longrightarrow> sat64 x \<le> sat64 y"
  by (simp add: sat_defs)

lemma saturating_add_ge: "in_i64 a \<Longrightarrow> 0 \<le> b \<Longrightarrow> a \<le> saturating_add a b"
  by (simp add: sat_defs)

lemma saturating_mul_nonneg: "0 \<le> a \<Longrightarrow> 0 \<le> b \<Longrightarrow> 0 \<le> saturating_mul a b"
  using sat64_mono [of 0 "a * b"] by (simp add: sat_defs)

text \<open>Adding to a deadline and subtracting from the clock are the same test, away from overflow.\<close>

lemma saturating_sub_ge_iff:
  assumes "in_i64 a" "0 \<le> d" "in_i64 (b - d)"
  shows "a \<le> saturating_sub b d \<longleftrightarrow> a + d \<le> b"
  using assms by (simp add: saturating_sub_def) arith

section \<open>Strings\<close>

definition is_whitespace :: "char \<Rightarrow> bool" where
  "is_whitespace c \<longleftrightarrow> (let n = of_char c :: nat in (9 \<le> n \<and> n \<le> 13) \<or> n = 32 \<or> n = 133 \<or> n = 160)"

definition ascii_lower_char :: "char \<Rightarrow> char" where
  "ascii_lower_char c = (let n = of_char c :: nat in if 65 \<le> n \<and> n \<le> 90 then char_of (n + 32) else c)"

definition lower_char :: "char \<Rightarrow> char" where
  "lower_char c = (let n = of_char c :: nat in
     if (65 \<le> n \<and> n \<le> 90) \<or> (192 \<le> n \<and> n \<le> 222 \<and> n \<noteq> 215) then char_of (n + 32) else c)"

definition to_lowercase :: "string \<Rightarrow> string" where "to_lowercase s = map lower_char s"

definition ascii_lower :: "string \<Rightarrow> string" where "ascii_lower s = map ascii_lower_char s"

definition eq_ignore_ascii_case :: "string \<Rightarrow> string \<Rightarrow> bool" where
  "eq_ignore_ascii_case a b \<longleftrightarrow> ascii_lower a = ascii_lower b"

definition trim_start_matches :: "(char \<Rightarrow> bool) \<Rightarrow> string \<Rightarrow> string" where
  "trim_start_matches p s = dropWhile p s"

definition trim_end_matches :: "(char \<Rightarrow> bool) \<Rightarrow> string \<Rightarrow> string" where
  "trim_end_matches p s = rev (dropWhile p (rev s))"

definition trim_end :: "string \<Rightarrow> string" where "trim_end s = trim_end_matches is_whitespace s"

definition trim_matches :: "(char \<Rightarrow> bool) \<Rightarrow> string \<Rightarrow> string" where
  "trim_matches p s = trim_start_matches p (trim_end_matches p s)"

definition trim :: "string \<Rightarrow> string" where "trim s = trim_matches is_whitespace s"

fun strip_prefix :: "string \<Rightarrow> string \<Rightarrow> string option" where
  "strip_prefix [] s = Some s"
| "strip_prefix (p # ps) [] = None"
| "strip_prefix (p # ps) (c # cs) = (if p = c then strip_prefix ps cs else None)"

definition strip_suffix :: "string \<Rightarrow> string \<Rightarrow> string option" where
  "strip_suffix p s = map_option rev (strip_prefix (rev p) (rev s))"

definition starts_with :: "string \<Rightarrow> string \<Rightarrow> bool" where
  "starts_with p s \<longleftrightarrow> strip_prefix p s \<noteq> None"

text \<open>\<open>str::split(c)\<close>: always at least one piece.\<close>

fun split_char :: "char \<Rightarrow> string \<Rightarrow> string list" where
  "split_char c [] = [[]]"
| "split_char c (x # xs) =
     (if x = c then [] # split_char c xs
      else case split_char c xs of [] \<Rightarrow> [[x]] | y # ys \<Rightarrow> (x # y) # ys)"

text \<open>\<open>str::split_once(c)\<close> and \<open>str::rsplit_once(c)\<close>: around the first and the last \<open>c\<close>.\<close>

fun split_once :: "char \<Rightarrow> string \<Rightarrow> (string \<times> string) option" where
  "split_once c [] = None"
| "split_once c (x # xs) =
     (if x = c then Some ([], xs) else map_option (\<lambda>(a, b). (x # a, b)) (split_once c xs))"

definition rsplit_once :: "char \<Rightarrow> string \<Rightarrow> (string \<times> string) option" where
  "rsplit_once c s = map_option (\<lambda>(a, b). (rev b, rev a)) (split_once c (rev s))"

text \<open>\<open>str::split_whitespace\<close>: the maximal runs of characters that are not white space.\<close>

fun words_acc :: "string \<Rightarrow> string \<Rightarrow> string list" where
  "words_acc acc [] = (if acc = [] then [] else [rev acc])"
| "words_acc acc (x # xs) =
     (if is_whitespace x then (if acc = [] then words_acc [] xs else rev acc # words_acc [] xs)
      else words_acc (x # acc) xs)"

definition split_whitespace :: "string \<Rightarrow> string list" where "split_whitespace s = words_acc [] s"

fun join :: "string \<Rightarrow> string list \<Rightarrow> string" where
  "join sep [] = []"
| "join sep [x] = x"
| "join sep (x # y # ys) = x @ sep @ join sep (y # ys)"

text \<open>\<open>str::contains\<close>, which is also SQL's \<open>LIKE '%...%'\<close> on a needle without wildcards.\<close>

fun contains :: "string \<Rightarrow> string \<Rightarrow> bool" where
  "contains p [] \<longleftrightarrow> p = []"
| "contains p (c # cs) \<longleftrightarrow> starts_with p (c # cs) \<or> contains p cs"

subsection \<open>Lemmas\<close>

lemma of_char_lt [simp]: "(of_char c :: nat) < 256"
  by (fact nat_of_char_less_256)

lemma of_char_of_lt [simp]: "n < 256 \<Longrightarrow> (of_char (char_of n) :: nat) = n"
  by simp

lemma lower_char_idem [simp]: "lower_char (lower_char c) = lower_char c"
proof -
  have "(of_char c :: nat) < 256" by simp
  then show ?thesis
    by (auto simp: lower_char_def Let_def)
qed

lemma is_whitespace_lower_char [simp]: "is_whitespace (lower_char c) = is_whitespace c"
proof -
  have "(of_char c :: nat) < 256" by simp
  then show ?thesis
    by (auto simp: lower_char_def is_whitespace_def Let_def)
qed

lemma to_lowercase_idem [simp]: "to_lowercase (to_lowercase s) = to_lowercase s"
  by (simp add: to_lowercase_def)

lemma to_lowercase_Nil_iff [simp]: "to_lowercase s = [] \<longleftrightarrow> s = []"
  by (simp add: to_lowercase_def)

text \<open>On a word of ASCII letters the two foldings agree.\<close>

lemma lower_char_ascii:
  "(of_char (lower_char c) :: nat) < 128 \<Longrightarrow> ascii_lower_char c = lower_char c"
  "(of_char (ascii_lower_char c) :: nat) < 128 \<Longrightarrow> lower_char c = ascii_lower_char c"
proof -
  have "(of_char c :: nat) < 256" by simp
  then show "(of_char (lower_char c) :: nat) < 128 \<Longrightarrow> ascii_lower_char c = lower_char c"
    and "(of_char (ascii_lower_char c) :: nat) < 128 \<Longrightarrow> lower_char c = ascii_lower_char c"
    by (auto simp: lower_char_def ascii_lower_char_def Let_def split: if_splits)
qed

lemma to_lowercase_ascii:
  "list_all (\<lambda>c. (of_char c :: nat) < 128) w \<Longrightarrow> to_lowercase s = w \<longleftrightarrow> ascii_lower s = w"
proof (induction s arbitrary: w)
  case (Cons c s)
  show ?case
  proof (cases w)
    case (Cons d v)
    with Cons.prems Cons.IH [of v] show ?thesis
      using lower_char_ascii [of c] by (auto simp: to_lowercase_def ascii_lower_def)
  qed (simp add: to_lowercase_def ascii_lower_def)
qed (auto simp: to_lowercase_def ascii_lower_def)

lemma dropWhile_map_inv: "(\<And>x. p (f x) = p x) \<Longrightarrow> dropWhile p (map f xs) = map f (dropWhile p xs)"
  by (induction xs) auto

lemma trim_end_lower [simp]: "trim_end_matches is_whitespace (map lower_char s) = map lower_char (trim_end_matches is_whitespace s)"
  by (simp add: trim_end_matches_def rev_map dropWhile_map_inv)

lemma trim_to_lowercase: "trim (to_lowercase s) = to_lowercase (trim s)"
  by (simp add: trim_def trim_matches_def trim_start_matches_def to_lowercase_def dropWhile_map_inv)

lemma dropWhile_idem [simp]: "dropWhile p (dropWhile p xs) = dropWhile p xs"
  by (induction xs) auto

lemma last_dropWhile: "dropWhile p xs \<noteq> [] \<Longrightarrow> last (dropWhile p xs) = last xs"
  by (induction xs) (auto split: if_splits)

lemma trim_end_matches_fix: "s = [] \<or> \<not> p (last s) \<Longrightarrow> trim_end_matches p s = s"
  by (cases s rule: rev_cases) (auto simp: trim_end_matches_def)

lemma trim_end_matches_last: "trim_end_matches p s \<noteq> [] \<Longrightarrow> \<not> p (last (trim_end_matches p s))"
  by (simp add: trim_end_matches_def last_rev hd_dropWhile)

lemma trim_matches_idem [simp]: "trim_matches p (trim_matches p s) = trim_matches p s"
proof -
  let ?t = "dropWhile p (trim_end_matches p s)"
  have "?t = [] \<or> \<not> p (last ?t)"
    using trim_end_matches_last [of p s] last_dropWhile [of p "trim_end_matches p s"]
    by (metis dropWhile.simps(1))
  then have "trim_end_matches p ?t = ?t"
    by (rule trim_end_matches_fix)
  then show ?thesis
    by (simp add: trim_matches_def trim_start_matches_def)
qed

lemma trim_idem [simp]: "trim (trim s) = trim s"
  by (simp add: trim_def)

lemma strip_prefix_Some_iff: "strip_prefix p s = Some r \<longleftrightarrow> s = p @ r"
  by (induction p s rule: strip_prefix.induct) auto

lemma split_char_not_Nil [simp]: "split_char c s \<noteq> []"
  by (induction s) (auto split: list.splits)

lemma split_char_no: "c \<notin> set s \<Longrightarrow> split_char c s = [s]"
  by (induction s) auto

lemma join_split_char: "join [c] (split_char c s) = s"
  by (induction s) (auto split: list.splits elim!: join.elims)

lemma split_once_Some:
  "split_once c s = Some (a, b) \<longleftrightarrow> s = a @ c # b \<and> c \<notin> set a"
proof (induction s arbitrary: a)
  case (Cons x xs)
  then show ?case by (cases a) auto
qed simp

lemma split_once_None: "split_once c s = None \<longleftrightarrow> c \<notin> set s"
  by (induction s) auto

lemma rsplit_once_Some:
  "rsplit_once c s = Some (a, b) \<longleftrightarrow> s = a @ c # b \<and> c \<notin> set b"
proof -
  have "rsplit_once c s = Some (a, b) \<longleftrightarrow> split_once c (rev s) = Some (rev b, rev a)"
    by (auto simp: rsplit_once_def)
  also have "\<dots> \<longleftrightarrow> rev s = rev b @ c # rev a \<and> c \<notin> set b"
    by (simp add: split_once_Some)
  also have "rev s = rev b @ c # rev a \<longleftrightarrow> s = a @ c # b"
    by (metis append.assoc append_Cons append_Nil rev.simps(2) rev_append rev_rev_ident)
  finally show ?thesis .
qed

lemma words_acc_nonempty: "x \<in> set (words_acc acc s) \<Longrightarrow> x \<noteq> []"
  by (induction acc s rule: words_acc.induct) (auto split: if_splits)

lemma split_whitespace_nonempty: "x \<in> set (split_whitespace s) \<Longrightarrow> x \<noteq> []"
  by (simp add: split_whitespace_def words_acc_nonempty)

lemma contains_iff: "contains p s \<longleftrightarrow> (\<exists>a b. s = a @ p @ b)"
proof (induction s)
  case (Cons c cs)
  have "starts_with p (c # cs) \<longleftrightarrow> (\<exists>b. c # cs = p @ b)"
    by (auto simp: starts_with_def strip_prefix_Some_iff)
  moreover have "(\<exists>a b. c # cs = a @ p @ b) \<longleftrightarrow> (\<exists>b. c # cs = p @ b) \<or> (\<exists>a b. cs = a @ p @ b)"
    by (metis append_Cons append_Nil list.sel(3) neq_Nil_conv tl_append2)
  ultimately show ?case using Cons by simp
qed simp

section \<open>Decimal integers\<close>

definition digit_char :: "nat \<Rightarrow> char" where "digit_char d = char_of (48 + d)"

definition digit_val :: "char \<Rightarrow> nat option" where
  "digit_val c = (let n = of_char c :: nat in if 48 \<le> n \<and> n \<le> 57 then Some (n - 48) else None)"

fun show_nat :: "nat \<Rightarrow> string" where
  "show_nat n = (if n < 10 then [digit_char n] else show_nat (n div 10) @ [digit_char (n mod 10)])"

declare show_nat.simps [simp del]

definition show_int :: "int \<Rightarrow> string" where
  "show_int i = (if i < 0 then CHR ''-'' # show_nat (nat (- i)) else show_nat (nat i))"

fun parse_digits :: "nat \<Rightarrow> string \<Rightarrow> nat option" where
  "parse_digits acc [] = Some acc"
| "parse_digits acc (c # cs) =
     (case digit_val c of None \<Rightarrow> None | Some d \<Rightarrow> parse_digits (10 * acc + d) cs)"

definition parse_nat :: "string \<Rightarrow> nat option" where
  "parse_nat s = (if s = [] then None else parse_digits 0 s)"

text \<open>\<open>str::parse\<close> for a signed type with bounds \<open>lo\<close> and \<open>hi\<close>: an optional sign, at least
  one digit, nothing else; out of range is an error.\<close>

definition parse_int :: "int \<Rightarrow> int \<Rightarrow> string \<Rightarrow> int option" where
  "parse_int lo hi s =
     (let r = (case s of [] \<Rightarrow> None
               | c # cs \<Rightarrow> if c = CHR ''-'' then map_option (\<lambda>n. - int n) (parse_nat cs)
                          else if c = CHR ''+'' then map_option int (parse_nat cs)
                          else map_option int (parse_nat s))
      in case r of None \<Rightarrow> None | Some i \<Rightarrow> if lo \<le> i \<and> i \<le> hi then Some i else None)"

definition parse_i32 :: "string \<Rightarrow> int option" where "parse_i32 = parse_int (- (2 ^ 31)) (2 ^ 31 - 1)"
definition parse_i64 :: "string \<Rightarrow> int option" where "parse_i64 = parse_int (- (2 ^ 63)) (2 ^ 63 - 1)"

lemma digit_val_digit_char [simp]: "d < 10 \<Longrightarrow> digit_val (digit_char d) = Some d"
  by (simp add: digit_val_def digit_char_def)

lemma show_nat_not_Nil [simp]: "show_nat n \<noteq> []"
  by (subst show_nat.simps) simp

lemma parse_digits_append:
  "parse_digits acc (xs @ ys) = (case parse_digits acc xs of None \<Rightarrow> None | Some a \<Rightarrow> parse_digits a ys)"
  by (induction acc xs rule: parse_digits.induct) (auto split: option.splits)

lemma parse_digits_show_nat: "parse_digits 0 (show_nat n) = Some n"
proof (induction n rule: show_nat.induct)
  case (1 n)
  then show ?case
    by (subst show_nat.simps) (auto simp: parse_digits_append)
qed

lemma parse_nat_show_nat [simp]: "parse_nat (show_nat n) = Some n"
  by (simp add: parse_nat_def parse_digits_show_nat)

lemma parse_digits_all: "parse_digits acc s = Some n \<Longrightarrow> c \<in> set s \<Longrightarrow> digit_val c \<noteq> None"
  by (induction acc s rule: parse_digits.induct) (auto split: option.splits)

lemma show_nat_digits: "c \<in> set (show_nat n) \<Longrightarrow> digit_val c \<noteq> None"
  using parse_digits_all [OF parse_digits_show_nat] .

lemma hd_show_nat: "show_nat n = c # cs \<Longrightarrow> c \<noteq> CHR ''-'' \<and> c \<noteq> CHR ''+''"
  using show_nat_digits [of c n] by (auto simp: digit_val_def Let_def split: if_splits)

lemma parse_int_show_int: "parse_int lo hi (show_int i) = (if lo \<le> i \<and> i \<le> hi then Some i else None)"
proof (cases "i < 0")
  case True
  then show ?thesis by (simp add: parse_int_def show_int_def)
next
  case False
  obtain c cs where c: "show_nat (nat i) = c # cs"
    by (cases "show_nat (nat i)") simp_all
  with hd_show_nat [OF c] have "parse_nat (c # cs) = Some (nat i)"
    by (metis parse_nat_show_nat)
  with False c hd_show_nat [OF c] show ?thesis
    by (simp add: parse_int_def show_int_def)
qed

lemma parse_i32_show_int: "parse_i32 (show_int i) = (if - (2 ^ 31) \<le> i \<and> i < 2 ^ 31 then Some i else None)"
  by (simp add: parse_i32_def parse_int_show_int)

lemma parse_i64_show_int: "parse_i64 (show_int i) = (if in_i64 i then Some i else None)"
  by (simp add: parse_i64_def parse_int_show_int in_i64_def i64_min_def i64_max_def)

lemma show_int_inj: "show_int i = show_int j \<Longrightarrow> i = j"
proof -
  assume eq: "show_int i = show_int j"
  let ?lo = "min i j" and ?hi = "max i j"
  have "parse_int ?lo ?hi (show_int i) = Some i" "parse_int ?lo ?hi (show_int j) = Some j"
    by (simp_all add: parse_int_show_int)
  with eq show "i = j" by (metis option.inject)
qed

section \<open>SQL statements on tables\<close>

text \<open>
  A table is the list of its rows in insertion order (SQLite's rowid order, which is the order an
  unindexed query without \<open>ORDER BY\<close> visits them in).
\<close>

definition exists_where :: "('r \<Rightarrow> bool) \<Rightarrow> 'r list \<Rightarrow> bool" where
  [sql_defs]: "exists_where p t \<longleftrightarrow> list_ex p t"

definition delete_where :: "('r \<Rightarrow> bool) \<Rightarrow> 'r list \<Rightarrow> 'r list" where
  [sql_defs]: "delete_where p t = filter (\<lambda>r. \<not> p r) t"

definition update_where :: "('r \<Rightarrow> bool) \<Rightarrow> ('r \<Rightarrow> 'r) \<Rightarrow> 'r list \<Rightarrow> 'r list" where
  [sql_defs]: "update_where p f t = map (\<lambda>r. if p r then f r else r) t"

text \<open>\<open>INSERT ... ON CONFLICT(key) DO NOTHING\<close>, also written \<open>INSERT OR IGNORE\<close>.\<close>

definition insert_or_ignore :: "('r \<Rightarrow> 'k) \<Rightarrow> 'r \<Rightarrow> 'r list \<Rightarrow> 'r list" where
  [sql_defs]: "insert_or_ignore key r t = (if list_ex (\<lambda>x. key x = key r) t then t else t @ [r])"

text \<open>\<open>INSERT ... ON CONFLICT(key) DO UPDATE SET ...\<close>: \<open>f old\<close> is the row after the update.\<close>

definition upsert :: "('r \<Rightarrow> 'k) \<Rightarrow> ('r \<Rightarrow> 'r) \<Rightarrow> 'r \<Rightarrow> 'r list \<Rightarrow> 'r list" where
  [sql_defs]: "upsert key f r t =
    (if list_ex (\<lambda>x. key x = key r) t then map (\<lambda>x. if key x = key r then f x else x) t else t @ [r])"

text \<open>\<open>INSERT OR REPLACE\<close> on a primary key.\<close>

definition insert_or_replace :: "('r \<Rightarrow> 'k) \<Rightarrow> 'r \<Rightarrow> 'r list \<Rightarrow> 'r list" where
  [sql_defs]: "insert_or_replace key r t = upsert key (\<lambda>_. r) r t"

text \<open>A table whose rows have pairwise different keys (a \<open>PRIMARY KEY\<close> or a \<open>UNIQUE\<close> index).\<close>

definition unique_key :: "('r \<Rightarrow> 'k) \<Rightarrow> 'r list \<Rightarrow> bool" where
  "unique_key key t \<longleftrightarrow> distinct (map key t)"

lemma unique_key_Nil [simp, intro]: "unique_key key []"
  by (simp add: unique_key_def)

lemma unique_key_delete [simp, intro]: "unique_key key t \<Longrightarrow> unique_key key (delete_where p t)"
  by (simp add: unique_key_def delete_where_def distinct_map_filter)

lemma unique_key_update:
  "unique_key key t \<Longrightarrow> (\<And>r. r \<in> set t \<Longrightarrow> p r \<Longrightarrow> key (f r) = key r) \<Longrightarrow> unique_key key (update_where p f t)"
  by (simp add: unique_key_def update_where_def comp_def if_distrib cong: map_cong if_cong)

lemma unique_key_insert_or_ignore [simp, intro]:
  "unique_key key t \<Longrightarrow> unique_key key (insert_or_ignore key r t)"
  by (auto simp: unique_key_def insert_or_ignore_def list_ex_iff)

lemma unique_key_upsert:
  "unique_key key t \<Longrightarrow> (\<And>x. key x = key r \<Longrightarrow> key (f x) = key x) \<Longrightarrow> unique_key key (upsert key f r t)"
  by (auto simp: unique_key_def upsert_def list_ex_iff comp_def if_distrib cong: map_cong if_cong)

lemma unique_key_inj: "unique_key key t \<Longrightarrow> x \<in> set t \<Longrightarrow> y \<in> set t \<Longrightarrow> key x = key y \<Longrightarrow> x = y"
  by (auto simp: unique_key_def distinct_map inj_on_def)

lemma list_ex_key: "list_ex (\<lambda>r. f r = k) t \<longleftrightarrow> k \<in> f ` set t"
  by (induction t) auto

lemma set_insert_or_ignore:
  "set (insert_or_ignore key r t) = (if key r \<in> key ` set t then set t else insert r (set t))"
  by (auto simp: insert_or_ignore_def list_ex_iff image_iff)

lemma keys_insert_or_ignore [simp]: "key ` set (insert_or_ignore key r t) = insert (key r) (key ` set t)"
  by (auto simp: set_insert_or_ignore)

lemma set_delete_where [simp]: "set (delete_where p t) = {r \<in> set t. \<not> p r}"
  by (auto simp: delete_where_def)

lemma set_upsert:
  "set (upsert key f r t) =
     (if key r \<in> key ` set t then (\<lambda>x. if key x = key r then f x else x) ` set t else insert r (set t))"
  by (auto simp: upsert_def list_ex_iff image_iff)

lemma set_update_where [simp]: "set (update_where p f t) = (\<lambda>r. if p r then f r else r) ` set t"
  by (simp add: update_where_def)

lemma exists_where_iff: "exists_where p t \<longleftrightarrow> (\<exists>r \<in> set t. p r)"
  by (simp add: exists_where_def list_ex_iff)

lemma find_Some_set: "List.find p t = Some r \<Longrightarrow> r \<in> set t \<and> p r"
  by (auto simp: find_Some_iff)

lemma find_None_set: "List.find p t = None \<longleftrightarrow> (\<forall>r \<in> set t. \<not> p r)"
  by (auto simp: find_None_iff)

lemma find_unique:
  "unique_key key t \<Longrightarrow> r \<in> set t \<Longrightarrow> List.find (\<lambda>x. key x = key r) t = Some r"
  by (cases "List.find (\<lambda>x. key x = key r) t")
    (auto simp: find_None_iff dest!: find_Some_set dest: unique_key_inj)

lemma find_None_key: "List.find (\<lambda>r. f r = k) t = None \<longleftrightarrow> k \<notin> f ` set t"
  by (induction t) auto

lemma find_append: "List.find p (xs @ ys) = (case List.find p xs of None \<Rightarrow> List.find p ys | Some x \<Rightarrow> Some x)"
  by (induction xs) auto

lemma find_map_key:
  assumes "\<And>x. key x = k' \<Longrightarrow> key (f x) = k'"
  shows "List.find (\<lambda>x. key x = k) (map (\<lambda>x. if key x = k' then f x else x) t) =
    (if k = k' then map_option f (List.find (\<lambda>x. key x = k) t) else List.find (\<lambda>x. key x = k) t)"
  using assms by (induction t) auto

lemma find_upsert:
  assumes "\<And>x. key x = key r \<Longrightarrow> key (f x) = key r"
  shows "List.find (\<lambda>x. key x = k) (upsert key f r t) =
    (if k = key r then Some (case List.find (\<lambda>x. key x = k) t of Some x \<Rightarrow> f x | None \<Rightarrow> r)
     else List.find (\<lambda>x. key x = k) t)"
proof (cases "list_ex (\<lambda>x. key x = key r) t")
  case True
  then obtain y where "List.find (\<lambda>x. key x = key r) t = Some y"
    by (cases "List.find (\<lambda>x. key x = key r) t") (auto simp: find_None_set list_ex_iff)
  with True show ?thesis by (auto simp: upsert_def find_map_key [where key = key and f = f and k' = "key r", OF assms])
next
  case False
  then have "List.find (\<lambda>x. key x = key r) t = None"
    by (auto simp: find_None_set list_ex_iff)
  with False show ?thesis by (auto simp: upsert_def find_append split: option.splits)
qed

lemma find_filter: "List.find p (filter q t) = List.find (\<lambda>x. q x \<and> p x) t"
  by (induction t) auto

lemma find_filter_imp:
  "(\<And>x. p x \<Longrightarrow> q x) \<Longrightarrow> List.find p (filter q t) = List.find p t"
  by (induction t) auto

lemma find_filter_unique:
  "unique_key key t \<Longrightarrow> List.find (\<lambda>r. key r = k) (filter q t) =
    (case List.find (\<lambda>r. key r = k) t of Some r \<Rightarrow> if q r then Some r else None | None \<Rightarrow> None)"
proof (induction t)
  case (Cons a t)
  have "List.find (\<lambda>r. key r = key a) t = None" using Cons.prems by (simp add: unique_key_def find_None_key)
  with Cons show ?case by (auto simp: unique_key_def)
qed simp

lemma find_insert_or_ignore:
  "List.find (\<lambda>x. key x = k) (insert_or_ignore key r t) =
    (case List.find (\<lambda>x. key x = k) t of Some x \<Rightarrow> Some x | None \<Rightarrow> if k = key r then Some r else None)"
proof (cases "list_ex (\<lambda>x. key x = key r) t")
  case True
  then obtain y where "List.find (\<lambda>x. key x = key r) t = Some y"
    by (cases "List.find (\<lambda>x. key x = key r) t") (auto simp: find_None_set list_ex_iff)
  with True show ?thesis by (auto simp: insert_or_ignore_def split: option.splits)
next
  case False
  then have "List.find (\<lambda>x. key x = key r) t = None" by (auto simp: find_None_set list_ex_iff)
  with False show ?thesis by (auto simp: insert_or_ignore_def find_append split: option.splits)
qed

lemma fold_delete_ids:
  "fold (\<lambda>m. delete_where (\<lambda>r. key r = m)) ms t = delete_where (\<lambda>r. key r \<in> set ms) t"
  by (induction ms arbitrary: t) (auto simp: delete_where_def intro: filter_cong)

lemma find_delete_ids:
  "List.find (\<lambda>r. key r = m) (delete_where (\<lambda>r. key r \<in> S) t) = (if m \<in> S then None else List.find (\<lambda>r. key r = m) t)"
  by (induction t) (auto simp: delete_where_def)

end
