(* ===== verification/Store.thy ===== *)
theory Store
  imports Prelude
begin

text \<open>
  The state every component works on. \<open>ctx\<close> is the code's \<open>Context\<close>: the clock
  (\<open>tools::time\<close>), the environment variables that override configuration, and the tables of the
  account database the email layer reads and writes, each a list of row records in insertion
  order. A table with an \<open>AUTOINCREMENT\<close> key that the email layer inserts into has its
  \<open>sqlite_sequence\<close> counter beside it, so that row ids are never reused. \<open>fresh_db\<close> is the
  database after the migrations.

  Row ids are natural numbers, timestamps integers, an absent column value an option.
\<close>

section \<open>Message states, origins and timers\<close>

datatype message_state =
    Undefined | InFresh | InNoticed | InSeen
  | OutDraft | OutPending | OutFailed | OutDelivered | OutMdnRcvd

fun state_num :: "message_state \<Rightarrow> nat" where
  "state_num Undefined = 0"
| "state_num InFresh = 10"
| "state_num InNoticed = 13"
| "state_num InSeen = 16"
| "state_num OutDraft = 19"
| "state_num OutPending = 20"
| "state_num OutFailed = 24"
| "state_num OutDelivered = 26"
| "state_num OutMdnRcvd = 28"

lemma state_num_inj [simp]: "state_num a = state_num b \<longleftrightarrow> a = b"
  by (cases a; cases b) simp_all

instantiation message_state :: linorder
begin

definition less_eq_message_state :: "message_state \<Rightarrow> message_state \<Rightarrow> bool" where
  "less_eq_message_state a b \<longleftrightarrow> state_num a \<le> state_num b"

definition less_message_state :: "message_state \<Rightarrow> message_state \<Rightarrow> bool" where
  "less_message_state a b \<longleftrightarrow> state_num a < state_num b"

instance
  by standard (auto simp: less_eq_message_state_def less_message_state_def
      simp flip: state_num_inj)

end

lemmas state_order = less_eq_message_state_def less_message_state_def

definition is_outgoing :: "message_state \<Rightarrow> bool" where
  "is_outgoing s \<longleftrightarrow> s \<in> {OutDraft, OutPending, OutFailed, OutDelivered, OutMdnRcvd}"

datatype origin =
    Unknown | MailinglistAddress | Hidden | IncomingUnknownFrom | IncomingUnknownCc
  | IncomingUnknownTo | UnhandledQrScan | UnhandledSecurejoinQrScan | IncomingReplyTo
  | IncomingCc | IncomingTo | CreateChat | OutgoingBcc | OutgoingCc | OutgoingTo | Internal
  | AddressBook | SecurejoinInvited | SecurejoinJoined | ManuallyCreated

fun origin_num :: "origin \<Rightarrow> nat" where
  "origin_num Unknown = 0"
| "origin_num MailinglistAddress = 0x2"
| "origin_num Hidden = 0x8"
| "origin_num IncomingUnknownFrom = 0x10"
| "origin_num IncomingUnknownCc = 0x20"
| "origin_num IncomingUnknownTo = 0x40"
| "origin_num UnhandledQrScan = 0x80"
| "origin_num UnhandledSecurejoinQrScan = 0x81"
| "origin_num IncomingReplyTo = 0x100"
| "origin_num IncomingCc = 0x200"
| "origin_num IncomingTo = 0x400"
| "origin_num CreateChat = 0x800"
| "origin_num OutgoingBcc = 0x1000"
| "origin_num OutgoingCc = 0x2000"
| "origin_num OutgoingTo = 0x4000"
| "origin_num Internal = 0x40000"
| "origin_num AddressBook = 0x80000"
| "origin_num SecurejoinInvited = 0x1000000"
| "origin_num SecurejoinJoined = 0x2000000"
| "origin_num ManuallyCreated = 0x4000000"

lemma origin_num_inj [simp]: "origin_num a = origin_num b \<longleftrightarrow> a = b"
  by (cases a; cases b) simp_all

instantiation origin :: linorder
begin

definition less_eq_origin :: "origin \<Rightarrow> origin \<Rightarrow> bool" where
  "less_eq_origin a b \<longleftrightarrow> origin_num a \<le> origin_num b"

definition less_origin :: "origin \<Rightarrow> origin \<Rightarrow> bool" where
  "less_origin a b \<longleftrightarrow> origin_num a < origin_num b"

instance
  by standard (auto simp: less_eq_origin_def less_origin_def simp flip: origin_num_inj)

end

lemmas origin_order = less_eq_origin_def less_origin_def

definition is_known :: "origin \<Rightarrow> bool" where "is_known orig \<longleftrightarrow> orig \<ge> IncomingReplyTo"

text \<open>\<open>ephemeral::Timer\<close>: the duration of an enabled timer is a non-zero \<open>u32\<close>.\<close>

datatype timer = Disabled | Enabled nat

fun timer_to_u32 :: "timer \<Rightarrow> nat" where
  "timer_to_u32 Disabled = 0"
| "timer_to_u32 (Enabled d) = d"

definition timer_from_u32 :: "nat \<Rightarrow> timer" where
  "timer_from_u32 d = (if d = 0 then Disabled else Enabled d)"

definition wf_timer :: "timer \<Rightarrow> bool" where
  "wf_timer t \<longleftrightarrow> (case t of Disabled \<Rightarrow> True | Enabled d \<Rightarrow> 0 < d \<and> d < 2 ^ 32)"

lemma timer_round_trip: "wf_timer t \<Longrightarrow> timer_from_u32 (timer_to_u32 t) = t"
  by (cases t) (simp_all add: wf_timer_def timer_from_u32_def)

section \<open>Configuration keys\<close>

text \<open>The keys of \<open>Config\<close> the modelled code reads or writes; \<open>ConfiguredAddr\<close>, which is
  written together with the transports, is the field \<open>configured_addr\<close> of the context.\<close>

datatype config =
    Config_Selfstatus | Config_BccSelf | Config_MdnsEnabled | Config_DeleteDeviceAfter
  | Config_Bot | Config_RawMimeRetentionDays | Config_EncryptionMode
  | Config_ServerRetentionDays | Config_MdnPolicy | Config_BlobEncryption | Config_InboxGating
  | Config_UnverifiedTrashDays | Config_TrashPurgeDays | Config_EphemeralDefaultSeconds
  | Config_SubjectInBody | Config_EmailSignature | Config_EmailSignatureHtml | Config_SyncMsgs
  | Config_ForceEncryption

text \<open>The \<open>strum\<close> default of a key.\<close>

fun config_default :: "config \<Rightarrow> string option" where
  "config_default Config_BccSelf = Some ''0''"
| "config_default Config_MdnsEnabled = Some ''1''"
| "config_default Config_DeleteDeviceAfter = Some ''0''"
| "config_default Config_RawMimeRetentionDays = Some ''30''"
| "config_default Config_EncryptionMode = Some ''1''"
| "config_default Config_ServerRetentionDays = Some ''0''"
| "config_default Config_MdnPolicy = Some ''2''"
| "config_default Config_BlobEncryption = Some ''0''"
| "config_default Config_InboxGating = Some ''0''"
| "config_default Config_UnverifiedTrashDays = Some ''0''"
| "config_default Config_TrashPurgeDays = Some ''0''"
| "config_default Config_EphemeralDefaultSeconds = Some ''0''"
| "config_default Config_SubjectInBody = Some ''1''"
| "config_default Config_SyncMsgs = Some ''1''"
| "config_default Config_ForceEncryption = Some ''1''"
| "config_default _ = None"

section \<open>Rows\<close>

type_synonym msg_id = nat
type_synonym contact_id = nat
type_synonym chat_id = nat
type_synonym label_id = nat
type_synonym bytes = string

datatype param = Param_GuaranteeE2ee | Param_ForcePlaintext | Param_ErroneousE2ee | Param_Cmd

text \<open>\<open>Params\<close>: the keys set to an integer, each at most once.\<close>

type_synonym params = "(param \<times> int) list"

record msg_row =
  m_id :: msg_id
  m_rfc724_mid :: "string option"
  m_pre_rfc724_mid :: "string option"
  m_chat_id :: chat_id
  m_from_id :: contact_id
  m_to_id :: contact_id
  m_timestamp :: int
  m_timestamp_rcvd :: int
  m_state :: message_state
  m_hidden :: bool
  m_subject :: "string option"
  m_txt :: "string option"
  m_txt_normalized :: "string option"
  m_in_reply_to :: "string option"
  m_references :: "string option"
  m_param :: params
  m_ephemeral_timer :: nat
  m_ephemeral_timestamp :: int
  m_deleted :: bool

text \<open>A row with the columns' default values.\<close>

definition default_msg :: "msg_id \<Rightarrow> msg_row" where
  "default_msg i = \<lparr>m_id = i, m_rfc724_mid = Some [], m_pre_rfc724_mid = Some [], m_chat_id = 0,
     m_from_id = 0, m_to_id = 0, m_timestamp = 0, m_timestamp_rcvd = 0, m_state = Undefined,
     m_hidden = False, m_subject = Some [], m_txt = Some [], m_txt_normalized = None,
     m_in_reply_to = None, m_references = None, m_param = [], m_ephemeral_timer = 0,
     m_ephemeral_timestamp = 0, m_deleted = False\<rparr>"

record contact_row =
  c_id :: contact_id
  c_name :: string
  c_authname :: string
  c_addr :: string
  c_origin :: origin
  c_blocked :: bool
  c_last_seen :: int
  c_fingerprint :: string
  c_verifier :: contact_id

datatype chattype = Single | Group | Mailinglist | OutBroadcast | InBroadcast

record chat_row =
  ch_id :: chat_id
  ch_type :: chattype
  ch_name :: string
  ch_grpid :: string
  ch_blocked :: nat
  ch_ephemeral_timer :: "nat option"

record chats_contacts_row =
  cc_chat_id :: chat_id
  cc_contact_id :: contact_id
  cc_add_timestamp :: int
  cc_remove_timestamp :: int

record transport_row =
  tr_id :: nat
  tr_addr :: string
  tr_add_timestamp :: int

record label_row =
  l_id :: label_id
  l_name :: string
  l_name_norm :: string
  l_color :: "nat option"
  l_system :: bool
  l_created :: int

text \<open>\<open>msg_labels\<close>: (message, label).\<close>

type_synonym msg_label_row = "msg_id \<times> label_id"

record pending_row =
  p_rfc724_mid :: string
  p_label_id :: label_id
  p_apply :: bool
  p_timestamp :: int

record held_row =
  h_msg_id :: msg_id
  h_held_at :: int

record trashed_row =
  t_msg_id :: msg_id
  t_trashed_at :: int
  t_purge_at :: int
  t_reason :: int

record thread_row =
  th_id :: nat
  th_subject_norm :: string
  th_last_activity :: int

record contact_policy_row =
  cp_contact_id :: contact_id
  cp_encryption_mode :: "int option"
  cp_mdn_enabled :: "int option"
  cp_ephemeral_secs :: "int option"

record imap_row =
  im_rfc724_mid :: string
  im_target :: string

record send_options_row =
  so_msg_id :: msg_id
  so_encryption :: int
  so_signature_in_body :: bool
  so_signature :: "string option"

record recipient_row =
  r_msg_id :: msg_id
  r_kind :: int
  r_addr :: string
  r_name :: string
  r_ord :: int

record blocklist_row =
  b_id :: nat
  b_pattern :: string
  b_pattern_norm :: string
  b_added :: int
  b_reason :: string

record raw_mime_row =
  rm_msg_id :: msg_id
  rm_blobname :: string
  rm_size :: int
  rm_stored_at :: int
  rm_expires_at :: "int option"

record structured_row =
  sd_msg_id :: msg_id
  sd_seq :: nat
  sd_json :: string
  sd_trusted :: bool
  sd_source :: int

record category_row =
  cat_id :: nat
  cat_name :: string
  cat_name_norm :: string
  cat_color :: "nat option"

record details_row =
  d_contact_id :: contact_id
  d_organisation :: string
  d_job_title :: string
  d_postal :: string
  d_website :: string
  d_notes :: string

record phone_row =
  ph_contact_id :: contact_id
  ph_seq :: nat
  ph_label :: string
  ph_number :: string

section \<open>Sync items\<close>

text \<open>\<open>labels::LabelSyncItem\<close>: labels go over the wire by name and messages by Message-ID.\<close>

datatype label_sync_item =
    LCreate string "nat option"
  | LRename string string
  | LDelete string
  | LSetColor string "nat option"
  | LApply "string list" string
  | LUnapply "string list" string

text \<open>The variants of \<open>SyncData\<close> the email layer queues or triggers: label changes,
  configuration values, and the block (\<open>True\<close>) and unblock actions on a contact's chat.\<close>

datatype sync_id = ContactFingerprint string | ContactAddr string

datatype sync_data =
    EmailLabel label_sync_item
  | SyncConfig config string
  | AlterChat sync_id bool

datatype sync = Nosync | Sync

section \<open>The context\<close>

record ctx =
  clock :: int
  env_var :: "config \<Rightarrow> string option"
  tbl_config :: "config \<Rightarrow> string option"
  db_passphrase :: string
  configured_addr :: "string option"
  blob_key :: "string option"
  last_backup :: "string option"
  tbl_transports :: "transport_row list"
  tbl_multi_device_sync :: "(int \<times> sync_data) list"
  tbl_msgs :: "msg_row list"
  tbl_contacts :: "contact_row list"
  contacts_seq :: nat
  tbl_public_keys :: "string list"
  tbl_chats :: "chat_row list"
  tbl_chats_contacts :: "chats_contacts_row list"
  tbl_labels :: "label_row list"
  labels_seq :: nat
  tbl_msg_labels :: "msg_label_row list"
  tbl_pending_msg_labels :: "pending_row list"
  tbl_held_msgs :: "held_row list"
  tbl_trashed_msgs :: "trashed_row list"
  tbl_threads :: "thread_row list"
  threads_seq :: nat
  tbl_msg_threads :: "(msg_id \<times> nat) list"
  tbl_thread_refs :: "(string \<times> nat) list"
  tbl_contact_policy :: "contact_policy_row list"
  tbl_server_retention :: "(string \<times> int) list"
  tbl_msg_undelivered :: "(msg_id \<times> string) list"
  tbl_imap :: "imap_row list"
  tbl_msg_importance :: "(msg_id \<times> int) list"
  tbl_msg_send_options :: "send_options_row list"
  tbl_msg_recipients :: "recipient_row list"
  tbl_blocklist :: "blocklist_row list"
  blocklist_seq :: nat
  tbl_contact_details :: "details_row list"
  tbl_contact_phones :: "phone_row list"
  tbl_contact_categories :: "category_row list"
  categories_seq :: nat
  tbl_category_members :: "(contact_id \<times> nat) list"
  tbl_raw_mime :: "raw_mime_row list"
  tbl_structured_data :: "structured_row list"
  blobdir :: "(string \<times> bytes) list"

definition DC_CHAT_ID_TRASH :: chat_id where "DC_CHAT_ID_TRASH = 3"
definition CONTACT_SELF :: contact_id where "CONTACT_SELF = 1"
definition CONTACT_INFO :: contact_id where "CONTACT_INFO = 2"
definition CONTACT_DEVICE :: contact_id where "CONTACT_DEVICE = 5"
definition CONTACT_LAST_SPECIAL :: contact_id where "CONTACT_LAST_SPECIAL = 9"

definition is_special_contact :: "contact_id \<Rightarrow> bool" where
  "is_special_contact i \<longleftrightarrow> i \<le> CONTACT_LAST_SPECIAL"

definition is_special_chat :: "chat_id \<Rightarrow> bool" where "is_special_chat i \<longleftrightarrow> i \<le> 9"

lemmas id_consts = DC_CHAT_ID_TRASH_def CONTACT_SELF_def CONTACT_INFO_def CONTACT_DEVICE_def
  CONTACT_LAST_SPECIAL_def

text \<open>The rows a new database starts with: the reserved contacts, chats and messages of
  \<open>tables.sql\<close>, and the three reserved labels.\<close>

definition special_contact :: "nat \<times> string \<Rightarrow> contact_row" where
  "special_contact p = \<lparr>c_id = fst p, c_name = snd p, c_authname = [], c_addr = [],
     c_origin = Internal, c_blocked = False, c_last_seen = 0, c_fingerprint = [], c_verifier = 0\<rparr>"

definition special_msg :: "nat \<times> string \<Rightarrow> msg_row" where
  "special_msg p = (default_msg (fst p))\<lparr>m_txt := Some (snd p)\<rparr>"

definition special_chat :: "nat \<times> chattype \<times> string \<Rightarrow> chat_row" where
  "special_chat p = \<lparr>ch_id = fst p, ch_type = fst (snd p), ch_name = snd (snd p), ch_grpid = [],
     ch_blocked = 0, ch_ephemeral_timer = None\<rparr>"

definition initial_labels :: "label_row list" where
  "initial_labels =
    [\<lparr>l_id = 1, l_name = ''Archive'', l_name_norm = ''archive'', l_color = None, l_system = True, l_created = 0\<rparr>,
     \<lparr>l_id = 2, l_name = ''Trash'', l_name_norm = ''trash'', l_color = None, l_system = True, l_created = 0\<rparr>,
     \<lparr>l_id = 3, l_name = ''Unverified'', l_name_norm = ''unverified'', l_color = None, l_system = True, l_created = 0\<rparr>]"

definition fresh_db :: ctx where
  "fresh_db = \<lparr>clock = 0, env_var = (\<lambda>_. None), tbl_config = (\<lambda>_. None), db_passphrase = [], configured_addr = None, blob_key = None,
    last_backup = None, tbl_transports = [], tbl_multi_device_sync = [],
    tbl_msgs = map special_msg
      [(1, ''marker1''), (2, ''rsvd''), (3, ''rsvd''), (4, ''rsvd''), (5, ''rsvd''), (6, ''rsvd''),
       (7, ''rsvd''), (8, ''rsvd''), (9, ''daymarker'')],
    tbl_contacts = map special_contact
      [(1, ''self''), (2, ''info''), (3, ''rsvd''), (4, ''rsvd''), (5, ''device''), (6, ''rsvd''),
       (7, ''rsvd''), (8, ''rsvd''), (9, ''rsvd'')],
    contacts_seq = 9, tbl_public_keys = [],
    tbl_chats = map special_chat
      [(1, Group, ''deaddrop''), (2, Group, ''rsvd''), (3, Group, ''trash''),
       (4, Group, ''msgs_in_creation''), (5, Group, ''starred''), (6, Group, ''archivedlink''),
       (7, Single, ''rsvd''), (8, Single, ''rsvd''), (9, Single, ''rsvd'')],
    tbl_chats_contacts = [], tbl_labels = initial_labels, labels_seq = 3, tbl_msg_labels = [],
    tbl_pending_msg_labels = [], tbl_held_msgs = [], tbl_trashed_msgs = [], tbl_threads = [],
    threads_seq = 0, tbl_msg_threads = [], tbl_thread_refs = [], tbl_contact_policy = [],
    tbl_server_retention = [], tbl_msg_undelivered = [], tbl_imap = [], tbl_msg_importance = [],
    tbl_msg_send_options = [], tbl_msg_recipients = [], tbl_blocklist = [], blocklist_seq = 0,
    tbl_contact_details = [], tbl_contact_phones = [], tbl_contact_categories = [],
    categories_seq = 0, tbl_category_members = [], tbl_raw_mime = [], tbl_structured_data = [],
    blobdir = []\<rparr>"

end
