(* ===== verification/Config.thy ===== *)
theory Config
  imports Store
begin

text \<open>
  Configuration values (\<open>config.rs\<close>), the write-through cache of the raw configuration table
  (\<open>sql.rs\<close>), and the queue of sync items (\<open>sync.rs\<close>). Values are stored as text: an integer
  is read back by parsing it as \<open>i32\<close>, and what does not parse reads as \<open>0\<close>.
\<close>

section \<open>The raw configuration table and its cache\<close>

record raw_config =
  config_cache :: "string \<Rightarrow> string option option"
  config_rows :: "(string \<times> string) list"

definition set_raw_config :: "string \<Rightarrow> string option \<Rightarrow> raw_config \<Rightarrow> raw_config" where
  "set_raw_config k v rc =
    (let rows = (case v of
           Some x \<Rightarrow> insert_or_replace fst (k, x) (config_rows rc)
         | None \<Rightarrow> delete_where (\<lambda>r. fst r = k) (config_rows rc))
     in rc\<lparr>config_rows := rows, config_cache := (config_cache rc)(k := Some v)\<rparr>)"

definition get_raw_config :: "string \<Rightarrow> raw_config \<Rightarrow> string option \<times> raw_config" where
  "get_raw_config k rc =
    (case config_cache rc k of
       Some c \<Rightarrow> (c, rc)
     | None \<Rightarrow> (let value = map_option snd (List.find (\<lambda>r. fst r = k) (config_rows rc))
               in (value, rc\<lparr>config_cache := (config_cache rc)(k := Some value)\<rparr>)))"

definition uncache_raw_config :: "string \<Rightarrow> raw_config \<Rightarrow> raw_config" where
  "uncache_raw_config k rc = rc\<lparr>config_cache := (config_cache rc)(k := None)\<rparr>"

text \<open>What the table says, which is what the cache has to say where it says anything.\<close>

definition raw_lookup :: "raw_config \<Rightarrow> string \<Rightarrow> string option" where
  "raw_lookup rc k = map_option snd (List.find (\<lambda>r. fst r = k) (config_rows rc))"

definition cache_coherent :: "raw_config \<Rightarrow> bool" where
  "cache_coherent rc \<longleftrightarrow> unique_key fst (config_rows rc) \<and>
     (\<forall>k v. config_cache rc k = Some v \<longrightarrow> v = raw_lookup rc k)"

lemma find_map_other:
  "k \<noteq> k' \<Longrightarrow> List.find (\<lambda>r. fst r = k) (map (\<lambda>r. if fst r = k' then (k', x) else r) t) = List.find (\<lambda>r. fst r = k) t"
  by (induction t) auto

lemma find_upsert_fst:
  "map_option snd (List.find (\<lambda>r. fst r = k) (upsert fst (\<lambda>_. (k', x)) (k', x) t)) =
     (if k = k' then Some x else map_option snd (List.find (\<lambda>r. fst r = k) t))"
proof (cases "list_ex (\<lambda>r. fst r = k') t")
  case True
  then show ?thesis
    unfolding upsert_def by (induction t) (auto simp: find_map_other)
next
  case False
  then show ?thesis
    unfolding upsert_def by (induction t) auto
qed

lemma find_delete_fst:
  "List.find (\<lambda>r. fst r = k) (delete_where (\<lambda>r. fst r = k') t) =
     (if k = k' then None else List.find (\<lambda>r. fst r = k) t)"
  by (induction t) (auto simp: delete_where_def)

lemma raw_lookup_set: "raw_lookup (set_raw_config k v rc) = (raw_lookup rc)(k := v)"
  by (rule ext) (auto simp: raw_lookup_def set_raw_config_def Let_def insert_or_replace_def
      find_upsert_fst find_delete_fst split: option.splits)

lemma cache_coherent_set: "cache_coherent rc \<Longrightarrow> cache_coherent (set_raw_config k v rc)"
proof -
  assume c: "cache_coherent rc"
  have "unique_key fst (config_rows (set_raw_config k v rc))"
    using c by (auto simp: cache_coherent_def set_raw_config_def Let_def insert_or_replace_def
        split: option.splits intro!: unique_key_upsert)
  with c show ?thesis
    by (auto simp: cache_coherent_def raw_lookup_set) (auto simp: set_raw_config_def Let_def split: if_splits)
qed

lemma cache_coherent_get:
  "cache_coherent rc \<Longrightarrow> cache_coherent (snd (get_raw_config k rc))"
  by (auto simp: cache_coherent_def get_raw_config_def raw_lookup_def Let_def split: option.splits)

lemma cache_coherent_uncache: "cache_coherent rc \<Longrightarrow> cache_coherent (uncache_raw_config k rc)"
  by (auto simp: cache_coherent_def uncache_raw_config_def raw_lookup_def split: if_splits)

lemma raw_lookup_get [simp]: "raw_lookup (snd (get_raw_config k rc)) = raw_lookup rc"
  by (rule ext) (simp add: raw_lookup_def get_raw_config_def Let_def split: option.splits)

lemma raw_lookup_uncache [simp]: "raw_lookup (uncache_raw_config k rc) = raw_lookup rc"
  by (rule ext) (simp add: raw_lookup_def uncache_raw_config_def)

section \<open>Reading values\<close>

definition get_config_opt :: "ctx \<Rightarrow> config \<Rightarrow> string option" where
  "get_config_opt c k = (case env_var c k of Some v \<Rightarrow> Some v | None \<Rightarrow> tbl_config c k)"

definition get_config :: "ctx \<Rightarrow> config \<Rightarrow> string option" where
  "get_config c k = (case get_config_opt c k of Some v \<Rightarrow> Some v | None \<Rightarrow> config_default k)"

definition get_config_int :: "ctx \<Rightarrow> config \<Rightarrow> int" where
  "get_config_int c k =
    (case get_config c k of None \<Rightarrow> 0
     | Some s \<Rightarrow> (case parse_i32 s of None \<Rightarrow> 0 | Some i \<Rightarrow> i))"

definition get_config_bool_opt :: "ctx \<Rightarrow> config \<Rightarrow> bool option" where
  "get_config_bool_opt c k =
    (case get_config_opt c k of None \<Rightarrow> None | Some s \<Rightarrow> map_option (\<lambda>x. x \<noteq> 0) (parse_i32 s))"

definition get_config_bool :: "ctx \<Rightarrow> config \<Rightarrow> bool" where
  "get_config_bool c k =
    (case get_config c k of None \<Rightarrow> False
     | Some s \<Rightarrow> (case parse_i32 s of None \<Rightarrow> False | Some x \<Rightarrow> x \<noteq> 0))"

definition should_send_sync_msgs :: "ctx \<Rightarrow> bool" where
  "should_send_sync_msgs c \<longleftrightarrow>
     get_config_bool c Config_SyncMsgs \<and> get_config_bool c Config_BccSelf \<and> \<not> get_config_bool c Config_Bot"

definition should_send_mdns :: "ctx \<Rightarrow> bool" where
  "should_send_mdns c \<longleftrightarrow> get_config_bool c Config_MdnsEnabled"

definition is_configured :: "ctx \<Rightarrow> bool" where "is_configured c \<longleftrightarrow> tbl_transports c \<noteq> []"

section \<open>Sync items and writing values\<close>

definition add_sync_item :: "sync_data \<Rightarrow> ctx \<Rightarrow> ctx" where
  "add_sync_item d c =
    (if should_send_sync_msgs c
     then c\<lparr>tbl_multi_device_sync := tbl_multi_device_sync c @ [(clock c, d)]\<rparr> else c)"

definition is_synced :: "config \<Rightarrow> bool" where
  "is_synced k \<longleftrightarrow> k \<in> {Config_MdnsEnabled, Config_Selfstatus, Config_ForceEncryption,
     Config_EmailSignature, Config_EmailSignatureHtml}"

definition check_config :: "config \<Rightarrow> string option \<Rightarrow> bool" where
  "check_config k v \<longleftrightarrow>
     (k \<in> {Config_BccSelf, Config_MdnsEnabled, Config_Bot, Config_SyncMsgs} \<longrightarrow>
        v \<in> {None, Some ''0'', Some ''1''})"

definition set_config_ext :: "sync \<Rightarrow> config \<Rightarrow> string option \<Rightarrow> (ctx, unit) eff" where
  "set_config_ext sy k v c =
    (if \<not> check_config k v then (Err BoolExpected, c)
     else
       let do_sync = (sy = Sync \<and> is_synced k \<and> is_configured c);
           c1 = c\<lparr>tbl_config := (tbl_config c)(k := v)\<rparr>
       in (case v of
             Some val \<Rightarrow> (Ok (), if do_sync then add_sync_item (SyncConfig k val) c1 else c1)
           | None \<Rightarrow> (Ok (), c1)))"

definition set_config :: "config \<Rightarrow> string option \<Rightarrow> (ctx, unit) eff" where
  "set_config k v c =
    (if \<not> check_config k v then (Err BoolExpected, c) else set_config_ext Sync k v c)"

definition from_bool :: "bool \<Rightarrow> string option" where
  "from_bool b = Some (if b then ''1'' else ''0'')"

definition set_config_bool :: "config \<Rightarrow> bool \<Rightarrow> (ctx, unit) eff" where
  "set_config_bool k b = set_config k (from_bool b)"

text \<open>A configuration item from another device. The value of a key that is not synced is ignored.\<close>

definition sync_config :: "config \<Rightarrow> string \<Rightarrow> (ctx, unit) eff" where
  "sync_config k v c = (if is_synced k then set_config_ext Nosync k (Some v) c else (Ok (), c))"

subsection \<open>Lemmas\<close>

lemma add_sync_item_frame:
  "add_sync_item d c = c\<lparr>tbl_multi_device_sync := tbl_multi_device_sync (add_sync_item d c)\<rparr>"
  by (simp add: add_sync_item_def)

lemma set_config_ext_frame:
  "snd (set_config_ext sy k v c) =
     c\<lparr>tbl_config := tbl_config (snd (set_config_ext sy k v c)),
       tbl_multi_device_sync := tbl_multi_device_sync (snd (set_config_ext sy k v c))\<rparr>"
  by (simp add: set_config_ext_def add_sync_item_def Let_def split: option.splits)

lemma get_config_frame:
  "env_var c' = env_var c \<Longrightarrow> tbl_config c' = tbl_config c \<Longrightarrow> get_config c' = get_config c"
  by (rule ext) (simp add: get_config_def get_config_opt_def split: option.splits)

lemma get_config_int_frame:
  "env_var c' = env_var c \<Longrightarrow> tbl_config c' = tbl_config c \<Longrightarrow> get_config_int c' = get_config_int c"
  by (rule ext) (simp add: get_config_int_def get_config_frame [of c' c])

lemma get_config_bool_frame:
  "env_var c' = env_var c \<Longrightarrow> tbl_config c' = tbl_config c \<Longrightarrow> get_config_bool c' = get_config_bool c"
  by (rule ext) (simp add: get_config_bool_def get_config_frame [of c' c])

lemmas config_frame = get_config_frame get_config_int_frame get_config_bool_frame

text \<open>A value written for a key that no environment variable overrides is what is read.\<close>

lemma set_config_tbl:
  "check_config k v \<Longrightarrow> tbl_config (snd (set_config k v c)) = (tbl_config c)(k := v) \<and> env_var (snd (set_config k v c)) = env_var c"
  by (auto simp: set_config_def set_config_ext_def Let_def add_sync_item_def split: option.splits)

lemma set_config_Ok: "check_config k v \<Longrightarrow> fst (set_config k v c) = Ok ()"
  by (auto simp: set_config_def set_config_ext_def Let_def split: option.splits)

lemma get_config_set:
  "check_config k (Some v) \<Longrightarrow> env_var c k = None \<Longrightarrow> get_config (snd (set_config k (Some v) c)) k = Some v"
  using set_config_tbl [of k "Some v" c] by (simp add: get_config_def get_config_opt_def)

lemma get_config_int_set:
  "check_config k (Some (show_int i)) \<Longrightarrow> env_var c k = None \<Longrightarrow>
     get_config_int (snd (set_config k (Some (show_int i)) c)) k = (if - (2 ^ 31) \<le> i \<and> i < 2 ^ 31 then i else 0)"
  by (simp add: get_config_int_def get_config_set parse_i32_show_int)

lemma get_config_set_other:
  "k' \<noteq> k \<Longrightarrow> get_config (snd (set_config k v c)) k' = get_config c k'"
proof (cases "check_config k v")
  case True
  moreover assume "k' \<noteq> k"
  ultimately show ?thesis
    using set_config_tbl [OF True, of c] by (simp add: get_config_def get_config_opt_def split: option.split)
qed (simp add: set_config_def)

end
