(* ===== verification/Messages.thy ===== *)
theory Messages
  imports Config
begin

text \<open>
  The parts of \<open>message.rs\<close> the email layer calls: finding a message by id or by Message-ID, the
  tombstone a destroyed message leaves, and which rows count as messages that still exist.
\<close>

definition find_msg :: "ctx \<Rightarrow> msg_id \<Rightarrow> msg_row option" where
  "find_msg c m = List.find (\<lambda>r. m_id r = m) (tbl_msgs c)"

text \<open>\<open>SELECT IFNULL(rfc724_mid, '')\<close>.\<close>

definition mid_of :: "msg_row \<Rightarrow> string" where
  "mid_of r = (case m_rfc724_mid r of None \<Rightarrow> [] | Some s \<Rightarrow> s)"

text \<open>
  The query aggregates with \<open>MIN(expr)\<close> over all matching rows, so its bare column \<open>id\<close> comes
  from one of them; the \<open>ORDER BY\<close> acts on the single aggregate row and chooses nothing. The
  model takes the first matching row of the table.
\<close>

definition strip_brackets :: "string \<Rightarrow> string" where
  "strip_brackets s = trim_end_matches (\<lambda>c. c = CHR ''>'') (trim_start_matches (\<lambda>c. c = CHR ''<'') s)"

definition mid_matches :: "string \<Rightarrow> msg_row \<Rightarrow> bool" where
  "mid_matches mid r \<longleftrightarrow> m_rfc724_mid r = Some mid \<or> m_pre_rfc724_mid r = Some mid"

definition rfc724_mid_exists_ext :: "ctx \<Rightarrow> string \<Rightarrow> (msg_row \<Rightarrow> bool) \<Rightarrow> (msg_id \<times> bool) option" where
  "rfc724_mid_exists_ext c s expr =
    (let mid = strip_brackets s in
     if mid = [] then None
     else case filter (mid_matches mid) (tbl_msgs c) of
            [] \<Rightarrow> None
          | r # rs \<Rightarrow> Some (m_id r, list_all expr (r # rs)))"

definition rfc724_mid_exists :: "ctx \<Rightarrow> string \<Rightarrow> msg_id option" where
  "rfc724_mid_exists c s = map_option fst (rfc724_mid_exists_ext c s (\<lambda>_. True))"

text \<open>\<open>MsgId::trash\<close>: the row becomes a tombstone that keeps only its ids and its timestamp.\<close>

definition tombstone :: "bool \<Rightarrow> msg_row \<Rightarrow> msg_row" where
  "tombstone on_server r = (default_msg (m_id r))\<lparr>m_rfc724_mid := m_rfc724_mid r,
     m_pre_rfc724_mid := m_pre_rfc724_mid r, m_timestamp := m_timestamp r,
     m_chat_id := DC_CHAT_ID_TRASH, m_deleted := on_server\<rparr>"

definition msg_trash :: "msg_id \<Rightarrow> bool \<Rightarrow> ctx \<Rightarrow> ctx" where
  "msg_trash m on_server c =
    c\<lparr>tbl_msgs := update_where (\<lambda>r. m_id r = m) (tombstone on_server) (tbl_msgs c)\<rparr>"

text \<open>The sub-select \<open>SELECT id FROM msgs WHERE chat_id!=DC_CHAT_ID_TRASH\<close> of the prune functions.\<close>

definition live_ids :: "ctx \<Rightarrow> msg_id list" where
  "live_ids c = map m_id (filter (\<lambda>r. m_chat_id r \<noteq> DC_CHAT_ID_TRASH) (tbl_msgs c))"

section \<open>Lemmas\<close>

definition wf_msgs :: "ctx \<Rightarrow> bool" where "wf_msgs c \<longleftrightarrow> unique_key m_id (tbl_msgs c)"

lemma find_msg_Some: "find_msg c m = Some r \<Longrightarrow> r \<in> set (tbl_msgs c) \<and> m_id r = m"
  unfolding find_msg_def by (rule find_Some_set)

lemma find_msg_row: "wf_msgs c \<Longrightarrow> r \<in> set (tbl_msgs c) \<Longrightarrow> find_msg c (m_id r) = Some r"
  unfolding find_msg_def wf_msgs_def by (rule find_unique)

lemma m_id_tombstone [simp]: "m_id (tombstone b r) = m_id r"
  by (simp add: tombstone_def default_msg_def)

lemma m_chat_id_tombstone [simp]: "m_chat_id (tombstone b r) = DC_CHAT_ID_TRASH"
  by (simp add: tombstone_def)

lemma mid_of_tombstone [simp]: "mid_of (tombstone b r) = mid_of r"
  by (simp add: tombstone_def mid_of_def)

lemma m_ids_msg_trash [simp]: "map m_id (tbl_msgs (msg_trash m b c)) = map m_id (tbl_msgs c)"
  by (simp add: msg_trash_def update_where_def comp_def if_distrib cong: if_cong)

lemma wf_msgs_msg_trash [simp]: "wf_msgs (msg_trash m b c) = wf_msgs c"
  by (simp add: wf_msgs_def unique_key_def)

lemma live_ids_iff:
  "m \<in> set (live_ids c) \<longleftrightarrow> (\<exists>r \<in> set (tbl_msgs c). m_id r = m \<and> m_chat_id r \<noteq> DC_CHAT_ID_TRASH)"
  by (auto simp: live_ids_def)

lemma live_ids_msg_trash: "x \<in> set (live_ids (msg_trash m b c)) \<longleftrightarrow> x \<in> set (live_ids c) \<and> x \<noteq> m"
proof -
  have "x \<in> set (live_ids (msg_trash m b c)) \<longleftrightarrow>
      (\<exists>r \<in> set (tbl_msgs c). m_id r = x \<and> m_id r \<noteq> m \<and> m_chat_id r \<noteq> DC_CHAT_ID_TRASH)"
    unfolding live_ids_iff msg_trash_def by (auto split: if_splits)
  then show ?thesis by (auto simp: live_ids_iff)
qed

lemma strip_brackets_id:
  "s \<noteq> [] \<Longrightarrow> hd s \<noteq> CHR ''<'' \<Longrightarrow> last s \<noteq> CHR ''>'' \<Longrightarrow> strip_brackets s = s"
  by (cases s) (simp_all add: strip_brackets_def trim_start_matches_def trim_end_matches_fix)

lemma rfc724_mid_exists_Some:
  "rfc724_mid_exists c s = Some m \<Longrightarrow> \<exists>r \<in> set (tbl_msgs c). m_id r = m \<and> mid_matches (strip_brackets s) r"
proof -
  assume "rfc724_mid_exists c s = Some m"
  then obtain r rs where "filter (mid_matches (strip_brackets s)) (tbl_msgs c) = r # rs" "m = m_id r"
    by (auto simp: rfc724_mid_exists_def rfc724_mid_exists_ext_def Let_def split: if_splits list.splits)
  moreover from this(1) have "r \<in> set (filter (mid_matches (strip_brackets s)) (tbl_msgs c))"
    by simp
  then have "r \<in> set (tbl_msgs c)" "mid_matches (strip_brackets s) r" by simp_all
  ultimately show ?thesis by blast
qed

lemma rfc724_mid_exists_None:
  "rfc724_mid_exists c s = None \<longleftrightarrow>
     strip_brackets s = [] \<or> (\<forall>r \<in> set (tbl_msgs c). \<not> mid_matches (strip_brackets s) r)"
proof -
  have "rfc724_mid_exists c s = None \<longleftrightarrow>
      strip_brackets s = [] \<or> filter (mid_matches (strip_brackets s)) (tbl_msgs c) = []"
    by (auto simp: rfc724_mid_exists_def rfc724_mid_exists_ext_def Let_def split: list.splits)
  then show ?thesis by (simp add: filter_empty_conv)
qed

end
