(* ===== verification/Labels.thy ===== *)
theory Labels
  imports Messages
begin

text \<open>
  \<open>email/labels.rs\<close>: labels, the archive, and their synchronisation between the user's devices.
  A label change from another device that names a message which has not arrived is parked in
  \<open>pending_msg_labels\<close> and applied by \<open>drain_pending\<close> when it does.
\<close>

section \<open>Labels\<close>

definition ARCHIVE :: string where "ARCHIVE = ''Archive''"
definition TRASH :: string where "TRASH = ''Trash''"
definition UNVERIFIED :: string where "UNVERIFIED = ''Unverified''"
definition RESERVED :: "string list" where "RESERVED = [ARCHIVE, TRASH, UNVERIFIED]"
definition PENDING_TTL :: int where "PENDING_TTL = 90 * 86400"

record label =
  lab_id :: label_id
  lab_name :: string
  lab_color :: "nat option"
  lab_is_system :: bool

definition labels_normalize :: "string \<Rightarrow> string" where
  "labels_normalize name = to_lowercase (trim name)"

definition row_to_label :: "label_row \<Rightarrow> label" where
  "row_to_label r = \<lparr>lab_id = l_id r, lab_name = l_name r, lab_color = l_color r, lab_is_system = l_system r\<rparr>"

text \<open>\<open>ORDER BY system DESC, name_norm\<close>.\<close>

definition label_order :: "label_row \<Rightarrow> bool \<times> string" where
  "label_order r = (\<not> l_system r, l_name_norm r)"

definition labels_list :: "ctx \<Rightarrow> label list" where
  "labels_list c = map row_to_label (sort_key label_order (tbl_labels c))"

definition by_name :: "ctx \<Rightarrow> string \<Rightarrow> label option" where
  "by_name c name =
    map_option row_to_label (List.find (\<lambda>r. l_name_norm r = labels_normalize name) (tbl_labels c))"

definition reserved :: "ctx \<Rightarrow> string \<Rightarrow> label result" where
  "reserved c name = (case by_name c name of Some l \<Rightarrow> Ok l | None \<Rightarrow> Err (ReservedMissing name))"

definition archive_label :: "ctx \<Rightarrow> label result" where "archive_label c = reserved c ARCHIVE"

definition insert_label :: "string \<Rightarrow> string \<Rightarrow> nat option \<Rightarrow> ctx \<Rightarrow> ctx" where
  "insert_label name name_norm color c =
    (if list_ex (\<lambda>r. l_name_norm r = name_norm) (tbl_labels c) then c
     else c\<lparr>tbl_labels := tbl_labels c @
              [\<lparr>l_id = Suc (labels_seq c), l_name = name, l_name_norm = name_norm, l_color = color,
                l_system = False, l_created = clock c\<rparr>],
            labels_seq := Suc (labels_seq c)\<rparr>)"

definition queue_label_item :: "sync \<Rightarrow> label_sync_item \<Rightarrow> ctx \<Rightarrow> ctx" where
  "queue_label_item sy i c = (if sy = Sync then add_sync_item (EmailLabel i) c else c)"

definition create_ext :: "string \<Rightarrow> nat option \<Rightarrow> sync \<Rightarrow> (ctx, label) eff" where
  "create_ext name color sy c =
    (let trimmed = trim name; name_norm = labels_normalize trimmed in
     if trimmed = [] then (Err LabelNameEmpty, c)
     else case by_name c name_norm of
         Some existing \<Rightarrow> (Ok existing, c)
       | None \<Rightarrow>
           let c1 = insert_label trimmed name_norm color c;
               c2 = queue_label_item sy (LCreate trimmed color) c1
           in (case by_name c2 name_norm of Some l \<Rightarrow> (Ok l, c2) | None \<Rightarrow> (Err LabelVanished, c2)))"

definition create :: "string \<Rightarrow> nat option \<Rightarrow> (ctx, label) eff" where
  "create name color = create_ext name color Sync"

definition label_load :: "ctx \<Rightarrow> label_id \<Rightarrow> label result" where
  "label_load c i =
    (case List.find (\<lambda>r. l_id r = i) (tbl_labels c) of
       Some r \<Rightarrow> Ok (row_to_label r) | None \<Rightarrow> Err (NoSuchLabel i))"

definition rename_ext :: "label \<Rightarrow> string \<Rightarrow> sync \<Rightarrow> (ctx, unit) eff" where
  "rename_ext l new_name sy c =
    (let trimmed = trim new_name; name_norm = labels_normalize trimmed in
     if lab_is_system l then (Err (ReservedLabel (lab_name l)), c)
     else if trimmed = [] then (Err LabelNameEmpty, c)
     else if (case by_name c name_norm of Some e \<Rightarrow> lab_id e \<noteq> lab_id l | None \<Rightarrow> False)
       then (Err (LabelExists trimmed), c)
     else
       let c1 = c\<lparr>tbl_labels := update_where (\<lambda>r. l_id r = lab_id l)
                    (\<lambda>r. r\<lparr>l_name := trimmed, l_name_norm := name_norm\<rparr>) (tbl_labels c)\<rparr>
       in (Ok (), queue_label_item sy (LRename (lab_name l) trimmed) c1))"

definition set_color_ext :: "label \<Rightarrow> nat option \<Rightarrow> sync \<Rightarrow> ctx \<Rightarrow> ctx" where
  "set_color_ext l color sy c =
    queue_label_item sy (LSetColor (lab_name l) color)
      (c\<lparr>tbl_labels := update_where (\<lambda>r. l_id r = lab_id l) (\<lambda>r. r\<lparr>l_color := color\<rparr>) (tbl_labels c)\<rparr>)"

definition delete_ext :: "label \<Rightarrow> sync \<Rightarrow> (ctx, unit) eff" where
  "delete_ext l sy c =
    (if lab_is_system l then (Err (ReservedLabel (lab_name l)), c)
     else
       let c1 = c\<lparr>tbl_msg_labels := delete_where (\<lambda>r. snd r = lab_id l) (tbl_msg_labels c),
                  tbl_pending_msg_labels := delete_where (\<lambda>r. p_label_id r = lab_id l) (tbl_pending_msg_labels c),
                  tbl_labels := delete_where (\<lambda>r. l_id r = lab_id l) (tbl_labels c)\<rparr>
       in (Ok (), queue_label_item sy (LDelete (lab_name l)) c1))"

text \<open>\<open>load(context, id).await?\<close> followed by an operation on the label.\<close>

definition with_label :: "label_id \<Rightarrow> (label \<Rightarrow> (ctx, 'a) eff) \<Rightarrow> (ctx, 'a) eff" where
  "with_label i f c = (case label_load c i of Ok l \<Rightarrow> f l c | Err e \<Rightarrow> (Err e, c))"

definition rename :: "label_id \<Rightarrow> string \<Rightarrow> (ctx, unit) eff" where
  "rename i new_name = with_label i (\<lambda>l. rename_ext l new_name Sync)"

definition set_color :: "label_id \<Rightarrow> nat option \<Rightarrow> (ctx, unit) eff" where
  "set_color i color = with_label i (\<lambda>l c. (Ok (), set_color_ext l color Sync c))"

definition labels_delete :: "label_id \<Rightarrow> (ctx, unit) eff" where
  "labels_delete i = with_label i (\<lambda>l. delete_ext l Sync)"

section \<open>Labels on messages\<close>

definition set_label_row :: "bool \<Rightarrow> label_id \<Rightarrow> msg_id \<Rightarrow> msg_label_row list \<Rightarrow> msg_label_row list" where
  "set_label_row apply lid m t =
    (if apply then insert_or_ignore id (m, lid) t else delete_where (\<lambda>r. r = (m, lid)) t)"

definition set_label_rows :: "bool \<Rightarrow> label_id \<Rightarrow> msg_id list \<Rightarrow> msg_label_row list \<Rightarrow> msg_label_row list" where
  "set_label_rows apply lid ids t = fold (set_label_row apply lid) ids t"

definition rfc724_mids :: "ctx \<Rightarrow> msg_id list \<Rightarrow> string list" where
  "rfc724_mids c ms =
    filter (\<lambda>s. s \<noteq> []) (List.map_filter (\<lambda>m. map_option mid_of (find_msg c m)) ms)"

definition set_ext :: "msg_id list \<Rightarrow> label \<Rightarrow> bool \<Rightarrow> sync \<Rightarrow> ctx \<Rightarrow> ctx" where
  "set_ext ms l apply sy c =
    (if ms = [] then c
     else
       let c1 = c\<lparr>tbl_msg_labels := set_label_rows apply (lab_id l) ms (tbl_msg_labels c)\<rparr>;
           mids = rfc724_mids c1 ms
       in if mids = [] then c1
          else queue_label_item sy (if apply then LApply mids (lab_name l) else LUnapply mids (lab_name l)) c1)"

definition labels_apply :: "msg_id list \<Rightarrow> label_id \<Rightarrow> (ctx, unit) eff" where
  "labels_apply ms i = with_label i (\<lambda>l c. (Ok (), set_ext ms l True Sync c))"

definition labels_unapply :: "msg_id list \<Rightarrow> label_id \<Rightarrow> (ctx, unit) eff" where
  "labels_unapply ms i = with_label i (\<lambda>l c. (Ok (), set_ext ms l False Sync c))"

definition labels_of_msg :: "ctx \<Rightarrow> msg_id \<Rightarrow> label list" where
  "labels_of_msg c m = map row_to_label (sort_key label_order
     [l. ml \<leftarrow> tbl_msg_labels c, fst ml = m, l \<leftarrow> tbl_labels c, l_id l = snd ml])"

text \<open>\<open>ORDER BY m.timestamp DESC, m.id DESC\<close>.\<close>

definition newest_first :: "msg_row \<Rightarrow> int \<times> int" where
  "newest_first r = (- m_timestamp r, - int (m_id r))"

definition msgs_with :: "ctx \<Rightarrow> label_id \<Rightarrow> msg_id list" where
  "msgs_with c i = map m_id (sort_key newest_first
     [m. ml \<leftarrow> tbl_msg_labels c, snd ml = i, m \<leftarrow> tbl_msgs c,
         m_id m = fst ml \<and> m_chat_id m \<noteq> DC_CHAT_ID_TRASH \<and> \<not> m_hidden m])"

text \<open>An operation on a reserved label: \<open>reserved(context, name).await?\<close>, then \<open>set_ext\<close>.\<close>

definition set_reserved :: "string \<Rightarrow> msg_id list \<Rightarrow> bool \<Rightarrow> sync \<Rightarrow> (ctx, unit) eff" where
  "set_reserved name ms apply sy c =
    (case reserved c name of Ok l \<Rightarrow> (Ok (), set_ext ms l apply sy c) | Err e \<Rightarrow> (Err e, c))"

definition archive :: "msg_id list \<Rightarrow> (ctx, unit) eff" where
  "archive ms = set_reserved ARCHIVE ms True Sync"

definition unarchive :: "msg_id list \<Rightarrow> (ctx, unit) eff" where
  "unarchive ms = set_reserved ARCHIVE ms False Sync"

definition is_archived :: "ctx \<Rightarrow> msg_id \<Rightarrow> bool" where
  "is_archived c m \<longleftrightarrow> list_ex (\<lambda>ml. fst ml = m \<and>
     list_ex (\<lambda>l. l_id l = snd ml \<and> l_name_norm l = labels_normalize ARCHIVE) (tbl_labels c)) (tbl_msg_labels c)"

section \<open>Changes from another device\<close>

definition park :: "label_id \<Rightarrow> bool \<Rightarrow> int \<Rightarrow> string \<Rightarrow> pending_row list \<Rightarrow> pending_row list" where
  "park lid apply ts mid t =
    upsert (\<lambda>r. (p_rfc724_mid r, p_label_id r))
      (\<lambda>old. if ts \<ge> p_timestamp old then old\<lparr>p_apply := apply, p_timestamp := ts\<rparr> else old)
      \<lparr>p_rfc724_mid = mid, p_label_id = lid, p_apply = apply, p_timestamp = ts\<rparr> t"

text \<open>The label a sync item names, created without syncing if it does not exist here.\<close>

definition resolve_label :: "string \<Rightarrow> nat option \<Rightarrow> (ctx, label) eff" where
  "resolve_label name color c =
    (case by_name c name of Some l \<Rightarrow> (Ok l, c) | None \<Rightarrow> create_ext name color Nosync c)"

definition sync_set :: "string list \<Rightarrow> string \<Rightarrow> bool \<Rightarrow> int \<Rightarrow> (ctx, unit) eff" where
  "sync_set mids label_name apply ts c =
    (case resolve_label label_name None c of
       (Err e, c1) \<Rightarrow> (Err e, c1)
     | (Ok l, c1) \<Rightarrow>
         let resolved = List.map_filter (rfc724_mid_exists c1) mids;
             pending = filter (\<lambda>mid. rfc724_mid_exists c1 mid = None) mids;
             c2 = set_ext resolved l apply Nosync c1
         in (Ok (), c2\<lparr>tbl_pending_msg_labels :=
                      fold (park (lab_id l) apply ts) pending (tbl_pending_msg_labels c2)\<rparr>))"

definition unit_of :: "'a result \<times> ctx \<Rightarrow> unit result \<times> ctx" where
  "unit_of p = (case p of (Ok _, c) \<Rightarrow> (Ok (), c) | (Err e, c) \<Rightarrow> (Err e, c))"

fun execute_sync_item :: "label_sync_item \<Rightarrow> int \<Rightarrow> (ctx, unit) eff" where
  "execute_sync_item (LCreate name color) ts c = unit_of (create_ext name color Nosync c)"
| "execute_sync_item (LRename from to) ts c =
    (case by_name c from of
       Some l \<Rightarrow> rename_ext l to Nosync c
     | None \<Rightarrow> unit_of (create_ext to None Nosync c))"
| "execute_sync_item (LDelete name) ts c =
    (case by_name c name of Some l \<Rightarrow> delete_ext l Nosync c | None \<Rightarrow> (Ok (), c))"
| "execute_sync_item (LSetColor name color) ts c =
    (case resolve_label name color c of
       (Err e, c1) \<Rightarrow> (Err e, c1)
     | (Ok l, c1) \<Rightarrow> (Ok (), set_color_ext l color Nosync c1))"
| "execute_sync_item (LApply mids l) ts c = sync_set mids l True ts c"
| "execute_sync_item (LUnapply mids l) ts c = sync_set mids l False ts c"

definition drain_pending :: "msg_id \<Rightarrow> ctx \<Rightarrow> ctx" where
  "drain_pending m c =
    (case find_msg c m of None \<Rightarrow> c
     | Some r \<Rightarrow>
         if mid_of r = [] then c
         else
           let pending = filter (\<lambda>p. p_rfc724_mid p = mid_of r) (tbl_pending_msg_labels c)
           in if pending = [] then c
              else c\<lparr>tbl_msg_labels :=
                       fold (\<lambda>p. set_label_row (p_apply p) (p_label_id p) m) pending (tbl_msg_labels c),
                     tbl_pending_msg_labels :=
                       delete_where (\<lambda>p. p_rfc724_mid p = mid_of r) (tbl_pending_msg_labels c)\<rparr>)"

definition labels_prune :: "ctx \<Rightarrow> ctx" where
  "labels_prune c =
    c\<lparr>tbl_msg_labels := delete_where (\<lambda>ml. fst ml \<notin> set (live_ids c)) (tbl_msg_labels c),
      tbl_pending_msg_labels :=
        delete_where (\<lambda>p. p_timestamp p < saturating_sub (clock c) PENDING_TTL) (tbl_pending_msg_labels c)\<rparr>"

section \<open>Basic facts\<close>

lemma normalize_trim [simp]: "labels_normalize (trim n) = labels_normalize n"
  by (simp add: labels_normalize_def)

lemma normalize_idem [simp]: "labels_normalize (labels_normalize n) = labels_normalize n"
  by (simp add: labels_normalize_def trim_to_lowercase)

lemma by_name_normalize [simp]: "by_name c (labels_normalize n) = by_name c n"
  by (simp add: by_name_def)

lemma queue_label_item_frame [simp]:
  "clock (queue_label_item sy i c) = clock c"
  "env_var (queue_label_item sy i c) = env_var c"
  "tbl_config (queue_label_item sy i c) = tbl_config c"
  "configured_addr (queue_label_item sy i c) = configured_addr c"
  "tbl_msgs (queue_label_item sy i c) = tbl_msgs c"
  "tbl_contacts (queue_label_item sy i c) = tbl_contacts c"
  "tbl_labels (queue_label_item sy i c) = tbl_labels c"
  "labels_seq (queue_label_item sy i c) = labels_seq c"
  "tbl_msg_labels (queue_label_item sy i c) = tbl_msg_labels c"
  "tbl_pending_msg_labels (queue_label_item sy i c) = tbl_pending_msg_labels c"
  "tbl_held_msgs (queue_label_item sy i c) = tbl_held_msgs c"
  "tbl_trashed_msgs (queue_label_item sy i c) = tbl_trashed_msgs c"
  by (simp_all add: queue_label_item_def add_sync_item_def)

lemma queue_label_item_Nosync [simp]: "queue_label_item Nosync i c = c"
  by (simp add: queue_label_item_def)

lemma by_name_cong: "tbl_labels c' = tbl_labels c \<Longrightarrow> by_name c' n = by_name c n"
  by (simp add: by_name_def)

lemma by_name_queue [simp]: "by_name (queue_label_item sy i c) n = by_name c n"
  by (simp add: by_name_def)

lemma reserved_cong: "tbl_labels c' = tbl_labels c \<Longrightarrow> reserved c' n = reserved c n"
  by (simp add: reserved_def by_name_def)

lemma by_name_Some:
  "by_name c n = Some l \<Longrightarrow>
     \<exists>r \<in> set (tbl_labels c). l = row_to_label r \<and> l_name_norm r = labels_normalize n"
  by (auto simp: by_name_def dest: find_Some_set)

lemma by_name_None: "by_name c n = None \<longleftrightarrow> labels_normalize n \<notin> l_name_norm ` set (tbl_labels c)"
  by (simp add: by_name_def find_None_set image_iff) metis

lemma label_load_Ok: "label_load c i = Ok l \<Longrightarrow> \<exists>r \<in> set (tbl_labels c). l = row_to_label r \<and> l_id r = i"
  by (auto simp: label_load_def split: option.splits dest: find_Some_set)

lemma row_to_label_simps [simp]:
  "lab_id (row_to_label r) = l_id r" "lab_name (row_to_label r) = l_name r"
  "lab_color (row_to_label r) = l_color r" "lab_is_system (row_to_label r) = l_system r"
  by (simp_all add: row_to_label_def)

subsection \<open>The rows a label change writes\<close>

lemma set_label_row_iff:
  "(m', l') \<in> set (set_label_row a l m t) \<longleftrightarrow> (if m' = m \<and> l' = l then a else (m', l') \<in> set t)"
  by (auto simp: set_label_row_def set_insert_or_ignore)

lemma set_label_rows_iff:
  "(m', l') \<in> set (set_label_rows a l ms t) \<longleftrightarrow>
     (if m' \<in> set ms \<and> l' = l then a else (m', l') \<in> set t)"
  unfolding set_label_rows_def
  by (induction ms arbitrary: t) (auto simp: set_label_row_iff)

lemma distinct_set_label_row: "distinct t \<Longrightarrow> distinct (set_label_row a l m t)"
  by (auto simp: set_label_row_def insert_or_ignore_def delete_where_def list_ex_iff)

lemma distinct_set_label_rows: "distinct t \<Longrightarrow> distinct (set_label_rows a l ms t)"
  unfolding set_label_rows_def by (induction ms arbitrary: t) (auto simp: distinct_set_label_row)

lemma set_ext_frame [simp]:
  "clock (set_ext ms l a sy c) = clock c"
  "env_var (set_ext ms l a sy c) = env_var c"
  "tbl_config (set_ext ms l a sy c) = tbl_config c"
  "configured_addr (set_ext ms l a sy c) = configured_addr c"
  "tbl_msgs (set_ext ms l a sy c) = tbl_msgs c"
  "tbl_contacts (set_ext ms l a sy c) = tbl_contacts c"
  "tbl_labels (set_ext ms l a sy c) = tbl_labels c"
  "labels_seq (set_ext ms l a sy c) = labels_seq c"
  "tbl_pending_msg_labels (set_ext ms l a sy c) = tbl_pending_msg_labels c"
  "tbl_held_msgs (set_ext ms l a sy c) = tbl_held_msgs c"
  "tbl_trashed_msgs (set_ext ms l a sy c) = tbl_trashed_msgs c"
  "tbl_blocklist (set_ext ms l a sy c) = tbl_blocklist c"
  "tbl_chats (set_ext ms l a sy c) = tbl_chats c"
  "tbl_chats_contacts (set_ext ms l a sy c) = tbl_chats_contacts c"
  "tbl_public_keys (set_ext ms l a sy c) = tbl_public_keys c"
  "tbl_contact_policy (set_ext ms l a sy c) = tbl_contact_policy c"
  "tbl_imap (set_ext ms l a sy c) = tbl_imap c"
  "tbl_threads (set_ext ms l a sy c) = tbl_threads c"
  "tbl_msg_threads (set_ext ms l a sy c) = tbl_msg_threads c"
  "tbl_thread_refs (set_ext ms l a sy c) = tbl_thread_refs c"
  "tbl_msg_recipients (set_ext ms l a sy c) = tbl_msg_recipients c"
  "tbl_raw_mime (set_ext ms l a sy c) = tbl_raw_mime c"
  "tbl_structured_data (set_ext ms l a sy c) = tbl_structured_data c"
  "tbl_server_retention (set_ext ms l a sy c) = tbl_server_retention c"
  "tbl_msg_undelivered (set_ext ms l a sy c) = tbl_msg_undelivered c"
  "tbl_msg_importance (set_ext ms l a sy c) = tbl_msg_importance c"
  "tbl_msg_send_options (set_ext ms l a sy c) = tbl_msg_send_options c"
  "blobdir (set_ext ms l a sy c) = blobdir c"
  "blob_key (set_ext ms l a sy c) = blob_key c"
  by (simp_all add: set_ext_def Let_def queue_label_item_def add_sync_item_def)

lemma tbl_msg_labels_set_ext [simp]:
  "tbl_msg_labels (set_ext ms l a sy c) = set_label_rows a (lab_id l) ms (tbl_msg_labels c)"
  by (simp add: set_ext_def Let_def set_label_rows_def)

lemma set_ext_Nosync:
  "set_ext ms l a Nosync c = c\<lparr>tbl_msg_labels := set_label_rows a (lab_id l) ms (tbl_msg_labels c)\<rparr>"
  by (simp add: set_ext_def Let_def set_label_rows_def)

lemma msgs_with_iff:
  "m \<in> set (msgs_with c i) \<longleftrightarrow>
    (m, i) \<in> set (tbl_msg_labels c) \<and> (\<exists>r \<in> set (tbl_msgs c). m_id r = m \<and> m_chat_id r \<noteq> DC_CHAT_ID_TRASH \<and> \<not> m_hidden r)"
  unfolding msgs_with_def by (auto simp: image_iff Bex_def; force)

section \<open>The invariant\<close>

text \<open>
  Names are unique case-insensitively, ids are never reused, the reserved labels exist and are
  exactly the system labels, and no label row of a message dangles.
\<close>

definition reserved_norms :: "string set" where
  "reserved_norms = labels_normalize ` set RESERVED"

definition wf_label_row :: "label_row \<Rightarrow> bool" where
  "wf_label_row r \<longleftrightarrow> l_name_norm r = labels_normalize (l_name r) \<and> trim (l_name r) = l_name r \<and>
     l_name r \<noteq> [] \<and> (l_system r \<longleftrightarrow> l_name_norm r \<in> reserved_norms)"

definition wf_label_table :: "label_row list \<Rightarrow> nat \<Rightarrow> bool" where
  "wf_label_table t n \<longleftrightarrow> unique_key l_id t \<and> unique_key l_name_norm t \<and>
     (\<forall>r \<in> set t. l_id r \<le> n \<and> wf_label_row r) \<and> reserved_norms \<subseteq> l_name_norm ` set t"

definition wf_label_refs :: "label_id set \<Rightarrow> msg_label_row list \<Rightarrow> pending_row list \<Rightarrow> bool" where
  "wf_label_refs ids ml pl \<longleftrightarrow> distinct ml \<and> unique_key (\<lambda>r. (p_rfc724_mid r, p_label_id r)) pl \<and>
     (\<forall>x \<in> set ml. snd x \<in> ids) \<and> (\<forall>p \<in> set pl. p_label_id p \<in> ids)"

definition label_ids :: "ctx \<Rightarrow> label_id set" where "label_ids c = l_id ` set (tbl_labels c)"

definition labels_inv :: "ctx \<Rightarrow> bool" where
  "labels_inv c \<longleftrightarrow> wf_label_table (tbl_labels c) (labels_seq c) \<and>
     wf_label_refs (label_ids c) (tbl_msg_labels c) (tbl_pending_msg_labels c)"

lemma reserved_norms_eq: "reserved_norms = {''archive'', ''trash'', ''unverified''}"
  by code_simp

text \<open>The reserved labels are found, and what is found by name exists.\<close>

lemma labels_inv_by_name: "labels_inv c \<Longrightarrow> by_name c n = Some l \<Longrightarrow> lab_id l \<in> label_ids c"
  by (auto simp: label_ids_def dest!: by_name_Some)

lemma reserved_Ok:
  "labels_inv c \<Longrightarrow> n \<in> set RESERVED \<Longrightarrow> \<exists>l. reserved c n = Ok l \<and> lab_id l \<in> label_ids c \<and> by_name c n = Some l"
proof -
  assume inv: "labels_inv c" and n: "n \<in> set RESERVED"
  then have "labels_normalize n \<in> l_name_norm ` set (tbl_labels c)"
    by (auto simp: labels_inv_def wf_label_table_def reserved_norms_def)
  then have "by_name c n \<noteq> None" by (simp add: by_name_None)
  with inv show ?thesis by (auto simp: reserved_def dest: labels_inv_by_name)
qed

lemma by_name_row:
  "labels_inv c \<Longrightarrow> r \<in> set (tbl_labels c) \<Longrightarrow> l_name_norm r = labels_normalize n \<Longrightarrow> by_name c n = Some (row_to_label r)"
  using find_unique [of l_name_norm "tbl_labels c" r]
  by (auto simp: by_name_def labels_inv_def wf_label_table_def)

subsection \<open>Creating, renaming and deleting labels\<close>

lemma labels_inv_frame:
  "labels_inv c \<Longrightarrow> tbl_labels c' = tbl_labels c \<Longrightarrow> labels_seq c' = labels_seq c \<Longrightarrow>
     tbl_msg_labels c' = tbl_msg_labels c \<Longrightarrow> tbl_pending_msg_labels c' = tbl_pending_msg_labels c \<Longrightarrow>
     labels_inv c'"
  by (simp add: labels_inv_def label_ids_def)

lemma labels_inv_queue [simp]: "labels_inv (queue_label_item sy i c) = labels_inv c"
  by (simp add: labels_inv_def label_ids_def)

lemma wf_label_refs_mono: "wf_label_refs A ml pl \<Longrightarrow> A \<subseteq> B \<Longrightarrow> wf_label_refs B ml pl"
  by (auto simp: wf_label_refs_def)

lemma labels_inv_insert:
  assumes inv: "labels_inv c" and n: "trim n = n" "n \<noteq> []" and free: "by_name c n = None"
  shows "labels_inv (insert_label n (labels_normalize n) color c)"
    and "by_name (insert_label n (labels_normalize n) color c) n \<noteq> None"
proof -
  let ?c = "insert_label n (labels_normalize n) color c"
  let ?r = "\<lparr>l_id = Suc (labels_seq c), l_name = n, l_name_norm = labels_normalize n, l_color = color,
                l_system = False, l_created = clock c\<rparr>"
  have new: "labels_normalize n \<notin> l_name_norm ` set (tbl_labels c)"
    using free by (simp add: by_name_None)
  then have ex: "\<not> list_ex (\<lambda>r. l_name_norm r = labels_normalize n) (tbl_labels c)"
    by (simp add: list_ex_key)
  have t: "tbl_labels ?c = tbl_labels c @ [?r]" "labels_seq ?c = Suc (labels_seq c)"
    "tbl_msg_labels ?c = tbl_msg_labels c" "tbl_pending_msg_labels ?c = tbl_pending_msg_labels c"
    using ex by (simp_all add: insert_label_def)
  have notres: "labels_normalize n \<notin> reserved_norms"
    using new inv by (auto simp: labels_inv_def wf_label_table_def)
  have tab: "wf_label_table (tbl_labels c) (labels_seq c)"
    and refs: "wf_label_refs (label_ids c) (tbl_msg_labels c) (tbl_pending_msg_labels c)"
    using inv by (simp_all add: labels_inv_def)
  have "wf_label_table (tbl_labels c @ [?r]) (Suc (labels_seq c))"
    using tab new notres n by (fastforce simp: wf_label_table_def unique_key_def wf_label_row_def)
  moreover have "label_ids c \<subseteq> label_ids ?c"
    by (auto simp: label_ids_def t)
  ultimately show "labels_inv ?c"
    using wf_label_refs_mono [OF refs] by (simp add: labels_inv_def t)
  show "by_name ?c n \<noteq> None"
    by (simp add: by_name_None t)
qed

lemma create_ext_cases:
  assumes "create_ext name color sy c = (res, c')"
  obtains (empty) "trim name = []" "res = Err LabelNameEmpty" "c' = c"
  | (exists) l where "trim name \<noteq> []" "by_name c name = Some l" "res = Ok l" "c' = c"
  | (new) "trim name \<noteq> []" "by_name c name = None"
      "c' = queue_label_item sy (LCreate (trim name) color) (insert_label (trim name) (labels_normalize name) color c)"
      "res = (case by_name c' name of Some l \<Rightarrow> Ok l | None \<Rightarrow> Err LabelVanished)"
  using assms unfolding create_ext_def Let_def
  by (auto split: if_splits option.splits)

lemma by_name_trim [simp]: "by_name c (trim n) = by_name c n"
  by (simp add: by_name_def)

lemma create_ext_inv:
  assumes "labels_inv c" "create_ext name color sy c = (res, c')"
  shows "labels_inv c'"
    and "trim name \<noteq> [] \<Longrightarrow> \<exists>l. res = Ok l \<and> by_name c' name = Some l \<and> lab_id l \<in> label_ids c'"
proof -
  have "labels_inv c' \<and> (trim name \<noteq> [] \<longrightarrow> (\<exists>l. res = Ok l \<and> by_name c' name = Some l))"
    using assms(2)
  proof (cases rule: create_ext_cases)
    case new
    then show ?thesis
      using labels_inv_insert [OF assms(1), of "trim name" color] by (auto split: option.splits)
  qed (use assms(1) in simp_all)
  then show "labels_inv c'"
    and "trim name \<noteq> [] \<Longrightarrow> \<exists>l. res = Ok l \<and> by_name c' name = Some l \<and> lab_id l \<in> label_ids c'"
    by (auto dest: labels_inv_by_name)
qed

lemma create_ext_refs:
  "create_ext name color sy c = (res, c') \<Longrightarrow>
     tbl_msg_labels c' = tbl_msg_labels c \<and> tbl_pending_msg_labels c' = tbl_pending_msg_labels c \<and> tbl_msgs c' = tbl_msgs c"
  by (erule create_ext_cases) (auto simp: insert_label_def)

lemma labels_inv_update:
  assumes inv: "labels_inv c"
    and row: "\<And>r. r \<in> set (tbl_labels c) \<Longrightarrow> l_id r = i \<Longrightarrow>
      l_id (f r) = i \<and> wf_label_row (f r) \<and> l_system (f r) = l_system r \<and> (l_system r \<longrightarrow> l_name_norm (f r) = l_name_norm r)"
    and free: "\<And>r r'. r \<in> set (tbl_labels c) \<Longrightarrow> r' \<in> set (tbl_labels c) \<Longrightarrow> l_id r = i \<Longrightarrow> l_id r' \<noteq> i \<Longrightarrow>
      l_name_norm r' \<noteq> l_name_norm (f r)"
  shows "labels_inv (c\<lparr>tbl_labels := update_where (\<lambda>r. l_id r = i) f (tbl_labels c)\<rparr>)"
proof -
  let ?t = "update_where (\<lambda>r. l_id r = i) f (tbl_labels c)"
  have tab: "wf_label_table (tbl_labels c) (labels_seq c)"
    using inv by (simp add: labels_inv_def)
  have ids: "map l_id ?t = map l_id (tbl_labels c)"
    using row by (auto simp: update_where_def)
  have uid: "unique_key l_id ?t" using tab ids by (simp add: wf_label_table_def unique_key_def)
  have un: "unique_key l_name_norm (tbl_labels c)" and ui: "unique_key l_id (tbl_labels c)"
    using tab by (simp_all add: wf_label_table_def)
  have inj: "x = y" if "x \<in> set (tbl_labels c)" "y \<in> set (tbl_labels c)"
    "l_name_norm (if l_id x = i then f x else x) = l_name_norm (if l_id y = i then f y else y)" for x y
  proof (cases "l_id x = i"; cases "l_id y = i")
    assume "l_id x = i" "l_id y = i"
    with that ui show "x = y" by (auto dest: unique_key_inj)
  next
    assume "l_id x = i" "l_id y \<noteq> i"
    with that free [of x y] show "x = y" by simp
  next
    assume "l_id x \<noteq> i" "l_id y = i"
    with that free [of y x] show "x = y" by simp
  next
    assume "l_id x \<noteq> i" "l_id y \<noteq> i"
    with that un show "x = y" by (auto dest: unique_key_inj)
  qed
  have "distinct (tbl_labels c)" using ui by (simp add: unique_key_def distinct_map)
  with inj have "unique_key l_name_norm ?t"
    unfolding unique_key_def update_where_def map_map comp_def by (simp add: distinct_map inj_on_def)
  moreover have "reserved_norms \<subseteq> l_name_norm ` set ?t"
  proof
    fix n assume n: "n \<in> reserved_norms"
    then obtain r where r: "r \<in> set (tbl_labels c)" "l_name_norm r = n"
      using tab by (auto simp: wf_label_table_def)
    with n tab have "l_system r" by (auto simp: wf_label_table_def wf_label_row_def)
    with r row [of r] have "l_name_norm (if l_id r = i then f r else r) = n" by simp
    moreover from r(1) have "(if l_id r = i then f r else r) \<in> set ?t"
      unfolding set_update_where by (rule imageI)
    ultimately show "n \<in> l_name_norm ` set ?t" by blast
  qed
  ultimately have "wf_label_table ?t (labels_seq c)"
    using tab uid row by (auto simp: wf_label_table_def)
  moreover have "label_ids (c\<lparr>tbl_labels := ?t\<rparr>) = label_ids c"
    using arg_cong [OF ids, of set] by (simp add: label_ids_def)
  ultimately show ?thesis
    using inv by (simp add: labels_inv_def)
qed

lemma rename_ext_inv:
  assumes inv: "labels_inv c" and r: "r \<in> set (tbl_labels c)"
  shows "labels_inv (snd (rename_ext (row_to_label r) new sy c))"
proof (cases "l_system r \<or> trim new = [] \<or>
    (case by_name c new of Some e \<Rightarrow> lab_id e \<noteq> l_id r | None \<Rightarrow> False)")
  case True
  then show ?thesis using inv by (auto simp: rename_ext_def Let_def split: option.splits)
next
  case False
  then have sys: "\<not> l_system r" and ne: "trim new \<noteq> []"
    and ok: "\<And>e. by_name c new = Some e \<Longrightarrow> lab_id e = l_id r" by auto
  have tab: "wf_label_table (tbl_labels c) (labels_seq c)" using inv by (simp add: labels_inv_def)
  have same: "r' = r" if "r' \<in> set (tbl_labels c)" "l_id r' = l_id r" for r'
    using tab that r by (auto simp: wf_label_table_def dest: unique_key_inj)
  have free: "l_name_norm r' \<noteq> labels_normalize new" if "r' \<in> set (tbl_labels c)" "l_id r' \<noteq> l_id r" for r'
    using by_name_row [OF inv that(1)] ok that(2) by fastforce
  have notres: "labels_normalize new \<notin> reserved_norms"
  proof
    assume a: "labels_normalize new \<in> reserved_norms"
    then obtain r' where r': "r' \<in> set (tbl_labels c)" "l_name_norm r' = labels_normalize new"
      using tab by (auto simp: wf_label_table_def)
    with free have "l_id r' = l_id r" by blast
    with same r' have "r' = r" by blast
    with a r' tab r sys show False by (auto simp: wf_label_table_def wf_label_row_def)
  qed
  have "labels_inv (c\<lparr>tbl_labels := update_where (\<lambda>x. l_id x = l_id r)
          (\<lambda>x. x\<lparr>l_name := trim new, l_name_norm := labels_normalize new\<rparr>) (tbl_labels c)\<rparr>)"
    using same sys ne notres free
    by (intro labels_inv_update [OF inv]) (auto simp: wf_label_row_def)
  then show ?thesis
    using False by (auto simp: rename_ext_def Let_def split: option.splits)
qed

lemma set_color_ext_inv: "labels_inv c \<Longrightarrow> labels_inv (set_color_ext l color sy c)"
proof -
  assume inv: "labels_inv c"
  then have tab: "\<And>r. r \<in> set (tbl_labels c) \<Longrightarrow> wf_label_row r" "unique_key l_name_norm (tbl_labels c)"
    by (simp_all add: labels_inv_def wf_label_table_def)
  show ?thesis
    unfolding set_color_ext_def labels_inv_queue
  proof (rule labels_inv_update [OF inv])
    fix r assume "r \<in> set (tbl_labels c)" "l_id r = lab_id l"
    with tab(1) [of r] show "l_id (r\<lparr>l_color := color\<rparr>) = lab_id l \<and> wf_label_row (r\<lparr>l_color := color\<rparr>) \<and>
        l_system (r\<lparr>l_color := color\<rparr>) = l_system r \<and>
        (l_system r \<longrightarrow> l_name_norm (r\<lparr>l_color := color\<rparr>) = l_name_norm r)"
      by (simp add: wf_label_row_def)
  next
    fix r r' assume "r \<in> set (tbl_labels c)" "r' \<in> set (tbl_labels c)" "l_id r = lab_id l" "l_id r' \<noteq> lab_id l"
    then show "l_name_norm r' \<noteq> l_name_norm (r\<lparr>l_color := color\<rparr>)"
      using unique_key_inj [OF tab(2), of r r'] by auto
  qed
qed

lemma delete_ext_inv:
  assumes inv: "labels_inv c" and r: "r \<in> set (tbl_labels c)"
  shows "labels_inv (snd (delete_ext (row_to_label r) sy c))"
proof (cases "l_system r")
  case True
  then show ?thesis using inv by (simp add: delete_ext_def)
next
  case False
  let ?t = "delete_where (\<lambda>x. l_id x = l_id r) (tbl_labels c)"
  have tab: "wf_label_table (tbl_labels c) (labels_seq c)" using inv by (simp add: labels_inv_def)
  have "reserved_norms \<subseteq> l_name_norm ` set ?t"
  proof
    fix n assume n: "n \<in> reserved_norms"
    with tab obtain r' where r': "r' \<in> set (tbl_labels c)" "l_name_norm r' = n" "l_system r'"
      by (force simp: wf_label_table_def wf_label_row_def)
    with tab r False have "l_id r' \<noteq> l_id r"
      by (auto simp: wf_label_table_def dest: unique_key_inj)
    with r' show "n \<in> l_name_norm ` set ?t" by auto
  qed
  then have "wf_label_table ?t (labels_seq c)"
    using tab by (auto simp: wf_label_table_def)
  then show ?thesis
    using inv False
    by (auto simp: delete_ext_def Let_def labels_inv_def label_ids_def wf_label_refs_def)
      (auto simp: delete_where_def)
qed

subsection \<open>Labels on messages\<close>

lemma set_ext_inv: "labels_inv c \<Longrightarrow> lab_id l \<in> label_ids c \<Longrightarrow> labels_inv (set_ext ms l a sy c)"
  by (fastforce simp: labels_inv_def label_ids_def wf_label_refs_def distinct_set_label_rows
      set_label_rows_iff split: if_splits)

lemma with_label_inv:
  assumes "labels_inv c" "\<And>l. label_load c i = Ok l \<Longrightarrow> labels_inv (snd (f l c))"
  shows "labels_inv (snd (with_label i f c))"
  using assms by (auto simp: with_label_def split: result.splits)

lemma set_reserved_inv: "labels_inv c \<Longrightarrow> labels_inv (snd (set_reserved n ms a sy c))"
  by (auto simp: set_reserved_def reserved_def labels_inv_by_name set_ext_inv split: option.splits result.splits)

lemma park_keys:
  "unique_key (\<lambda>r. (p_rfc724_mid r, p_label_id r)) t \<Longrightarrow> unique_key (\<lambda>r. (p_rfc724_mid r, p_label_id r)) (park l a ts mid t)"
  "p_label_id ` set (park l a ts mid t) \<subseteq> insert l (p_label_id ` set t)"
  by (auto simp: park_def set_upsert intro!: unique_key_upsert split: if_splits)

lemma fold_park_keys:
  "unique_key (\<lambda>r. (p_rfc724_mid r, p_label_id r)) t \<Longrightarrow> unique_key (\<lambda>r. (p_rfc724_mid r, p_label_id r)) (fold (park l a ts) mids t)"
  "p_label_id ` set (fold (park l a ts) mids t) \<subseteq> insert l (p_label_id ` set t)"
proof (induction mids arbitrary: t)
  case (Cons mid mids)
  { case 1 with Cons.IH(1) park_keys(1) show ?case by simp }
  { case 2 from Cons.IH(2) [of "park l a ts mid t"] park_keys(2) [of l a ts mid t] show ?case by auto }
qed auto

lemma labels_inv_pending:
  "labels_inv c \<Longrightarrow> l \<in> label_ids c \<Longrightarrow>
     labels_inv (c\<lparr>tbl_pending_msg_labels := fold (park l a ts) mids (tbl_pending_msg_labels c)\<rparr>)"
  using fold_park_keys [where t = "tbl_pending_msg_labels c" and l = l and a = a and ts = ts and mids = mids]
  unfolding labels_inv_def label_ids_def wf_label_refs_def by (auto; blast)

lemma resolve_label_inv:
  assumes inv: "labels_inv c"
    and eq: "resolve_label n color c = (res, c')"
  shows "labels_inv c' \<and> tbl_msgs c' = tbl_msgs c \<and> tbl_msg_labels c' = tbl_msg_labels c \<and>
     tbl_pending_msg_labels c' = tbl_pending_msg_labels c \<and>
     (\<forall>l. res = Ok l \<longrightarrow> by_name c' n = Some l \<and> lab_id l \<in> label_ids c')"
proof (cases "by_name c n")
  case None
  with eq have "create_ext n color Nosync c = (res, c')" by (simp add: resolve_label_def)
  with create_ext_inv [OF inv this] create_ext_refs [OF this] show ?thesis
    by (cases "trim n = []") (auto simp: create_ext_def)
next
  case (Some l)
  with eq inv show ?thesis by (auto simp: resolve_label_def dest: labels_inv_by_name)
qed

lemma sync_set_inv: "labels_inv c \<Longrightarrow> labels_inv (snd (sync_set mids n a ts c))"
proof -
  assume inv: "labels_inv c"
  obtain res c1 where eq:
    "resolve_label n None c = (res, c1)"
    by fastforce
  note facts = resolve_label_inv [OF inv eq]
  show ?thesis
  proof (cases res)
    case (Ok l)
    with facts have l: "labels_inv c1" "lab_id l \<in> label_ids c1" by auto
    then have "labels_inv (set_ext (List.map_filter (rfc724_mid_exists c1) mids) l a Nosync c1)"
      by (rule set_ext_inv)
    from labels_inv_pending [OF this, of "lab_id l"] l(2) show ?thesis
      by (simp add: sync_set_def eq Ok Let_def label_ids_def)
  next
    case (Err e)
    with facts show ?thesis by (simp add: sync_set_def eq)
  qed
qed

lemma snd_unit_of [simp]: "snd (unit_of p) = snd p"
  by (auto simp: unit_of_def split: prod.splits result.splits)

lemma create_ext_inv_snd: "labels_inv c \<Longrightarrow> labels_inv (snd (create_ext n color sy c))"
  using create_ext_inv(1) [of c n color sy] by (metis prod.collapse)

lemma execute_sync_item_inv: "labels_inv c \<Longrightarrow> labels_inv (snd (execute_sync_item i ts c))"
proof (cases i)
  case (LSetColor n color)
  assume inv: "labels_inv c"
  obtain res c1 where eq:
    "resolve_label n color c = (res, c1)"
    by fastforce
  from resolve_label_inv [OF inv eq] show ?thesis
    by (cases res) (auto simp: LSetColor eq set_color_ext_inv)
qed (auto simp: create_ext_inv_snd sync_set_inv rename_ext_inv delete_ext_inv split: option.splits
    dest!: by_name_Some)

lemma set_label_row_snd:
  "\<forall>x \<in> set t. snd x \<in> ids \<Longrightarrow> l \<in> ids \<Longrightarrow> \<forall>x \<in> set (set_label_row a l m t). snd x \<in> ids"
  by (simp add: set_label_row_def set_insert_or_ignore)

lemma drain_rows:
  assumes "distinct t" "\<forall>x \<in> set t. snd x \<in> ids" "\<forall>p \<in> set ps. p_label_id p \<in> ids"
  shows "distinct (fold (\<lambda>p. set_label_row (p_apply p) (p_label_id p) m) ps t) \<and>
    (\<forall>x \<in> set (fold (\<lambda>p. set_label_row (p_apply p) (p_label_id p) m) ps t). snd x \<in> ids)"
  using assms
proof (induction ps arbitrary: t)
  case (Cons p ps)
  have "p_label_id p \<in> ids" "\<forall>q \<in> set ps. p_label_id q \<in> ids" using Cons.prems(3) by simp_all
  with Cons.IH [OF distinct_set_label_row set_label_row_snd, of t] Cons.prems show ?case by simp
qed simp

lemma drain_pending_inv: "labels_inv c \<Longrightarrow> labels_inv (drain_pending m c)"
proof (cases "find_msg c m")
  case (Some r)
  assume inv: "labels_inv c"
  let ?ps = "filter (\<lambda>p. p_rfc724_mid p = mid_of r) (tbl_pending_msg_labels c)"
  have refs: "distinct (tbl_msg_labels c)" "unique_key (\<lambda>r. (p_rfc724_mid r, p_label_id r)) (tbl_pending_msg_labels c)"
    "\<forall>x \<in> set (tbl_msg_labels c). snd x \<in> label_ids c" "\<forall>p \<in> set (tbl_pending_msg_labels c). p_label_id p \<in> label_ids c"
    using inv by (simp_all add: labels_inv_def wf_label_refs_def)
  from drain_rows [OF refs(1,3), of ?ps m] refs
  have "wf_label_refs (label_ids c) (fold (\<lambda>p. set_label_row (p_apply p) (p_label_id p) m) ?ps (tbl_msg_labels c))
      (delete_where (\<lambda>p. p_rfc724_mid p = mid_of r) (tbl_pending_msg_labels c))"
    by (simp add: wf_label_refs_def)
  with inv show ?thesis
    by (simp add: drain_pending_def Let_def Some labels_inv_def label_ids_def)
qed (simp add: drain_pending_def)

lemma labels_prune_inv: "labels_inv c \<Longrightarrow> labels_inv (labels_prune c)"
  by (auto simp: labels_prune_def labels_inv_def label_ids_def wf_label_refs_def)
    (simp add: delete_where_def)

subsection \<open>Everything that can happen to the labels\<close>

text \<open>
  The operations of the module in any order, interleaved with anything that leaves the label
  tables alone (mail arriving, configuration, the other components).
\<close>

inductive label_step :: "ctx \<Rightarrow> ctx \<Rightarrow> bool" where
  created: "label_step c (snd (create n color c))"
| renamed: "label_step c (snd (rename i n c))"
| coloured: "label_step c (snd (set_color i color c))"
| deleted: "label_step c (snd (labels_delete i c))"
| applied: "label_step c (snd (labels_apply ms i c))"
| unapplied: "label_step c (snd (labels_unapply ms i c))"
| archived: "label_step c (snd (archive ms c))"
| unarchived: "label_step c (snd (unarchive ms c))"
| synced: "label_step c (snd (execute_sync_item item ts c))"
| drained: "label_step c (drain_pending m c)"
| pruned: "label_step c (labels_prune c)"
| other: "tbl_labels c' = tbl_labels c \<Longrightarrow> labels_seq c' = labels_seq c \<Longrightarrow>
    tbl_msg_labels c' = tbl_msg_labels c \<Longrightarrow> tbl_pending_msg_labels c' = tbl_pending_msg_labels c \<Longrightarrow>
    label_step c c'"

inductive_cases label_stepE: "label_step c c'"

lemma label_step_inv: "label_step c c' \<Longrightarrow> labels_inv c \<Longrightarrow> labels_inv c'"
proof (induction rule: label_step.induct)
  case (created c n color)
  then show ?case by (simp add: create_def create_ext_inv_snd)
next
  case (renamed c i n)
  then show ?case unfolding rename_def
    by (auto intro!: with_label_inv rename_ext_inv dest!: label_load_Ok)
next
  case (coloured c i color)
  then show ?case unfolding set_color_def
    by (auto intro!: with_label_inv set_color_ext_inv)
next
  case (deleted c i)
  then show ?case unfolding labels_delete_def
    by (auto intro!: with_label_inv delete_ext_inv dest!: label_load_Ok)
next
  case (applied c ms i)
  then show ?case unfolding labels_apply_def
    by (auto intro!: with_label_inv set_ext_inv dest!: label_load_Ok simp: label_ids_def)
next
  case (unapplied c ms i)
  then show ?case unfolding labels_unapply_def
    by (auto intro!: with_label_inv set_ext_inv dest!: label_load_Ok simp: label_ids_def)
next
  case (archived c ms)
  then show ?case by (simp add: archive_def set_reserved_inv)
next
  case (unarchived c ms)
  then show ?case by (simp add: unarchive_def set_reserved_inv)
next
  case (other c' c)
  then show ?case by (auto intro: labels_inv_frame)
qed (simp_all add: execute_sync_item_inv drain_pending_inv labels_prune_inv)

lemma labels_inv_fresh: "labels_inv fresh_db"
proof -
  have "wf_label_table (tbl_labels fresh_db) (labels_seq fresh_db)"
    unfolding wf_label_table_def reserved_norms_eq wf_label_row_def unique_key_def by code_simp
  then show ?thesis
    by (simp add: labels_inv_def wf_label_refs_def) (simp add: fresh_db_def)
qed

lemma label_steps_inv: "label_step\<^sup>*\<^sup>* fresh_db c \<Longrightarrow> labels_inv c"
  by (induction rule: rtranclp_induct) (auto simp: labels_inv_fresh dest: label_step_inv)

section \<open>Properties\<close>

subsection \<open>The reserved labels\<close>

text \<open>A row that keeps its id, its name and its system flag.\<close>

definition keeps_row :: "label_row \<Rightarrow> ctx \<Rightarrow> bool" where
  "keeps_row r c \<longleftrightarrow> (\<exists>r' \<in> set (tbl_labels c). l_id r' = l_id r \<and> l_name r' = l_name r \<and>
     l_name_norm r' = l_name_norm r \<and> l_system r' = l_system r)"

lemma keeps_row_self: "r \<in> set (tbl_labels c) \<Longrightarrow> keeps_row r c"
  by (auto simp: keeps_row_def)

lemma create_ext_rows: "create_ext n color sy c = (res, c') \<Longrightarrow> set (tbl_labels c) \<subseteq> set (tbl_labels c')"
  by (erule create_ext_cases) (auto simp: insert_label_def)

lemma keeps_row_create: "r \<in> set (tbl_labels c) \<Longrightarrow> keeps_row r (snd (create_ext n color sy c))"
  using create_ext_rows [of n color sy c] by (metis keeps_row_self prod.collapse subset_iff)

lemma keeps_row_update:
  assumes "r \<in> set (tbl_labels c)" "l_id r = i \<Longrightarrow> l_id (f r) = l_id r \<and> l_name (f r) = l_name r \<and>
     l_name_norm (f r) = l_name_norm r \<and> l_system (f r) = l_system r"
  shows "keeps_row r (c\<lparr>tbl_labels := update_where (\<lambda>x. l_id x = i) f (tbl_labels c)\<rparr>)"
  unfolding keeps_row_def using assms
  by (intro bexI [of _ "if l_id r = i then f r else r"]) auto

lemma keeps_row_queue [simp]: "keeps_row r (queue_label_item sy i c) = keeps_row r c"
  by (simp add: keeps_row_def)

lemma keeps_row_set_ext [simp]: "keeps_row r (set_ext ms l a sy c) = keeps_row r c"
  by (simp add: keeps_row_def)

lemma keeps_row_set_color: "r \<in> set (tbl_labels c) \<Longrightarrow> keeps_row r (set_color_ext l color sy c)"
  unfolding set_color_ext_def keeps_row_queue by (rule keeps_row_update) auto

lemma system_row_other:
  "labels_inv c \<Longrightarrow> r \<in> set (tbl_labels c) \<Longrightarrow> l_system r \<Longrightarrow> r' \<in> set (tbl_labels c) \<Longrightarrow> \<not> l_system r' \<Longrightarrow> l_id r \<noteq> l_id r'"
  by (auto simp: labels_inv_def wf_label_table_def dest: unique_key_inj)

lemma keeps_row_rename:
  assumes "labels_inv c" "r \<in> set (tbl_labels c)" "l_system r" "r' \<in> set (tbl_labels c)"
  shows "keeps_row r (snd (rename_ext (row_to_label r') new sy c))"
  using assms system_row_other [OF assms(1-4)]
  by (auto simp: rename_ext_def Let_def keeps_row_self intro!: keeps_row_update)

lemma keeps_row_delete:
  assumes "labels_inv c" "r \<in> set (tbl_labels c)" "l_system r" "r' \<in> set (tbl_labels c)"
  shows "keeps_row r (snd (delete_ext (row_to_label r') sy c))"
  using assms system_row_other [OF assms(1-4)]
  by (auto simp: delete_ext_def Let_def keeps_row_def)

lemma keeps_row_with_label:
  assumes "r \<in> set (tbl_labels c)" "\<And>r'. r' \<in> set (tbl_labels c) \<Longrightarrow> keeps_row r (snd (f (row_to_label r') c))"
  shows "keeps_row r (snd (with_label i f c))"
  using assms by (auto simp: with_label_def keeps_row_self split: result.splits dest!: label_load_Ok)

lemma keeps_row_sync_set: "r \<in> set (tbl_labels c) \<Longrightarrow> keeps_row r (snd (sync_set mids n a ts c))"
  using keeps_row_create [of r c n None Nosync]
  by (auto simp: sync_set_def resolve_label_def Let_def keeps_row_def split: option.splits prod.splits result.splits)

lemma keeps_row_execute:
  assumes "labels_inv c" "r \<in> set (tbl_labels c)" "l_system r"
  shows "keeps_row r (snd (execute_sync_item i ts c))"
proof (cases i)
  case (LSetColor n color)
  obtain res c1 where eq:
    "resolve_label n color c = (res, c1)"
    by fastforce
  then have "r \<in> set (tbl_labels c1)"
    using assms(2) create_ext_rows [of n color Nosync c res c1]
    by (auto simp: resolve_label_def split: option.splits)
  then show ?thesis
    by (cases res) (simp_all add: LSetColor eq keeps_row_set_color keeps_row_self)
qed (use assms in \<open>auto simp: keeps_row_create keeps_row_sync_set keeps_row_self split: option.splits
    dest!: by_name_Some intro: keeps_row_rename keeps_row_delete\<close>)

lemma keeps_row_step:
  assumes "label_step c c'" "labels_inv c" "r \<in> set (tbl_labels c)" "l_system r"
  shows "keeps_row r c'"
  using assms
proof (induction rule: label_step.induct)
  case (created c n color)
  then show ?case by (simp add: create_def keeps_row_create)
next
  case (renamed c i n)
  then show ?case unfolding rename_def by (intro keeps_row_with_label keeps_row_rename)
next
  case (coloured c i color)
  then show ?case unfolding set_color_def by (intro keeps_row_with_label) (simp_all add: keeps_row_set_color)
next
  case (deleted c i)
  then show ?case unfolding labels_delete_def by (intro keeps_row_with_label keeps_row_delete)
next
  case (synced c item ts)
  then show ?case by (simp add: keeps_row_execute)
next
  case (applied c ms i)
  then show ?case unfolding labels_apply_def by (intro keeps_row_with_label) (simp_all add: keeps_row_self)
next
  case (unapplied c ms i)
  then show ?case unfolding labels_unapply_def by (intro keeps_row_with_label) (simp_all add: keeps_row_self)
qed (auto simp: archive_def unarchive_def set_reserved_def drain_pending_def labels_prune_def Let_def
    keeps_row_def split: option.splits result.splits)

text \<open>C2: Whatever sequence of label operations, synced changes, drains and prunes an account goes
  through from its migrated database, label names stay unique case-insensitively, no label row of
  a message dangles, ids are not reused, and the reserved labels are exactly the system labels and
  can be looked up.\<close>

theorem labels_reachable_inv:
  assumes "label_step\<^sup>*\<^sup>* fresh_db c"
  shows "labels_inv c \<and> (\<forall>n \<in> set RESERVED. \<exists>l. reserved c n = Ok l \<and> lab_is_system l)"
proof -
  have inv: "labels_inv c" using assms by (rule label_steps_inv)
  have "\<exists>l. reserved c n = Ok l \<and> lab_is_system l" if n: "n \<in> set RESERVED" for n
  proof -
    obtain l where l: "reserved c n = Ok l" "by_name c n = Some l" using reserved_Ok [OF inv n] by blast
    then obtain r where "r \<in> set (tbl_labels c)" "l = row_to_label r" "l_name_norm r = labels_normalize n"
      using by_name_Some by blast
    with inv n l(1) show ?thesis
      by (auto simp: labels_inv_def wf_label_table_def wf_label_row_def reserved_norms_def)
  qed
  with inv show ?thesis by blast
qed

theorem labels_reachable_inv_witness:
  "let c = snd (labels_delete 1 (snd (create ''Work'' None fresh_db)))
   in labels_inv c \<and> (\<forall>n \<in> set RESERVED. \<exists>l. reserved c n = Ok l \<and> lab_is_system l)"
proof -
  have "label_step\<^sup>*\<^sup>* fresh_db (snd (labels_delete 1 (snd (create ''Work'' None fresh_db))))"
    by (rule rtranclp_trans [of label_step]) (rule r_into_rtranclp, rule created deleted)+
  then show ?thesis unfolding Let_def by (rule labels_reachable_inv)
qed

text \<open>C3: No label operation, made here or replayed from another device, deletes a system label,
  renames it or clears its system flag.\<close>

theorem system_labels_kept:
  assumes "label_step\<^sup>*\<^sup>* fresh_db c" "label_step c c'" "r \<in> set (tbl_labels c)" "l_system r"
  shows "\<exists>r' \<in> set (tbl_labels c'). l_id r' = l_id r \<and> l_name r' = l_name r \<and> l_system r'"
  using keeps_row_step [OF assms(2) label_steps_inv [OF assms(1)] assms(3,4)] assms(4)
  by (auto simp: keeps_row_def)

theorem system_labels_kept_witness:
  "\<exists>r' \<in> set (tbl_labels (snd (execute_sync_item (LDelete ''trash'') 7 fresh_db))). l_id r' = 2 \<and> l_name r' = ''Trash'' \<and> l_system r'"
proof -
  let ?r = "\<lparr>l_id = 2, l_name = ''Trash'', l_name_norm = ''trash'', l_color = None, l_system = True, l_created = 0\<rparr>"
  have "?r \<in> set (tbl_labels fresh_db)" by (simp add: fresh_db_def initial_labels_def)
  from system_labels_kept [OF rtranclp.rtrancl_refl synced this, of "LDelete ''trash''" 7] show ?thesis by simp
qed

text \<open>Replaying a label change from another device queues no sync item of its own, so two
  devices cannot echo each other.\<close>

lemma execute_sync_item_silent:
  "tbl_multi_device_sync (snd (execute_sync_item i ts c)) = tbl_multi_device_sync c"
proof -
  have create: "tbl_multi_device_sync (snd (create_ext n color Nosync c)) = tbl_multi_device_sync c" for n color c
    by (simp add: create_ext_def Let_def insert_label_def split: option.splits)
  have resolve: "tbl_multi_device_sync (snd (resolve_label n color c)) = tbl_multi_device_sync c" for n color c
    by (simp add: resolve_label_def create split: option.splits)
  have sync: "tbl_multi_device_sync (snd (sync_set mids n a ts c)) = tbl_multi_device_sync c" for mids n a
    using resolve [of n None c]
    by (auto simp: sync_set_def set_ext_Nosync Let_def split: prod.splits result.splits)
  show ?thesis
    using resolve
    by (cases i) (auto simp: create sync rename_ext_def delete_ext_def set_color_ext_def Let_def
        split: option.splits prod.splits result.splits, (metis snd_conv)+)
qed

text \<open>Creating a label is idempotent up to case and surrounding white space: a second creation
  under a name that normalises alike returns the label of the first and changes nothing.\<close>

lemma create_idempotent:
  assumes "create n color c = (Ok l, c')" "labels_normalize n' = labels_normalize n"
  shows "create n' color' c' = (Ok l, c')"
proof -
  have eq: "create_ext n color Sync c = (Ok l, c')" using assms(1) by (simp add: create_def)
  then have "trim n \<noteq> []" "by_name c' n = Some l"
    by (auto elim: create_ext_cases split: option.splits)
  moreover have "trim n' = [] \<longleftrightarrow> trim n = []"
    using assms(2) to_lowercase_Nil_iff [of "trim n"] to_lowercase_Nil_iff [of "trim n'"]
    by (simp add: labels_normalize_def)
  moreover have "by_name c' n' = by_name c' n" using assms(2) by (simp add: by_name_def)
  ultimately show ?thesis by (simp add: create_def create_ext_def Let_def)
qed

end
