(* ===== verification/Label_Sync.thy ===== *)
theory Label_Sync
  imports Labels
begin

text \<open>
  Label changes from another device reach this one independently of the messages they name. This
  theory relates the two orders: the changes applied to a message that is already here, and the
  same changes parked and drained when the message arrives.
\<close>

section \<open>The parked change of a message and a label\<close>

definition parked :: "ctx \<Rightarrow> string \<Rightarrow> label_id \<Rightarrow> pending_row option" where
  "parked c mid l =
    List.find (\<lambda>p. p_rfc724_mid p = mid \<and> p_label_id p = l) (tbl_pending_msg_labels c)"

lemma find_park:
  "List.find (\<lambda>p. p_rfc724_mid p = mid' \<and> p_label_id p = l') (park l a ts mid t) =
    (let old = List.find (\<lambda>p. p_rfc724_mid p = mid' \<and> p_label_id p = l') t in
     if mid' = mid \<and> l' = l then
       Some (case old of
           None \<Rightarrow> \<lparr>p_rfc724_mid = mid, p_label_id = l, p_apply = a, p_timestamp = ts\<rparr>
         | Some q \<Rightarrow> if ts \<ge> p_timestamp q then q\<lparr>p_apply := a, p_timestamp := ts\<rparr> else q)
     else old)"
  unfolding park_def
  using find_upsert [where key = "\<lambda>r. (p_rfc724_mid r, p_label_id r)" and k = "(mid', l')" and t = t
    and f = "\<lambda>old. if ts \<ge> p_timestamp old then old\<lparr>p_apply := a, p_timestamp := ts\<rparr> else old"
    and r = "\<lparr>p_rfc724_mid = mid, p_label_id = l, p_apply = a, p_timestamp = ts\<rparr>"]
  by (simp add: Let_def)

lemma parked_park:
  "parked (c\<lparr>tbl_pending_msg_labels := park l a ts mid (tbl_pending_msg_labels c)\<rparr>) mid' l' =
    (if mid' = mid \<and> l' = l then
       Some (case parked c mid' l' of
           None \<Rightarrow> \<lparr>p_rfc724_mid = mid, p_label_id = l, p_apply = a, p_timestamp = ts\<rparr>
         | Some q \<Rightarrow> if ts \<ge> p_timestamp q then q\<lparr>p_apply := a, p_timestamp := ts\<rparr> else q)
     else parked c mid' l')"
  by (simp add: parked_def find_park Let_def)

lemma delete_park: "delete_where (\<lambda>p. p_rfc724_mid p = mid) (park l a ts mid t) = delete_where (\<lambda>p. p_rfc724_mid p = mid) t"
proof -
  have "filter (\<lambda>p. p_rfc724_mid p \<noteq> mid)
      (map (\<lambda>x. if (p_rfc724_mid x, p_label_id x) = (mid, l)
          then if p_timestamp x \<le> ts then x\<lparr>p_apply := a, p_timestamp := ts\<rparr> else x else x) t) =
     filter (\<lambda>p. p_rfc724_mid p \<noteq> mid) t"
    by (induction t) auto
  then show ?thesis by (simp add: park_def upsert_def delete_where_def)
qed

text \<open>Changes to one message parked one after the other: the newest timestamp decides, in whatever
  order they arrive; among equal timestamps the last to arrive.\<close>

definition park_all :: "label_id \<Rightarrow> string \<Rightarrow> (int \<times> bool) list \<Rightarrow> pending_row list \<Rightarrow> pending_row list" where
  "park_all l mid xs t = fold (\<lambda>(ts, a). park l a ts mid) xs t"

lemma park_all_snoc: "park_all l mid (xs @ [(ts, a)]) t = park l a ts mid (park_all l mid xs t)"
  by (simp add: park_all_def)

lemma park_all_newest:
  assumes "xs \<noteq> []" "List.find (\<lambda>p. p_rfc724_mid p = mid \<and> p_label_id p = l) t = None"
  shows "\<exists>q. List.find (\<lambda>p. p_rfc724_mid p = mid \<and> p_label_id p = l) (park_all l mid xs t) = Some q \<and>
    p_timestamp q = Max (fst ` set xs) \<and> (p_timestamp q, p_apply q) \<in> set xs"
  using assms(1)
proof (induction xs rule: rev_induct)
  case (snoc x xs)
  obtain ts a where x: "x = (ts, a)" by (cases x)
  show ?case
  proof (cases "xs = []")
    case True
    then show ?thesis using assms(2) by (simp add: x park_all_def find_park)
  next
    case False
    with snoc obtain q where q: "List.find (\<lambda>p. p_rfc724_mid p = mid \<and> p_label_id p = l) (park_all l mid xs t) = Some q"
      "p_timestamp q = Max (fst ` set xs)" "(p_timestamp q, p_apply q) \<in> set xs" by auto
    have "Max (fst ` set (xs @ [x])) = max ts (Max (fst ` set xs))"
      using False by (simp add: x)
    with q show ?thesis by (auto simp: x park_all_snoc find_park)
  qed
qed simp

section \<open>Arrival of the message\<close>

text \<open>The insertion of a received message's row.\<close>

definition arrive :: "msg_row \<Rightarrow> ctx \<Rightarrow> ctx" where
  "arrive r c = c\<lparr>tbl_msgs := tbl_msgs c @ [r]\<rparr>"

lemma arrive_frame [simp]:
  "tbl_msgs (arrive r c) = tbl_msgs c @ [r]" "tbl_labels (arrive r c) = tbl_labels c"
  "labels_seq (arrive r c) = labels_seq c" "clock (arrive r c) = clock c"
  "tbl_msg_labels (arrive r c) = tbl_msg_labels c"
  "tbl_pending_msg_labels (arrive r c) = tbl_pending_msg_labels c"
  by (simp_all add: arrive_def)

text \<open>A change of one label on one message, as it comes over the wire, and a sequence of them.\<close>

definition change_item :: "string \<Rightarrow> bool \<times> string \<Rightarrow> label_sync_item" where
  "change_item mid ch = (if fst ch then LApply [mid] (snd ch) else LUnapply [mid] (snd ch))"

definition run_changes :: "string \<Rightarrow> (int \<times> bool \<times> string) list \<Rightarrow> ctx \<Rightarrow> ctx" where
  "run_changes mid xs c = fold (\<lambda>(ts, ch) c. snd (execute_sync_item (change_item mid ch) ts c)) xs c"

lemma execute_change: "execute_sync_item (change_item mid ch) ts c = sync_set [mid] (snd ch) (fst ch) ts c"
  by (simp add: change_item_def)

text \<open>What the label lookup or creation of a sync item depends on, and what it leaves alone.\<close>

lemma resolve_label_cong:
  assumes "tbl_labels d = tbl_labels p" "labels_seq d = labels_seq p" "clock d = clock p"
  shows "fst (resolve_label n color d) = fst (resolve_label n color p)"
    "tbl_labels (snd (resolve_label n color d)) = tbl_labels (snd (resolve_label n color p))"
    "labels_seq (snd (resolve_label n color d)) = labels_seq (snd (resolve_label n color p))"
  using assms
  by (simp_all add: resolve_label_def create_ext_def insert_label_def by_name_def Let_def split: option.splits)

lemma resolve_label_frame:
  "tbl_msgs (snd (resolve_label n color c)) = tbl_msgs c"
  "clock (snd (resolve_label n color c)) = clock c"
  "tbl_msg_labels (snd (resolve_label n color c)) = tbl_msg_labels c"
  "tbl_pending_msg_labels (snd (resolve_label n color c)) = tbl_pending_msg_labels c"
  by (simp_all add: resolve_label_def create_ext_def insert_label_def Let_def split: option.splits)

text \<open>The changes that count while the message is missing: a change is dropped if one to the same label with a
  newer timestamp came before it. \<open>S\<close> has the newest timestamp so far of each label, by its normalised name.\<close>

fun effective_changes :: "(string \<rightharpoonup> int) \<Rightarrow> (int \<times> bool \<times> string) list \<Rightarrow> (int \<times> bool \<times> string) list" where
  "effective_changes S [] = []"
| "effective_changes S ((ts, a, n) # xs) =
    (if (case S (labels_normalize n) of Some t \<Rightarrow> ts < t | None \<Rightarrow> False) then effective_changes S xs
     else (ts, a, n) # effective_changes (S(labels_normalize n \<mapsto> ts)) xs)"

lemma effective_changes_sorted:
  "sorted (map fst xs) \<Longrightarrow> (\<forall>x \<in> set xs. \<forall>t \<in> ran S. t \<le> fst x) \<Longrightarrow> effective_changes S xs = xs"
proof (induction S xs rule: effective_changes.induct)
  case (2 S ts a n xs)
  have "\<not> (case S (labels_normalize n) of Some t \<Rightarrow> ts < t | None \<Rightarrow> False)"
    using 2(4) by (auto simp: ran_def split: option.split)
  moreover have "\<forall>x \<in> set xs. \<forall>t \<in> ran (S(labels_normalize n \<mapsto> ts)). t \<le> fst x"
    using 2(3,4) by (fastforce simp: ran_def split: if_splits)
  moreover have "sorted (map fst xs)" using 2(3) by simp
  ultimately show ?case using 2(2) by (simp del: fun_upd_apply)
qed simp

text \<open>\<open>S\<close> has the timestamps of the parked changes.\<close>

definition stamped :: "(string \<rightharpoonup> int) \<Rightarrow> string \<Rightarrow> ctx \<Rightarrow> bool" where
  "stamped S mid p \<longleftrightarrow>
     (\<forall>x \<in> set (tbl_labels p). map_option p_timestamp (parked p mid (l_id x)) = S (l_name_norm x)) \<and>
     dom S \<subseteq> insert [] (l_name_norm ` set (tbl_labels p))"

lemma stamped_by_name: "stamped S mid p \<Longrightarrow> by_name p n = Some l \<Longrightarrow> map_option p_timestamp (parked p mid (lab_id l)) = S (labels_normalize n)"
  by (auto simp: stamped_def dest!: by_name_Some)

lemma stamped_resolve:
  assumes inv: "labels_inv p" and s: "stamped S mid p" and r: "resolve_label n None p = (res, p1)"
  shows "stamped S mid p1"
proof (cases "by_name p n")
  case (Some l)
  then show ?thesis using s r by (simp add: resolve_label_def)
next
  case None
  then have "create_ext n None Nosync p = (res, p1)" using r by (simp add: resolve_label_def)
  then show ?thesis
  proof (cases rule: create_ext_cases)
    case new
    have no: "labels_normalize n \<notin> l_name_norm ` set (tbl_labels p)" using new(2) by (simp add: by_name_None)
    moreover have "labels_normalize n \<noteq> []" using new(1) by (simp add: labels_normalize_def to_lowercase_def)
    ultimately have "S (labels_normalize n) = None" using s by (auto simp: stamped_def)
    moreover have "parked p mid (Suc (labels_seq p)) = None"
    proof -
      have "p_label_id q \<in> l_id ` set (tbl_labels p)" if "q \<in> set (tbl_pending_msg_labels p)" for q
        using inv that by (simp add: labels_inv_def wf_label_refs_def label_ids_def)
      moreover have "l_id x \<le> labels_seq p" if "x \<in> set (tbl_labels p)" for x
        using inv that by (simp add: labels_inv_def wf_label_table_def)
      ultimately show ?thesis by (fastforce simp: parked_def find_None_set)
    qed
    moreover have "\<not> list_ex (\<lambda>r. l_name_norm r = labels_normalize n) (tbl_labels p)" using new(2) by (auto simp: by_name_def find_None_iff list_ex_iff)
    then obtain x where "tbl_labels p1 = tbl_labels p @ [x]" "l_id x = Suc (labels_seq p)" "l_name_norm x = labels_normalize n"
      by (simp add: new(3) insert_label_def)
    moreover have "parked p1 mid = parked p mid" by (rule ext) (simp add: new(3) insert_label_def parked_def)
    ultimately show ?thesis using s unfolding stamped_def by auto
  qed (use s in simp_all)
qed

lemma stamped_park:
  assumes inv: "labels_inv p" and s: "stamped S mid p" and l: "by_name p n = Some l"
  shows "stamped (if (case S (labels_normalize n) of Some t \<Rightarrow> ts < t | None \<Rightarrow> False) then S else S(labels_normalize n \<mapsto> ts)) mid
    (p\<lparr>tbl_pending_msg_labels := park (lab_id l) a ts mid (tbl_pending_msg_labels p)\<rparr>)"
proof -
  obtain x where x: "x \<in> set (tbl_labels p)" "l = row_to_label x" "l_name_norm x = labels_normalize n" using by_name_Some [OF l] by auto
  have "l_id y = l_id x \<longleftrightarrow> l_name_norm y = l_name_norm x" if "y \<in> set (tbl_labels p)" for y
    using inv that x(1) by (auto simp: labels_inv_def wf_label_table_def dest: unique_key_inj)
  moreover have "map_option p_timestamp (parked p mid (l_id x)) = S (labels_normalize n)" using s x by (auto simp: stamped_def)
  moreover have "labels_normalize n \<in> l_name_norm ` set (tbl_labels p)" using x(1) unfolding x(3) [symmetric] by (rule imageI)
  ultimately show ?thesis using s x
    by (auto simp: stamped_def parked_park split: option.splits)
qed

text \<open>The two devices: \<open>d\<close> has the message, \<open>p\<close> still waits for it.\<close>

definition waits :: "msg_row \<Rightarrow> (string \<rightharpoonup> int) \<Rightarrow> ctx \<Rightarrow> ctx \<Rightarrow> bool" where
  "waits r S d p \<longleftrightarrow>
     tbl_labels d = tbl_labels p \<and> labels_seq d = labels_seq p \<and> clock d = clock p \<and>
     tbl_msgs d = tbl_msgs p @ [r] \<and> labels_inv p \<and>
     (\<forall>m l. (m, l) \<in> set (tbl_msg_labels d) \<longleftrightarrow>
        (if m = m_id r then (case parked p (mid_of r) l of Some q \<Rightarrow> p_apply q | None \<Rightarrow> (m, l) \<in> set (tbl_msg_labels p))
         else (m, l) \<in> set (tbl_msg_labels p))) \<and>
     tbl_pending_msg_labels d = delete_where (\<lambda>q. p_rfc724_mid q = mid_of r) (tbl_pending_msg_labels p) \<and>
     stamped S (mid_of r) p"

text \<open>A Message-ID as stored: not empty, without the angle brackets of the header.\<close>

definition bare_mid :: "string \<Rightarrow> bool" where
  "bare_mid mid \<longleftrightarrow> mid \<noteq> [] \<and> strip_brackets mid = mid"

lemma exists_waiting:
  assumes "bare_mid mid" "\<forall>x \<in> set (tbl_msgs c). \<not> mid_matches mid x"
  shows "rfc724_mid_exists c mid = None"
  using assms by (simp add: rfc724_mid_exists_None bare_mid_def)

lemma exists_arrived:
  assumes "bare_mid mid" "\<forall>x \<in> set t. \<not> mid_matches mid x" "mid_of r = mid" "tbl_msgs c = t @ [r]"
  shows "rfc724_mid_exists c mid = Some (m_id r)"
proof -
  have "mid_matches mid r"
    using assms(1,3) by (auto simp: mid_of_def mid_matches_def bare_mid_def split: option.splits)
  moreover have "filter (mid_matches mid) t = []" using assms(2) by (simp add: filter_empty_conv)
  ultimately show ?thesis
    using assms(1,4) by (simp add: rfc724_mid_exists_def rfc724_mid_exists_ext_def bare_mid_def)
qed

lemma waits_step:
  assumes w: "waits r S d p" and mid: "bare_mid (mid_of r)"
    and new: "\<forall>x \<in> set (tbl_msgs p). \<not> mid_matches (mid_of r) x"
    and ts: "\<not> (case S (labels_normalize n) of Some t \<Rightarrow> ts < t | None \<Rightarrow> False)"
  shows "waits r (S(labels_normalize n \<mapsto> ts)) (snd (sync_set [mid_of r] n a ts d)) (snd (sync_set [mid_of r] n a ts p))"
proof -
  have eqs: "tbl_labels d = tbl_labels p" "labels_seq d = labels_seq p" "clock d = clock p"
    and inv: "labels_inv p" and st: "stamped S (mid_of r) p" using w by (simp_all add: waits_def)
  obtain res d1 where rd: "resolve_label n None d = (res, d1)" by fastforce
  obtain res' p1 where rp': "resolve_label n None p = (res', p1)" by fastforce
  note cong = resolve_label_cong [OF eqs, of n None, unfolded rd rp', simplified]
  have rp: "resolve_label n None p = (res, p1)" using rp' cong(1) by simp
  note frd = resolve_label_frame [of n None d, unfolded rd, simplified]
    and frp = resolve_label_frame [of n None p, unfolded rp, simplified]
  have invp: "labels_inv p1" "\<And>l. res = Ok l \<Longrightarrow> by_name p1 n = Some l" using resolve_label_inv [OF inv rp] by simp_all
  have ep: "rfc724_mid_exists p1 (mid_of r) = None"
    using new by (intro exists_waiting [OF mid]) (simp add: frp)
  have ed: "rfc724_mid_exists d1 (mid_of r) = Some (m_id r)"
    using w by (intro exists_arrived [OF mid new]) (simp_all add: waits_def frd)
  have st1: "stamped S (mid_of r) p1" by (rule stamped_resolve [OF inv st rp])
  have base: "waits r S d1 p1"
    using w cong invp st1 by (simp add: waits_def frd frp parked_def cong: option.case_cong)
  show ?thesis
  proof (cases res)
    case (Err e)
    have "labels_normalize n = []" using rp Err inv create_ext_inv(2) [OF inv]
      by (fastforce simp: resolve_label_def labels_normalize_def to_lowercase_def split: option.splits)
    moreover have "\<forall>x \<in> set (tbl_labels p1). l_name_norm x \<noteq> []"
      using invp(1) by (auto simp: labels_inv_def wf_label_table_def wf_label_row_def labels_normalize_def to_lowercase_def)
    ultimately have "stamped (S(labels_normalize n \<mapsto> ts)) (mid_of r) p1" using st1 by (auto simp: stamped_def)
    moreover have "snd (sync_set [mid_of r] n a ts d) = d1" "snd (sync_set [mid_of r] n a ts p) = p1"
      using Err by (simp_all add: sync_set_def rd rp)
    ultimately show ?thesis using base by (simp add: waits_def)
  next
    case (Ok l)
    have d': "snd (sync_set [mid_of r] n a ts d) = d1\<lparr>tbl_msg_labels := set_label_row a (lab_id l) (m_id r) (tbl_msg_labels d1)\<rparr>"
      by (simp add: sync_set_def rd Ok ed set_ext_Nosync set_label_rows_def List.map_filter_def Let_def)
    have p': "snd (sync_set [mid_of r] n a ts p) = p1\<lparr>tbl_pending_msg_labels := park (lab_id l) a ts (mid_of r) (tbl_pending_msg_labels p1)\<rparr>"
      by (simp add: sync_set_def rp Ok ep List.map_filter_def Let_def set_ext_def)
    have "labels_inv (snd (sync_set [mid_of r] n a ts p))" using inv by (rule sync_set_inv)
    moreover have rows: "(m, k) \<in> set (tbl_msg_labels d1) \<longleftrightarrow>
        (if m = m_id r then (case parked p1 (mid_of r) k of Some q \<Rightarrow> p_apply q | None \<Rightarrow> (m, k) \<in> set (tbl_msg_labels p1))
         else (m, k) \<in> set (tbl_msg_labels p1))" for m k
      using base by (simp add: waits_def)
    moreover have old: "p_timestamp q \<le> ts" if "parked p1 (mid_of r) (lab_id l) = Some q" for q
      using stamped_by_name [OF st1 invp(2) [OF Ok]] that ts by (auto split: option.splits)
    moreover have "stamped (S(labels_normalize n \<mapsto> ts)) (mid_of r) (snd (sync_set [mid_of r] n a ts p))"
      using stamped_park [OF invp(1) st1 invp(2) [OF Ok], of ts a] ts unfolding p' by simp
    ultimately show ?thesis
      using base unfolding d' p' waits_def
      by (simp add: delete_park parked_park set_label_row_iff) (auto simp: old split: option.splits)
  qed
qed

text \<open>A change older than the parked one changes nothing.\<close>

lemma waits_stale:
  assumes w: "waits r S d p" and mid: "bare_mid (mid_of r)"
    and new: "\<forall>x \<in> set (tbl_msgs p). \<not> mid_matches (mid_of r) x"
    and t: "S (labels_normalize n) = Some t" "ts < t"
  shows "waits r S d (snd (sync_set [mid_of r] n a ts p))"
proof (cases "by_name p n")
  case None
  have inv: "labels_inv p" and st: "stamped S (mid_of r) p" using w by (simp_all add: waits_def)
  have "labels_normalize n = []" using st t(1) None by (auto simp: stamped_def by_name_None)
  then have "trim n = []" by (simp add: labels_normalize_def to_lowercase_def)
  then have "snd (sync_set [mid_of r] n a ts p) = p" by (simp add: sync_set_def resolve_label_def None create_ext_def)
  with w show ?thesis by simp
next
  case (Some l)
  have inv: "labels_inv p" and st: "stamped S (mid_of r) p" using w by (simp_all add: waits_def)
  obtain q where q: "parked p (mid_of r) (lab_id l) = Some q" "\<not> p_timestamp q \<le> ts" using stamped_by_name [OF st Some] t by auto
  have ep: "rfc724_mid_exists p (mid_of r) = None" by (rule exists_waiting [OF mid new])
  have p': "snd (sync_set [mid_of r] n a ts p) = p\<lparr>tbl_pending_msg_labels := park (lab_id l) a ts (mid_of r) (tbl_pending_msg_labels p)\<rparr>"
    by (simp add: sync_set_def resolve_label_def Some ep List.map_filter_def Let_def set_ext_def)
  have "parked (p\<lparr>tbl_pending_msg_labels := park (lab_id l) a ts (mid_of r) (tbl_pending_msg_labels p)\<rparr>) (mid_of r) = parked p (mid_of r)"
    by (rule ext) (simp add: parked_park q)
  moreover have "stamped S (mid_of r) (snd (sync_set [mid_of r] n a ts p))"
    using stamped_park [OF inv st Some, of ts a] t unfolding p' by simp
  moreover have "labels_inv (snd (sync_set [mid_of r] n a ts p))" using inv by (rule sync_set_inv)
  ultimately show ?thesis using w unfolding p' by (simp add: waits_def delete_park cong: option.case_cong)
qed

text \<open>Arrival and draining give the state the changes would have led to with the message present.\<close>

lemma drain_rows_iff:
  "distinct (map p_label_id ps) \<Longrightarrow>
    (m', l') \<in> set (fold (\<lambda>p. set_label_row (p_apply p) (p_label_id p) m) ps t) \<longleftrightarrow>
    (case List.find (\<lambda>p. p_label_id p = l') ps of
       Some p \<Rightarrow> if m' = m then p_apply p else (m', l') \<in> set t | None \<Rightarrow> (m', l') \<in> set t)"
proof (induction ps arbitrary: t)
  case (Cons p ps)
  then have "l' = p_label_id p \<Longrightarrow> List.find (\<lambda>p. p_label_id p = l') ps = None"
    by (simp add: find_None_key)
  with Cons show ?case by (auto simp: set_label_row_iff split: option.splits)
qed simp

lemma waits_drain:
  assumes w: "waits r S d p" and mid: "mid_of r \<noteq> []" and new: "m_id r \<notin> m_id ` set (tbl_msgs p)"
  shows "set (tbl_msg_labels (drain_pending (m_id r) (arrive r p))) = set (tbl_msg_labels d)"
    and "tbl_pending_msg_labels (drain_pending (m_id r) (arrive r p)) = tbl_pending_msg_labels d"
    and "tbl_labels (drain_pending (m_id r) (arrive r p)) = tbl_labels d"
proof -
  let ?ps = "filter (\<lambda>q. p_rfc724_mid q = mid_of r) (tbl_pending_msg_labels p)"
  have "List.find (\<lambda>x. m_id x = m_id r) (tbl_msgs p) = None"
    using new by (simp add: find_None_key)
  then have fm: "find_msg (arrive r p) (m_id r) = Some r"
    by (simp add: find_msg_def find_append)
  have uk: "unique_key (\<lambda>r. (p_rfc724_mid r, p_label_id r)) (tbl_pending_msg_labels p)"
    using w by (simp add: waits_def labels_inv_def wf_label_refs_def)
  have "distinct (map p_label_id ?ps)"
    using uk unfolding unique_key_def by (auto simp: distinct_map inj_on_def)
  moreover have "List.find (\<lambda>q. p_label_id q = l) ?ps = parked p (mid_of r) l" for l
    by (simp add: parked_def find_filter)
  ultimately have rows: "(m', l') \<in> set (fold (\<lambda>q. set_label_row (p_apply q) (p_label_id q) (m_id r)) ?ps (tbl_msg_labels p)) \<longleftrightarrow>
      (m', l') \<in> set (tbl_msg_labels d)" for m' l'
    using w by (auto simp: drain_rows_iff waits_def split: option.splits)
  have none: "?ps = [] \<Longrightarrow> delete_where (\<lambda>q. p_rfc724_mid q = mid_of r) (tbl_pending_msg_labels p) = tbl_pending_msg_labels p"
    by (auto simp: delete_where_def filter_empty_conv filter_id_conv)
  show "set (tbl_msg_labels (drain_pending (m_id r) (arrive r p))) = set (tbl_msg_labels d)"
    using rows mid by (auto simp: drain_pending_def fm Let_def)
  show "tbl_pending_msg_labels (drain_pending (m_id r) (arrive r p)) = tbl_pending_msg_labels d"
    using w none mid by (auto simp: drain_pending_def fm Let_def waits_def)
  show "tbl_labels (drain_pending (m_id r) (arrive r p)) = tbl_labels d"
    using w mid by (auto simp: drain_pending_def fm Let_def waits_def)
qed

section \<open>Properties\<close>

lemma sync_set_msgs: "tbl_msgs (snd (sync_set mids n a ts c)) = tbl_msgs c"
  using resolve_label_frame(1) [of n None c]
  by (auto simp: sync_set_def Let_def split: prod.splits result.splits)

lemma run_changes_Cons:
  "run_changes mid ((ts, ch) # xs) c = run_changes mid xs (snd (sync_set [mid] (snd ch) (fst ch) ts c))"
  by (simp add: run_changes_def execute_change)

lemma run_changes_msgs: "tbl_msgs (run_changes mid xs c) = tbl_msgs c"
proof (induction xs arbitrary: c)
  case (Cons x xs)
  then show ?case by (cases x) (simp add: run_changes_Cons sync_set_msgs)
qed (simp add: run_changes_def)

lemma waits_run:
  assumes "waits r S d p" "bare_mid (mid_of r)" "\<forall>x \<in> set (tbl_msgs p). \<not> mid_matches (mid_of r) x"
  shows "\<exists>S'. waits r S' (run_changes (mid_of r) (effective_changes S xs) d) (run_changes (mid_of r) xs p)"
  using assms
proof (induction S xs arbitrary: d p rule: effective_changes.induct)
  case (2 S ts a n xs)
  have new: "\<forall>x \<in> set (tbl_msgs (snd (sync_set [mid_of r] n a ts p))). \<not> mid_matches (mid_of r) x"
    using "2.prems"(3) by (simp add: sync_set_msgs)
  show ?case
  proof (cases "case S (labels_normalize n) of Some t \<Rightarrow> ts < t | None \<Rightarrow> False")
    case True
    then obtain t where "S (labels_normalize n) = Some t" "ts < t" by (auto split: option.splits)
    from waits_stale [OF "2.prems" this, of a] show ?thesis
      using "2.IH"(1) [OF True _ "2.prems"(2) new] True by (simp add: run_changes_Cons)
  next
    case False
    from waits_step [OF "2.prems" False, of a] show ?thesis
      using "2.IH"(2) [OF False _ "2.prems"(2) new] False by (simp add: run_changes_Cons del: fun_upd_apply)
  qed
qed (auto simp: run_changes_def)

lemma waits_start:
  assumes "labels_inv c" "\<forall>q \<in> set (tbl_pending_msg_labels c). p_rfc724_mid q \<noteq> mid_of r"
  shows "waits r Map.empty (arrive r c) c"
proof -
  have "parked c (mid_of r) l = None" for l
    using assms(2) by (auto simp: parked_def find_None_set)
  moreover have "delete_where (\<lambda>q. p_rfc724_mid q = mid_of r) (tbl_pending_msg_labels c) = tbl_pending_msg_labels c"
    using assms(2) by (simp add: delete_where_def filter_id_conv)
  ultimately show ?thesis using assms(1) by (simp add: waits_def stamped_def)
qed

text \<open>C1: Label changes that overtake the message they name. For any sequence of apply and unapply items for one
  message, in any order of arrival, a device that receives them first, the message afterwards and then
  drains has the same labels on every message, the same labels and the same parked changes as a device that had the
  message all along and received the same items without those that come after a newer one to the same label.
  So the two devices agree on the whole sequence if the items arrive in the order of their timestamps; otherwise
  they may not, since the device that has the message takes the items as they come, newer or older.\<close>

theorem parked_changes_converge:
  assumes "labels_inv c" "bare_mid (mid_of r)"
    and "m_id r \<notin> m_id ` set (tbl_msgs c)"
    and "\<forall>x \<in> set (tbl_msgs c). \<not> mid_matches (mid_of r) x"
    and "\<forall>q \<in> set (tbl_pending_msg_labels c). p_rfc724_mid q \<noteq> mid_of r"
  shows "let late = drain_pending (m_id r) (arrive r (run_changes (mid_of r) xs c));
             direct = run_changes (mid_of r) (effective_changes Map.empty xs) (arrive r c)
         in set (tbl_msg_labels late) = set (tbl_msg_labels direct) \<and>
            tbl_pending_msg_labels late = tbl_pending_msg_labels direct \<and>
            tbl_labels late = tbl_labels direct \<and>
            (sorted (map fst xs) \<longrightarrow> effective_changes Map.empty xs = xs)"
proof -
  obtain S where "waits r S (run_changes (mid_of r) (effective_changes Map.empty xs) (arrive r c)) (run_changes (mid_of r) xs c)"
    using waits_run [OF waits_start [OF assms(1,5)] assms(2,4)] by blast
  from waits_drain [OF this] assms(2,3) show ?thesis
    by (simp add: bare_mid_def Let_def run_changes_msgs effective_changes_sorted)
qed

definition sample_msg :: msg_row where
  "sample_msg = (default_msg 10)\<lparr>m_rfc724_mid := Some ''a@b'', m_chat_id := 10, m_state := InFresh\<rparr>"

lemma sample_msg_new:
  "m_id sample_msg = 10" "mid_of sample_msg = ''a@b''" "bare_mid (mid_of sample_msg)"
  "m_id sample_msg \<notin> m_id ` set (tbl_msgs fresh_db)" "\<forall>x \<in> set (tbl_msgs fresh_db). \<not> mid_matches (mid_of sample_msg) x"
  "\<forall>q \<in> set (tbl_pending_msg_labels fresh_db). p_rfc724_mid q \<noteq> mid_of sample_msg"
proof -
  show r: "m_id sample_msg = 10" "mid_of sample_msg = ''a@b''"
    by (simp_all add: sample_msg_def default_msg_def mid_of_def)
  show "bare_mid (mid_of sample_msg)" unfolding r bare_mid_def by code_simp
  show "m_id sample_msg \<notin> m_id ` set (tbl_msgs fresh_db)" "\<forall>x \<in> set (tbl_msgs fresh_db). \<not> mid_matches (mid_of sample_msg) x"
    "\<forall>q \<in> set (tbl_pending_msg_labels fresh_db). p_rfc724_mid q \<noteq> mid_of sample_msg"
    by (simp_all add: fresh_db_def special_msg_def default_msg_def mid_matches_def r)
qed

theorem parked_changes_converge_witness:
  "let xs = [(1, True, ''Work''), (2, True, ARCHIVE), (3, False, ''Work'')];
       late = drain_pending 10 (arrive sample_msg (run_changes ''a@b'' xs fresh_db));
       direct = run_changes ''a@b'' xs (arrive sample_msg fresh_db)
   in set (tbl_msg_labels late) = set (tbl_msg_labels direct) \<and> set (tbl_msg_labels direct) = {(10, 1)}"
proof -
  let ?xs = "[(1, True, ''Work''), (2, True, ARCHIVE), (3, False, ''Work'')] :: (int \<times> bool \<times> string) list"
  have "set (tbl_msg_labels (run_changes ''a@b'' ?xs (arrive sample_msg fresh_db))) = {(10, 1)}"
    by code_simp
  then show ?thesis
    using parked_changes_converge [OF labels_inv_fresh sample_msg_new(3-6), of ?xs] by (simp add: sample_msg_new(1,2) Let_def)
qed

text \<open>Two items out of order, where the devices end up with different labels.\<close>

lemma stale_change_diverges:
  "let xs = [(2, True, ARCHIVE), (1, False, ARCHIVE)]
   in set (tbl_msg_labels (drain_pending 10 (arrive sample_msg (run_changes ''a@b'' xs fresh_db)))) = {(10, 1)} \<and>
      set (tbl_msg_labels (run_changes ''a@b'' xs (arrive sample_msg fresh_db))) = {}"
  by code_simp

text \<open>The latest intent wins. Whatever the order in which changes to one message and label are
  received while the message is missing, the parked change is one with the newest timestamp.\<close>

lemma parked_latest_intent:
  assumes "xs \<noteq> []" "parked c mid l = None"
  shows "\<exists>q. parked (c\<lparr>tbl_pending_msg_labels := park_all l mid xs (tbl_pending_msg_labels c)\<rparr>) mid l = Some q \<and>
    p_timestamp q = Max (fst ` set xs) \<and> (p_timestamp q, p_apply q) \<in> set xs"
  using park_all_newest [OF assms(1), of mid l "tbl_pending_msg_labels c"] assms(2)
  by (simp add: parked_def)

end
