(* ===== verification/Tags.thy ===== *)
theory Tags
  imports Labels
begin

text \<open>
  \<open>email/tags.rs\<close>: the system tags. Inbox, Sent and Drafts are derived from the message state;
  Archive, Trash and Unverified are reserved labels. The module answers two questions, the tags of
  a message and the messages of a tag, by different queries; the theorems relate them.
\<close>

datatype system_tag = Inbox | Unverified | Sent | Drafts | Archive | Trash

definition tags_all :: "system_tag list" where
  "tags_all = [Inbox, Unverified, Sent, Drafts, Archive, Trash]"

fun stored_name :: "system_tag \<Rightarrow> string option" where
  "stored_name Archive = Some ARCHIVE"
| "stored_name Trash = Some TRASH"
| "stored_name Unverified = Some UNVERIFIED"
| "stored_name Inbox = None"
| "stored_name Sent = None"
| "stored_name Drafts = None"

fun tag_as_str :: "system_tag \<Rightarrow> string" where
  "tag_as_str Inbox = ''inbox''"
| "tag_as_str Unverified = ''unverified''"
| "tag_as_str Sent = ''sent''"
| "tag_as_str Drafts = ''drafts''"
| "tag_as_str Archive = ''archive''"
| "tag_as_str Trash = ''trash''"

definition tag_parse :: "string \<Rightarrow> system_tag option" where
  "tag_parse s = List.find (\<lambda>t. eq_ignore_ascii_case (tag_as_str t) (trim s)) tags_all"

record tags =
  tg_system :: "system_tag list"
  tg_user :: "label list"

definition is_incoming :: "message_state \<Rightarrow> bool" where
  "is_incoming s \<longleftrightarrow> s \<ge> InFresh \<and> s < OutDraft"

definition state_of :: "ctx \<Rightarrow> msg_id \<Rightarrow> message_state option" where
  "state_of c m = map_option m_state (find_msg c m)"

definition derived :: "ctx \<Rightarrow> msg_id \<Rightarrow> system_tag \<Rightarrow> string list \<Rightarrow> bool" where
  "derived c m tag stored =
    (case state_of c m of None \<Rightarrow> False
     | Some s \<Rightarrow>
         (case tag of
            Drafts \<Rightarrow> s = OutDraft
          | Sent \<Rightarrow> is_outgoing s \<and> s \<noteq> OutDraft
          | Inbox \<Rightarrow> is_incoming s \<and> stored = []
          | _ \<Rightarrow> False))"

definition tags_of_msg :: "ctx \<Rightarrow> msg_id \<Rightarrow> tags" where
  "tags_of_msg c m =
    (let labels = labels_of_msg c m;
         stored = map lab_name (filter lab_is_system labels);
         present = (\<lambda>tag. case stored_name tag of
             Some name \<Rightarrow> list_ex (\<lambda>s. eq_ignore_ascii_case s name) stored
           | None \<Rightarrow> derived c m tag stored)
     in \<lparr>tg_system = filter present tags_all, tg_user = filter (\<lambda>l. \<not> lab_is_system l) labels\<rparr>)"

text \<open>The sub-query \<open>filed\<close>: a system label is on the message.\<close>

definition filed :: "ctx \<Rightarrow> msg_id \<Rightarrow> bool" where
  "filed c m \<longleftrightarrow> list_ex (\<lambda>ml. fst ml = m \<and> list_ex (\<lambda>l. l_id l = snd ml \<and> l_system l) (tbl_labels c)) (tbl_msg_labels c)"

definition tags_messages :: "ctx \<Rightarrow> system_tag \<Rightarrow> msg_id list result" where
  "tags_messages c tag =
    (case stored_name tag of
       Some name \<Rightarrow> (case reserved c name of Ok l \<Rightarrow> Ok (msgs_with c (lab_id l)) | Err e \<Rightarrow> Err e)
     | None \<Rightarrow>
         let base = (\<lambda>r. m_chat_id r \<noteq> DC_CHAT_ID_TRASH \<and> (tag \<noteq> Drafts \<longrightarrow> \<not> m_hidden r));
             cond = (\<lambda>r. case tag of
                 Drafts \<Rightarrow> state_num (m_state r) = state_num OutDraft
               | Sent \<Rightarrow> state_num (m_state r) > state_num OutDraft
               | _ \<Rightarrow> state_num (m_state r) \<ge> state_num InFresh \<and> state_num (m_state r) < state_num OutDraft \<and>
                      \<not> filed c (m_id r))
         in Ok (map m_id (sort_key newest_first (filter (\<lambda>r. base r \<and> cond r) (tbl_msgs c)))))"

section \<open>Lemmas\<close>

lemma set_tags_all: "set tags_all = UNIV"
proof -
  have "t \<in> set tags_all" for t by (cases t) (simp_all add: tags_all_def)
  then show ?thesis by blast
qed

lemma labels_of_msg_iff:
  "l \<in> set (labels_of_msg c m) \<longleftrightarrow> (\<exists>r \<in> set (tbl_labels c). l = row_to_label r \<and> (m, l_id r) \<in> set (tbl_msg_labels c))"
  unfolding labels_of_msg_def by (auto simp: image_iff Bex_def; force)

lemma set_labels_of_msg:
  "set (labels_of_msg c m) = row_to_label ` {r \<in> set (tbl_labels c). (m, l_id r) \<in> set (tbl_msg_labels c)}"
  by (auto simp: labels_of_msg_iff)

lemma filed_iff: "filed c m \<longleftrightarrow> (\<exists>l \<in> set (labels_of_msg c m). lab_is_system l)"
  unfolding filed_def labels_of_msg_def by (auto simp: list_ex_iff)

text \<open>A reserved label is recognised by its name, compared without case.\<close>

lemma ascii_lower_reserved:
  "n \<in> set RESERVED \<Longrightarrow> ascii_lower n = labels_normalize n"
proof -
  have "\<forall>n \<in> set RESERVED. ascii_lower n = labels_normalize n" by code_simp
  then show "n \<in> set RESERVED \<Longrightarrow> ascii_lower n = labels_normalize n" by blast
qed

lemma reserved_ascii: "n \<in> set RESERVED \<Longrightarrow> list_all (\<lambda>c. (of_char c :: nat) < 128) (labels_normalize n)"
proof -
  have "\<forall>n \<in> set RESERVED. list_all (\<lambda>c. (of_char c :: nat) < 128) (labels_normalize n)" by code_simp
  then show "n \<in> set RESERVED \<Longrightarrow> list_all (\<lambda>c. (of_char c :: nat) < 128) (labels_normalize n)" by blast
qed

lemma eq_reserved_name:
  assumes "wf_label_row r" "n \<in> set RESERVED"
  shows "eq_ignore_ascii_case (l_name r) n \<longleftrightarrow> l_name_norm r = labels_normalize n"
proof -
  have "l_name_norm r = to_lowercase (l_name r)"
    using assms(1) by (simp add: wf_label_row_def labels_normalize_def)
  then show ?thesis
    using to_lowercase_ascii [OF reserved_ascii [OF assms(2)], of "l_name r"]
    by (simp add: eq_ignore_ascii_case_def ascii_lower_reserved [OF assms(2)])
qed

lemma stored_name_reserved: "stored_name tag = Some n \<Longrightarrow> n \<in> set RESERVED"
  by (cases tag) (auto simp: RESERVED_def)

text \<open>The label of a stored tag is on the message iff the tag is.\<close>

lemma stored_tag_iff:
  assumes inv: "labels_inv c" and n: "stored_name tag = Some n" and l: "by_name c n = Some l"
  shows "tag \<in> set (tg_system (tags_of_msg c m)) \<longleftrightarrow> (m, lab_id l) \<in> set (tbl_msg_labels c)"
proof -
  have wf: "wf_label_row r" if "r \<in> set (tbl_labels c)" for r
    using inv that by (simp add: labels_inv_def wf_label_table_def)
  note res = stored_name_reserved [OF n]
  obtain r where r: "r \<in> set (tbl_labels c)" "l = row_to_label r" "l_name_norm r = labels_normalize n"
    using by_name_Some [OF l] by blast
  have "tag \<in> set (tg_system (tags_of_msg c m)) \<longleftrightarrow>
      (\<exists>x \<in> set (labels_of_msg c m). lab_is_system x \<and> eq_ignore_ascii_case (lab_name x) n)"
    by (auto simp: tags_of_msg_def Let_def set_tags_all n list_ex_iff)
  also have "\<dots> \<longleftrightarrow> (\<exists>x \<in> set (tbl_labels c). (m, l_id x) \<in> set (tbl_msg_labels c) \<and> l_system x \<and> l_name_norm x = labels_normalize n)"
    using eq_reserved_name [OF wf res] unfolding set_labels_of_msg by simp blast
  also have "\<dots> \<longleftrightarrow> (m, l_id r) \<in> set (tbl_msg_labels c)"
  proof
    assume "\<exists>x \<in> set (tbl_labels c). (m, l_id x) \<in> set (tbl_msg_labels c) \<and> l_system x \<and> l_name_norm x = labels_normalize n"
    then obtain x where x: "x \<in> set (tbl_labels c)" "(m, l_id x) \<in> set (tbl_msg_labels c)" "l_name_norm x = l_name_norm r"
      using r(3) by auto
    have "x = r" using inv x r(1) by (auto simp: labels_inv_def wf_label_table_def dest: unique_key_inj)
    with x show "(m, l_id r) \<in> set (tbl_msg_labels c)" by simp
  next
    assume "(m, l_id r) \<in> set (tbl_msg_labels c)"
    moreover have "l_system r" using wf [OF r(1)] r(3) res by (auto simp: wf_label_row_def reserved_norms_def)
    ultimately show "\<exists>x \<in> set (tbl_labels c). (m, l_id x) \<in> set (tbl_msg_labels c) \<and> l_system x \<and> l_name_norm x = labels_normalize n"
      using r by blast
  qed
  finally show ?thesis using r(2) by simp
qed

lemma derived_tag_iff:
  "stored_name tag = None \<Longrightarrow> find_msg c m = Some r \<Longrightarrow>
    tag \<in> set (tg_system (tags_of_msg c m)) \<longleftrightarrow>
      (case tag of Drafts \<Rightarrow> m_state r = OutDraft | Sent \<Rightarrow> m_state r > OutDraft
       | _ \<Rightarrow> is_incoming (m_state r) \<and> \<not> filed c m)"
  by (cases tag; cases "m_state r")
    (auto simp: tags_of_msg_def Let_def set_tags_all derived_def state_of_def filed_iff is_outgoing_def
      state_order filter_empty_conv)

lemma no_row_no_derived: "stored_name tag = None \<Longrightarrow> find_msg c m = None \<Longrightarrow> tag \<notin> set (tg_system (tags_of_msg c m))"
  by (simp add: tags_of_msg_def Let_def derived_def state_of_def)

lemma state_num_draft: "state_num s = 19 \<longleftrightarrow> s = OutDraft"
  by (cases s) simp_all

lemma filed_stored_tag:
  assumes inv: "labels_inv c" and f: "filed c m"
  shows "\<exists>tag. stored_name tag \<noteq> None \<and> tag \<in> set (tg_system (tags_of_msg c m))"
proof -
  obtain r where r: "r \<in> set (tbl_labels c)" "(m, l_id r) \<in> set (tbl_msg_labels c)" "l_system r"
    using f by (auto simp: filed_def list_ex_iff)
  then have "l_name_norm r \<in> reserved_norms"
    using inv by (auto simp: labels_inv_def wf_label_table_def wf_label_row_def)
  then obtain n where n: "n \<in> set RESERVED" "l_name_norm r = labels_normalize n"
    by (auto simp: reserved_norms_def)
  obtain tag where tag: "stored_name tag = Some n"
    using n(1) stored_name.simps(1-3) unfolding RESERVED_def
    by (metis empty_iff list.set(1) set_ConsD)
  from stored_tag_iff [OF inv tag by_name_row [OF inv r(1) n(2)]] r(2) tag show ?thesis by auto
qed

section \<open>Properties\<close>

text \<open>C4: The two views of a system tag agree. Listing the messages of a tag gives, newest first,
  exactly the messages outside core's trash chat (and not hidden, drafts excepted) on which the tag
  is found when the message is asked for its tags; the listing never fails.\<close>

theorem tags_views_agree:
  assumes inv: "labels_inv c" and wf: "wf_msgs c"
  shows "\<exists>rs. tags_messages c tag = Ok (map m_id rs) \<and> sorted (map newest_first rs) \<and>
    (\<forall>m. m \<in> set (map m_id rs) \<longleftrightarrow>
       (\<exists>r. find_msg c m = Some r \<and> m_chat_id r \<noteq> DC_CHAT_ID_TRASH \<and> (tag \<noteq> Drafts \<longrightarrow> \<not> m_hidden r) \<and>
            tag \<in> set (tg_system (tags_of_msg c m))))"
proof (cases "stored_name tag")
  case (Some n)
  obtain l where l: "reserved c n = Ok l" "by_name c n = Some l"
    using reserved_Ok [OF inv stored_name_reserved [OF Some]] by blast
  let ?rs = "sort_key newest_first [m. ml \<leftarrow> tbl_msg_labels c, snd ml = lab_id l, m \<leftarrow> tbl_msgs c,
         m_id m = fst ml \<and> m_chat_id m \<noteq> DC_CHAT_ID_TRASH \<and> \<not> m_hidden m]"
  have eq: "map m_id ?rs = msgs_with c (lab_id l)" by (simp only: msgs_with_def)
  have "tag \<noteq> Drafts" using Some by auto
  then have "m \<in> set (map m_id ?rs) \<longleftrightarrow>
       (\<exists>r. find_msg c m = Some r \<and> m_chat_id r \<noteq> DC_CHAT_ID_TRASH \<and> (tag \<noteq> Drafts \<longrightarrow> \<not> m_hidden r) \<and>
            tag \<in> set (tg_system (tags_of_msg c m)))" for m
    unfolding eq msgs_with_iff stored_tag_iff [OF inv Some l(2)]
    using find_msg_row [OF wf] find_msg_Some [of c m] by blast
  moreover have "tags_messages c tag = Ok (map m_id ?rs)"
    unfolding eq using Some l(1) by (simp add: tags_messages_def)
  moreover have "sorted (map newest_first ?rs)" by (rule sorted_sort_key)
  ultimately show ?thesis by blast
next
  case None
  define f where "f = (\<lambda>r :: msg_row. m_chat_id r \<noteq> DC_CHAT_ID_TRASH \<and> (tag \<noteq> Drafts \<longrightarrow> \<not> m_hidden r) \<and>
      (case tag of Drafts \<Rightarrow> m_state r = OutDraft | Sent \<Rightarrow> m_state r > OutDraft
       | _ \<Rightarrow> is_incoming (m_state r) \<and> \<not> filed c (m_id r)))"
  have f: "tags_messages c tag = Ok (map m_id (sort_key newest_first (filter f (tbl_msgs c))))"
    using None by (cases tag) (simp_all add: tags_messages_def f_def state_order is_incoming_def state_num_draft)
  have iff: "f r \<longleftrightarrow> m_chat_id r \<noteq> DC_CHAT_ID_TRASH \<and> (tag \<noteq> Drafts \<longrightarrow> \<not> m_hidden r) \<and>
      (case tag of Drafts \<Rightarrow> m_state r = OutDraft | Sent \<Rightarrow> m_state r > OutDraft
       | _ \<Rightarrow> is_incoming (m_state r) \<and> \<not> filed c (m_id r))" for r
    by (simp add: f_def)
  have "m \<in> m_id ` set (filter f (tbl_msgs c)) \<longleftrightarrow>
       (\<exists>r. find_msg c m = Some r \<and> m_chat_id r \<noteq> DC_CHAT_ID_TRASH \<and> (tag \<noteq> Drafts \<longrightarrow> \<not> m_hidden r) \<and>
            tag \<in> set (tg_system (tags_of_msg c m)))" for m
  proof -
    have "m \<in> m_id ` set (filter f (tbl_msgs c)) \<longleftrightarrow> (\<exists>r. find_msg c m = Some r \<and> f r)"
      using find_msg_row [OF wf] find_msg_Some [of c m] by auto
    moreover have "find_msg c m = Some r \<Longrightarrow> m_id r = m" for r using find_msg_Some by blast
    ultimately show ?thesis using derived_tag_iff [OF None, of c m] iff by (metis (no_types, lifting))
  qed
  then show ?thesis unfolding f by (intro exI [of _ "sort_key newest_first (filter f (tbl_msgs c))"]) simp
qed

text \<open>No message falls out of every view: a stored message with a state has a system tag; the
  inbox excludes every other tag; and no message is both sent and a draft.\<close>

lemma every_message_tagged:
  assumes inv: "labels_inv c" and r: "find_msg c m = Some r" "m_state r \<noteq> Undefined"
  shows "tg_system (tags_of_msg c m) \<noteq> [] \<and>
    (Inbox \<in> set (tg_system (tags_of_msg c m)) \<longrightarrow> set (tg_system (tags_of_msg c m)) = {Inbox}) \<and>
    \<not> {Sent, Drafts} \<subseteq> set (tg_system (tags_of_msg c m))"
proof (intro conjI impI)
  let ?T = "set (tg_system (tags_of_msg c m))"
  note der = derived_tag_iff [OF _ r(1)]
  have "\<exists>tag. tag \<in> ?T"
    using filed_stored_tag [OF inv, of m] der [of Inbox] der [of Sent] der [of Drafts] r(2)
    by (cases "m_state r"; cases "filed c m") (auto simp: is_incoming_def state_order)
  then show "tg_system (tags_of_msg c m) \<noteq> []" by auto
  show "\<not> {Sent, Drafts} \<subseteq> ?T" using der [of Sent] der [of Drafts] by auto
  assume inbox: "Inbox \<in> ?T"
  then have inc: "is_incoming (m_state r)" "\<not> filed c m" using der [of Inbox] by simp_all
  have "tag = Inbox" if "tag \<in> ?T" for tag
  proof (cases "stored_name tag")
    case None
    with that have "case tag of Drafts \<Rightarrow> m_state r = OutDraft | Sent \<Rightarrow> m_state r > OutDraft
       | _ \<Rightarrow> is_incoming (m_state r) \<and> \<not> filed c m" using der [of tag] by simp
    with None inc(1) show ?thesis by (cases tag) (auto simp: is_incoming_def state_order)
  next
    case (Some n)
    with that have "\<exists>x \<in> set (labels_of_msg c m). lab_is_system x"
      by (auto simp: tags_of_msg_def Let_def list_ex_iff)
    with inc(2) show ?thesis by (simp add: filed_iff)
  qed
  with inbox show "?T = {Inbox}" by blast
qed

text \<open>Parsing a tag name accepts exactly the identifiers of \<open>as_str\<close>, in any ASCII case and with
  surrounding white space, and gives back the tag it names.\<close>

lemma tag_parse_iff: "tag_parse s = Some t \<longleftrightarrow> ascii_lower (trim s) = tag_as_str t"
proof -
  have low: "ascii_lower (tag_as_str t) = tag_as_str t" for t
  proof -
    have "\<forall>t \<in> set tags_all. ascii_lower (tag_as_str t) = tag_as_str t" by code_simp
    then show ?thesis by (simp add: set_tags_all)
  qed
  have "tag_as_str t = tag_as_str u \<longleftrightarrow> t = u" for t u by (cases t; cases u) simp_all
  then have uniq: "unique_key tag_as_str tags_all" by (simp add: unique_key_def tags_all_def)
  have "tag_parse s = List.find (\<lambda>t. tag_as_str t = ascii_lower (trim s)) tags_all"
    by (simp add: tag_parse_def eq_ignore_ascii_case_def low)
  moreover have "List.find (\<lambda>t. tag_as_str t = k) tags_all = Some t \<longleftrightarrow> k = tag_as_str t" for k
    using find_unique [OF uniq, of t] find_Some_set [of "\<lambda>t. tag_as_str t = k" tags_all t] by (auto simp: set_tags_all)
  ultimately show ?thesis by simp
qed

theorem tags_views_agree_witness:
  "let c = snd (archive [10] (fresh_db\<lparr>tbl_msgs := [(default_msg 10)\<lparr>m_chat_id := 10, m_state := InFresh\<rparr>]\<rparr>))
   in (\<exists>rs :: msg_row list. tags_messages c Archive = Ok (map m_id rs) \<and> map m_id rs = [10])"
proof -
  let ?c = "snd (archive [10] (fresh_db\<lparr>tbl_msgs := [(default_msg 10)\<lparr>m_chat_id := 10, m_state := InFresh\<rparr>]\<rparr>))"
  have "labels_inv (fresh_db\<lparr>tbl_msgs := [(default_msg 10)\<lparr>m_chat_id := 10, m_state := InFresh\<rparr>]\<rparr>)"
    by (rule labels_inv_frame [OF labels_inv_fresh]) simp_all
  then have inv: "labels_inv ?c" by (simp add: archive_def set_reserved_inv)
  have wf: "wf_msgs ?c" by code_simp
  have ok: "tags_messages ?c Archive = Ok [10]" by code_simp
  obtain rs :: "msg_row list" where "tags_messages ?c Archive = Ok (map m_id rs)"
    using tags_views_agree [OF inv wf, of Archive] by blast
  with ok show ?thesis unfolding Let_def by (intro exI [of _ rs]) simp
qed

end
