(* ===== verification/Tag_Store.thy ===== *)
theory Tag_Store
  imports Labels
begin

text \<open>
  What the other components rely on of the labels: a reserved label put on or taken off messages
  by \<open>labels::set_ext\<close>. The interface is a locale, the laws are discharged for the model of
  \<open>labels.rs\<close>, for every reserved label and with or without syncing.
\<close>

section \<open>The interface\<close>

locale tag_store =
  fixes inv :: "'s \<Rightarrow> bool"
    and has :: "'t \<Rightarrow> 's \<Rightarrow> 'm \<Rightarrow> bool"
    and tags :: "'t set"
    and put :: "'t \<Rightarrow> 'm list \<Rightarrow> bool \<Rightarrow> 's \<Rightarrow> 's"
  assumes inv_put: "inv s \<Longrightarrow> t \<in> tags \<Longrightarrow> inv (put t ms a s)"
    and has_put: "inv s \<Longrightarrow> t \<in> tags \<Longrightarrow> t' \<in> tags \<Longrightarrow>
      has t' (put t ms a s) m \<longleftrightarrow> (if t' = t \<and> m \<in> set ms then a else has t' s m)"
begin

lemma put_idem: "inv s \<Longrightarrow> t \<in> tags \<Longrightarrow> t' \<in> tags \<Longrightarrow> has t' (put t ms a (put t ms a s)) m = has t' (put t ms a s) m"
  by (simp add: has_put inv_put)

lemma put_undo:
  assumes "inv s" "t \<in> tags" "t' \<in> tags" "\<And>m. m \<in> set ms \<Longrightarrow> \<not> has t s m"
  shows "has t' (put t ms False (put t ms True s)) m = has t' s m"
  using assms by (auto simp: has_put inv_put)

lemma put_commute:
  assumes "inv s" "t \<in> tags" "t' \<in> tags" "u \<in> tags" "t \<noteq> t'"
  shows "has u (put t ms a (put t' ms' b s)) m = has u (put t' ms' b (put t ms a s)) m"
  using assms by (auto simp: has_put inv_put)

lemma move:
  assumes "inv s" "t \<in> tags" "t' \<in> tags" "t \<noteq> t'" "m \<in> set ms"
  shows "has t' (put t' ms True (put t ms False s)) m \<and> \<not> has t (put t' ms True (put t ms False s)) m"
  using assms by (simp add: has_put inv_put)

end

section \<open>Reserved labels as tags\<close>

definition has_tag :: "string \<Rightarrow> ctx \<Rightarrow> msg_id \<Rightarrow> bool" where
  "has_tag n c m \<longleftrightarrow> (case by_name c n of None \<Rightarrow> False | Some l \<Rightarrow> (m, lab_id l) \<in> set (tbl_msg_labels c))"

definition put_tag :: "sync \<Rightarrow> string \<Rightarrow> msg_id list \<Rightarrow> bool \<Rightarrow> ctx \<Rightarrow> ctx" where
  "put_tag sy n ms a c = snd (set_reserved n ms a sy c)"

lemma has_tag_cong:
  "tbl_labels c' = tbl_labels c \<Longrightarrow> tbl_msg_labels c' = tbl_msg_labels c \<Longrightarrow> has_tag n c' = has_tag n c"
  by (rule ext) (simp add: has_tag_def by_name_def cong: option.case_cong)

lemma reserved_distinct: "n \<in> set RESERVED \<Longrightarrow> n' \<in> set RESERVED \<Longrightarrow> labels_normalize n = labels_normalize n' \<longleftrightarrow> n = n'"
proof -
  have "\<forall>n \<in> set RESERVED. \<forall>n' \<in> set RESERVED. labels_normalize n = labels_normalize n' \<longrightarrow> n = n'" by code_simp
  then show "n \<in> set RESERVED \<Longrightarrow> n' \<in> set RESERVED \<Longrightarrow> labels_normalize n = labels_normalize n' \<longleftrightarrow> n = n'"
    by blast
qed

lemma set_reserved_Ok:
  assumes "labels_inv c" "n \<in> set RESERVED"
  obtains l where "by_name c n = Some l" "set_reserved n ms a sy c = (Ok (), set_ext ms l a sy c)"
    "put_tag sy n ms a c = set_ext ms l a sy c" "lab_id l \<in> label_ids c"
  using reserved_Ok [OF assms] by (auto simp: set_reserved_def put_tag_def)

lemma reserved_ids_distinct:
  assumes inv: "labels_inv c" and "by_name c n = Some l" "by_name c n' = Some l'" "lab_id l = lab_id l'"
  shows "labels_normalize n = labels_normalize n'"
proof -
  obtain r r' where r: "r \<in> set (tbl_labels c)" "l = row_to_label r" "l_name_norm r = labels_normalize n"
    and r': "r' \<in> set (tbl_labels c)" "l' = row_to_label r'" "l_name_norm r' = labels_normalize n'"
    using by_name_Some [OF assms(2)] by_name_Some [OF assms(3)] by blast
  from inv r r' assms(4) have "r = r'"
    by (auto simp: labels_inv_def wf_label_table_def dest: unique_key_inj)
  with r r' show ?thesis by simp
qed

lemma has_tag_put:
  assumes "labels_inv c" "n \<in> set RESERVED" "n' \<in> set RESERVED"
  shows "has_tag n' (put_tag sy n ms a c) m \<longleftrightarrow> (if n' = n \<and> m \<in> set ms then a else has_tag n' c m)"
proof -
  obtain l where l: "by_name c n = Some l" "put_tag sy n ms a c = set_ext ms l a sy c"
    using set_reserved_Ok [OF assms(1,2)] by metis
  obtain l' where l': "by_name c n' = Some l'" using reserved_Ok [OF assms(1,3)] by blast
  have "lab_id l' = lab_id l \<longleftrightarrow> n' = n"
    using reserved_ids_distinct [OF assms(1) l' l(1)] reserved_distinct [OF assms(3,2)] l l' by auto
  then show ?thesis
    by (auto simp: has_tag_def by_name_cong [of "set_ext ms l a sy c" c] l l' set_label_rows_iff)
qed

lemma labels_inv_put: "labels_inv c \<Longrightarrow> labels_inv (put_tag sy n ms a c)"
  by (simp add: put_tag_def set_reserved_inv)

interpretation rt: tag_store labels_inv has_tag "set RESERVED" "put_tag sy" for sy
  by unfold_locales (simp_all add: labels_inv_put has_tag_put)

lemma reserved_names [simp]: "ARCHIVE \<in> set RESERVED" "TRASH \<in> set RESERVED" "UNVERIFIED \<in> set RESERVED"
  by (simp_all add: RESERVED_def)

lemma reserved_names_neq [simp]: "TRASH \<noteq> UNVERIFIED" "UNVERIFIED \<noteq> TRASH" "ARCHIVE \<noteq> TRASH" "ARCHIVE \<noteq> UNVERIFIED"
  by (simp_all add: ARCHIVE_def TRASH_def UNVERIFIED_def)

text \<open>Everything else a tag change leaves as it was.\<close>

lemma put_tag_frame [simp]:
  "clock (put_tag sy n ms a c) = clock c"
  "env_var (put_tag sy n ms a c) = env_var c"
  "tbl_config (put_tag sy n ms a c) = tbl_config c"
  "configured_addr (put_tag sy n ms a c) = configured_addr c"
  "tbl_msgs (put_tag sy n ms a c) = tbl_msgs c"
  "tbl_contacts (put_tag sy n ms a c) = tbl_contacts c"
  "tbl_labels (put_tag sy n ms a c) = tbl_labels c"
  "tbl_pending_msg_labels (put_tag sy n ms a c) = tbl_pending_msg_labels c"
  "tbl_held_msgs (put_tag sy n ms a c) = tbl_held_msgs c"
  "tbl_trashed_msgs (put_tag sy n ms a c) = tbl_trashed_msgs c"
  "tbl_blocklist (put_tag sy n ms a c) = tbl_blocklist c"
  "tbl_chats (put_tag sy n ms a c) = tbl_chats c"
  "tbl_chats_contacts (put_tag sy n ms a c) = tbl_chats_contacts c"
  "tbl_public_keys (put_tag sy n ms a c) = tbl_public_keys c"
  "tbl_contact_policy (put_tag sy n ms a c) = tbl_contact_policy c"
  "tbl_imap (put_tag sy n ms a c) = tbl_imap c"
  "tbl_threads (put_tag sy n ms a c) = tbl_threads c"
  "tbl_msg_threads (put_tag sy n ms a c) = tbl_msg_threads c"
  "tbl_thread_refs (put_tag sy n ms a c) = tbl_thread_refs c"
  "tbl_msg_recipients (put_tag sy n ms a c) = tbl_msg_recipients c"
  "tbl_raw_mime (put_tag sy n ms a c) = tbl_raw_mime c"
  "tbl_structured_data (put_tag sy n ms a c) = tbl_structured_data c"
  "tbl_server_retention (put_tag sy n ms a c) = tbl_server_retention c"
  "tbl_msg_undelivered (put_tag sy n ms a c) = tbl_msg_undelivered c"
  "tbl_msg_importance (put_tag sy n ms a c) = tbl_msg_importance c"
  "tbl_msg_send_options (put_tag sy n ms a c) = tbl_msg_send_options c"
  "blobdir (put_tag sy n ms a c) = blobdir c"
  "blob_key (put_tag sy n ms a c) = blob_key c"
  by (simp_all add: put_tag_def set_reserved_def split: result.splits)

lemma get_config_put_tag [simp]: "get_config (put_tag sy n ms a c) k = get_config c k"
  by (simp add: get_config_frame [of "put_tag sy n ms a c" c])

lemma get_config_int_put_tag [simp]: "get_config_int (put_tag sy n ms a c) k = get_config_int c k"
  by (simp add: get_config_int_def)

lemma has_tag_put_Nil [simp]: "has_tag n' (put_tag sy n [] a c) = has_tag n' c"
  by (rule has_tag_cong) (simp_all add: put_tag_def set_reserved_def set_ext_def split: result.splits)

end
