(* ===== verification/Trashing.thy ===== *)
theory Trashing
  imports Tag_Store
begin

text \<open>
  \<open>email/ephemeral.rs\<close>: the trash, the only place that destroys mail, and core's expiry sweep
  (\<open>ephemeral.rs\<close>) that it runs in front of. The label Trash is synced between devices, the
  deadline in \<open>trashed_msgs\<close> is not; \<open>reconcile\<close> brings the two together before anything is
  destroyed.
\<close>

section \<open>The trash\<close>

definition DEFAULT_PURGE_DAYS :: int where "DEFAULT_PURGE_DAYS = 30"

definition purge_days :: "ctx \<Rightarrow> int" where "purge_days c = get_config_int c Config_TrashPurgeDays"

definition set_purge_days :: "int \<Rightarrow> (ctx, unit) eff" where
  "set_purge_days days = set_config Config_TrashPurgeDays (Some (show_int (max days 0)))"

definition purge_secs :: "ctx \<Rightarrow> int" where "purge_secs c = saturating_mul (purge_days c) 86400"

datatype reason = Deleted | Expired | Unaccepted | Blocked

fun reason_num :: "reason \<Rightarrow> int" where
  "reason_num Deleted = 0"
| "reason_num Expired = 1"
| "reason_num Unaccepted = 2"
| "reason_num Blocked = 3"

definition reason_from_i64 :: "int \<Rightarrow> reason" where
  "reason_from_i64 v = (if v = 1 then Expired else if v = 2 then Unaccepted else if v = 3 then Blocked else Deleted)"

record trashed =
  ti_trashed_at :: int
  ti_purge_at :: int
  ti_reason :: reason

definition insert_trashed :: "int \<Rightarrow> int \<Rightarrow> reason \<Rightarrow> msg_id \<Rightarrow> trashed_row list \<Rightarrow> trashed_row list" where
  "insert_trashed now purge_at reason m t =
    insert_or_ignore t_msg_id
      \<lparr>t_msg_id = m, t_trashed_at = now, t_purge_at = purge_at, t_reason = reason_num reason\<rparr> t"

definition to_trash :: "msg_id list \<Rightarrow> reason \<Rightarrow> int \<Rightarrow> (ctx, unit) eff" where
  "to_trash ms reason now c =
    (if ms = [] then (Ok (), c)
     else case reserved c TRASH of
         Err e \<Rightarrow> (Err e, c)
       | Ok l \<Rightarrow>
           let c1 = set_ext ms l True (if reason = Deleted then Sync else Nosync) c;
               purge_at = saturating_add now (purge_secs c1)
           in (Ok (), c1\<lparr>tbl_trashed_msgs := fold (insert_trashed now purge_at reason) ms (tbl_trashed_msgs c1)\<rparr>))"

definition trash :: "msg_id list \<Rightarrow> (ctx, unit) eff" where
  "trash ms c = to_trash ms Deleted (clock c) c"

definition clear_ephemeral :: "msg_id list \<Rightarrow> ctx \<Rightarrow> ctx" where
  "clear_ephemeral ms c =
    c\<lparr>tbl_msgs := fold (\<lambda>m. update_where (\<lambda>r. m_id r = m) (\<lambda>r. r\<lparr>m_ephemeral_timestamp := 0\<rparr>)) ms (tbl_msgs c)\<rparr>"

definition timer_fired :: "int \<Rightarrow> msg_row \<Rightarrow> bool" where
  "timer_fired now r \<longleftrightarrow> m_ephemeral_timestamp r \<noteq> 0 \<and> m_ephemeral_timestamp r \<le> now \<and> m_chat_id r \<noteq> DC_CHAT_ID_TRASH"

definition divert :: "int \<Rightarrow> (ctx, nat) eff" where
  "divert now c =
    (if purge_days c \<le> 0 then (Ok 0, c)
     else
       let expired = map m_id (filter (timer_fired now) (tbl_msgs c)) in
       if expired = [] then (Ok 0, c)
       else case to_trash expired Expired now c of
           (Err e, c1) \<Rightarrow> (Err e, c1)
         | (Ok _, c1) \<Rightarrow> (Ok (length expired), clear_ephemeral expired c1))"

definition restore :: "msg_id list \<Rightarrow> (ctx, unit) eff" where
  "restore ms c =
    (if ms = [] then (Ok (), c)
     else case reserved c TRASH of
         Err e \<Rightarrow> (Err e, c)
       | Ok l \<Rightarrow>
           let c1 = set_ext ms l False Sync c in
           (Ok (), clear_ephemeral ms
              (c1\<lparr>tbl_trashed_msgs := fold (\<lambda>m. delete_where (\<lambda>r. t_msg_id r = m)) ms (tbl_trashed_msgs c1)\<rparr>)))"

definition trashed_info :: "ctx \<Rightarrow> msg_id \<Rightarrow> trashed option" where
  "trashed_info c m =
    map_option (\<lambda>r. \<lparr>ti_trashed_at = t_trashed_at r, ti_purge_at = t_purge_at r, ti_reason = reason_from_i64 (t_reason r)\<rparr>)
      (List.find (\<lambda>r. t_msg_id r = m) (tbl_trashed_msgs c))"

definition set_message_timer :: "msg_id \<Rightarrow> timer \<Rightarrow> ctx \<Rightarrow> ctx" where
  "set_message_timer m t c =
    (let expires_at = (case t of Disabled \<Rightarrow> 0 | Enabled d \<Rightarrow> saturating_add (clock c) (int d))
     in c\<lparr>tbl_msgs := update_where (\<lambda>r. m_id r = m) (\<lambda>r. r\<lparr>m_ephemeral_timestamp := expires_at\<rparr>) (tbl_msgs c)\<rparr>)"

definition message_expires_at :: "ctx \<Rightarrow> msg_id \<Rightarrow> int option" where
  "message_expires_at c m =
    (case find_msg c m of None \<Rightarrow> None
     | Some r \<Rightarrow> if m_ephemeral_timestamp r = 0 then None else Some (m_ephemeral_timestamp r))"

definition in_trash :: "ctx \<Rightarrow> msg_id list result" where
  "in_trash c = (case reserved c TRASH of Err e \<Rightarrow> Err e | Ok l \<Rightarrow> Ok (msgs_with c (lab_id l)))"

definition reconcile :: "int \<Rightarrow> (ctx, unit) eff" where
  "reconcile now c =
    (case reserved c TRASH of
       Err e \<Rightarrow> (Err e, c)
     | Ok l \<Rightarrow>
         let purge_at = saturating_add now (purge_secs c);
             labelled = map fst (filter (\<lambda>ml. snd ml = lab_id l) (tbl_msg_labels c));
             kept = delete_where (\<lambda>r. t_msg_id r \<notin> set labelled) (tbl_trashed_msgs c)
         in (Ok (), c\<lparr>tbl_trashed_msgs := fold (insert_trashed now purge_at Deleted) labelled kept\<rparr>))"

definition destroy :: "msg_id list \<Rightarrow> (ctx, nat) eff" where
  "destroy ms c =
    (if ms = [] then (Ok 0, c)
     else
       let c1 = fold (\<lambda>m. msg_trash m True) ms c
       in (Ok (length ms),
           c1\<lparr>tbl_trashed_msgs := fold (\<lambda>m. delete_where (\<lambda>r. t_msg_id r = m)) ms (tbl_trashed_msgs c1)\<rparr>))"

definition purge :: "(ctx, nat) eff" where
  "purge c =
    (let now = clock c in
     case reconcile now c of
       (Err e, c1) \<Rightarrow> (Err e, c1)
     | (Ok _, c1) \<Rightarrow>
         let due = map t_msg_id (filter (\<lambda>r. t_purge_at r \<le> now) (tbl_trashed_msgs c1)) in
         if due = [] then
           (let kept = delete_where (\<lambda>r. t_msg_id r \<notin> set (live_ids c1)) (tbl_trashed_msgs c1)
            in (Ok (length (tbl_trashed_msgs c1) - length kept), c1\<lparr>tbl_trashed_msgs := kept\<rparr>))
         else destroy due c1)"

definition destroy_now :: "msg_id list \<Rightarrow> (ctx, nat) eff" where
  "destroy_now ms c =
    (if ms = [] then (Ok 0, c)
     else case reconcile (clock c) c of
         (Err e, c1) \<Rightarrow> (Err e, c1)
       | (Ok _, c1) \<Rightarrow> destroy (filter (\<lambda>m. exists_where (\<lambda>r. t_msg_id r = m) (tbl_trashed_msgs c1)) ms) c1)"

definition empty :: "(ctx, nat) eff" where
  "empty c =
    (case reconcile (clock c) c of
       (Err e, c1) \<Rightarrow> (Err e, c1)
     | (Ok _, c1) \<Rightarrow> (case in_trash c1 of Err e \<Rightarrow> (Err e, c1) | Ok ids \<Rightarrow> destroy ids c1))"

section \<open>Core's expiry sweep\<close>

definition get_config_delete_device_after :: "ctx \<Rightarrow> int option" where
  "get_config_delete_device_after c =
    (let x = get_config_int c Config_DeleteDeviceAfter in if x = 0 then None else Some x)"

text \<open>\<open>ChatIdBlocked::lookup_by_contact\<close>, for a contact id that is not zero.\<close>

definition lookup_by_contact :: "ctx \<Rightarrow> contact_id \<Rightarrow> chat_row option" where
  "lookup_by_contact c i =
    (case [ch. ch \<leftarrow> tbl_chats c, ch_type ch = Single \<and> ch_id ch > 9 \<and>
               list_ex (\<lambda>j. cc_chat_id j = ch_id ch \<and> cc_contact_id j = i) (tbl_chats_contacts c)]
     of [] \<Rightarrow> None | ch # _ \<Rightarrow> Some ch)"

definition chat_id_or_default :: "chat_row option \<Rightarrow> chat_id" where
  "chat_id_or_default x = (case x of None \<Rightarrow> 0 | Some ch \<Rightarrow> ch_id ch)"

definition select_expired_messages :: "int \<Rightarrow> ctx \<Rightarrow> msg_id list" where
  "select_expired_messages now c =
    map m_id (filter (timer_fired now) (tbl_msgs c)) @
    (case get_config_delete_device_after c of None \<Rightarrow> []
     | Some d \<Rightarrow>
         let self_chat = chat_id_or_default (lookup_by_contact c CONTACT_SELF);
             device_chat = chat_id_or_default (lookup_by_contact c CONTACT_DEVICE);
             threshold = saturating_sub now d
         in map m_id (filter (\<lambda>r. m_timestamp r < threshold \<and> m_timestamp_rcvd r < threshold \<and>
              m_chat_id r > 9 \<and> m_chat_id r \<noteq> self_chat \<and> m_chat_id r \<noteq> device_chat) (tbl_msgs c)))"

definition delete_expired_messages :: "int \<Rightarrow> ctx \<Rightarrow> ctx" where
  "delete_expired_messages now c =
    (let c1 = best_effort (divert now) c
     in fold (\<lambda>m. msg_trash m False) (select_expired_messages now c1) c1)"

section \<open>Lemmas\<close>

lemma reason_round_trip [simp]: "reason_from_i64 (reason_num r) = r"
  by (cases r) (simp_all add: reason_from_i64_def)

text \<open>The invariant of the component: the labels' and one deadline per message.\<close>

definition trash_inv :: "ctx \<Rightarrow> bool" where
  "trash_inv c \<longleftrightarrow> labels_inv c \<and> unique_key t_msg_id (tbl_trashed_msgs c)"

lemma trash_inv_labels: "trash_inv c \<Longrightarrow> labels_inv c"
  by (simp add: trash_inv_def)

definition deadline :: "ctx \<Rightarrow> msg_id \<Rightarrow> trashed_row option" where
  "deadline c m = List.find (\<lambda>r. t_msg_id r = m) (tbl_trashed_msgs c)"

lemma find_fold_insert_trashed:
  "List.find (\<lambda>r. t_msg_id r = m) (fold (insert_trashed now p why) ms t) =
    (case List.find (\<lambda>r. t_msg_id r = m) t of Some x \<Rightarrow> Some x
     | None \<Rightarrow> if m \<in> set ms then Some \<lparr>t_msg_id = m, t_trashed_at = now, t_purge_at = p, t_reason = reason_num why\<rparr> else None)"
  by (induction ms arbitrary: t) (auto simp: insert_trashed_def find_insert_or_ignore split: option.splits)

lemma unique_fold_insert_trashed:
  "unique_key t_msg_id t \<Longrightarrow> unique_key t_msg_id (fold (insert_trashed now p why) ms t)"
  by (induction ms arbitrary: t) (auto simp: insert_trashed_def)

lemma clear_ephemeral_frame [simp]:
  "clock (clear_ephemeral ms c) = clock c" "env_var (clear_ephemeral ms c) = env_var c"
  "tbl_config (clear_ephemeral ms c) = tbl_config c"
  "tbl_labels (clear_ephemeral ms c) = tbl_labels c" "labels_seq (clear_ephemeral ms c) = labels_seq c"
  "tbl_msg_labels (clear_ephemeral ms c) = tbl_msg_labels c"
  "tbl_pending_msg_labels (clear_ephemeral ms c) = tbl_pending_msg_labels c"
  "tbl_trashed_msgs (clear_ephemeral ms c) = tbl_trashed_msgs c"
  "tbl_held_msgs (clear_ephemeral ms c) = tbl_held_msgs c"
  by (simp_all add: clear_ephemeral_def)

lemma tbl_msgs_clear_ephemeral:
  "tbl_msgs (clear_ephemeral ms c) = map (\<lambda>r. if m_id r \<in> set ms then r\<lparr>m_ephemeral_timestamp := 0\<rparr> else r) (tbl_msgs c)"
proof -
  have "fold (\<lambda>m. update_where (\<lambda>r. m_id r = m) (\<lambda>r. r\<lparr>m_ephemeral_timestamp := 0\<rparr>)) ms t =
      map (\<lambda>r. if m_id r \<in> set ms then r\<lparr>m_ephemeral_timestamp := 0\<rparr> else r) t" for t :: "msg_row list"
    by (induction ms arbitrary: t) (auto simp: update_where_def)
  then show ?thesis by (simp add: clear_ephemeral_def)
qed

text \<open>With the invariant, no step of the component fails.\<close>

lemma to_trash_eq:
  assumes "labels_inv c"
  shows "to_trash ms why now c =
    (Ok (), let c1 = put_tag (if why = Deleted then Sync else Nosync) TRASH ms True c
            in c1\<lparr>tbl_trashed_msgs := fold (insert_trashed now (saturating_add now (purge_secs c)) why) ms (tbl_trashed_msgs c)\<rparr>)"
proof (cases "ms = []")
  case True
  obtain l where l: "reserved c TRASH = Ok l" using reserved_Ok [OF assms, of TRASH] by auto
  have "put_tag (if why = Deleted then Sync else Nosync) TRASH [] True c = c"
    by (simp add: put_tag_def set_reserved_def l set_ext_def)
  with True show ?thesis by (simp add: to_trash_def)
next
  case False
  obtain l where l: "reserved c TRASH = Ok l" using reserved_Ok [OF assms, of TRASH] by auto
  have "purge_secs (set_ext ms l True sy c) = purge_secs c" for sy
    by (simp add: purge_secs_def purge_days_def get_config_int_frame [of "set_ext ms l True sy c" c])
  with False l show ?thesis
    by (simp add: to_trash_def put_tag_def set_reserved_def Let_def)
qed

lemma reconcile_eq:
  assumes "labels_inv c"
  obtains t where "reconcile now c = (Ok (), c\<lparr>tbl_trashed_msgs := t\<rparr>)"
    "\<And>m. List.find (\<lambda>r. t_msg_id r = m) t =
      (if has_tag TRASH c m
       then Some (case deadline c m of Some x \<Rightarrow> x
         | None \<Rightarrow> \<lparr>t_msg_id = m, t_trashed_at = now, t_purge_at = saturating_add now (purge_secs c), t_reason = 0\<rparr>)
       else None)"
    "unique_key t_msg_id (tbl_trashed_msgs c) \<Longrightarrow> unique_key t_msg_id t"
proof -
  obtain l where l: "reserved c TRASH = Ok l" "by_name c TRASH = Some l" using reserved_Ok [OF assms, of TRASH] by auto
  let ?ids = "map fst (filter (\<lambda>ml. snd ml = lab_id l) (tbl_msg_labels c))"
  let ?kept = "delete_where (\<lambda>r. t_msg_id r \<notin> set ?ids) (tbl_trashed_msgs c)"
  let ?t = "fold (insert_trashed now (saturating_add now (purge_secs c)) Deleted) ?ids ?kept"
  have tag: "has_tag TRASH c m \<longleftrightarrow> m \<in> set ?ids" for m
    by (auto simp: has_tag_def l image_iff Bex_def)
  have kept: "List.find (\<lambda>r. t_msg_id r = m) ?kept = (if m \<in> set ?ids then deadline c m else None)" for m
    using find_delete_ids [of t_msg_id m "- set ?ids" "tbl_trashed_msgs c"] by (simp add: deadline_def)
  show thesis
  proof (rule that [of ?t])
    show "reconcile now c = (Ok (), c\<lparr>tbl_trashed_msgs := ?t\<rparr>)" by (simp add: reconcile_def l Let_def)
    show "List.find (\<lambda>r. t_msg_id r = m) ?t = (if has_tag TRASH c m
       then Some (case deadline c m of Some x \<Rightarrow> x
         | None \<Rightarrow> \<lparr>t_msg_id = m, t_trashed_at = now, t_purge_at = saturating_add now (purge_secs c), t_reason = 0\<rparr>)
       else None)" for m
      by (simp only: find_fold_insert_trashed kept tag) (simp split: option.splits)
    show "unique_key t_msg_id (tbl_trashed_msgs c) \<Longrightarrow> unique_key t_msg_id ?t"
      by (intro unique_fold_insert_trashed unique_key_delete)
  qed
qed

lemma tombstone_idem [simp]: "tombstone b (tombstone b r) = tombstone b r"
  by (simp add: tombstone_def default_msg_def)

lemma fold_trash_eq:
  "fold (\<lambda>m. msg_trash m b) ms c = c\<lparr>tbl_msgs := map (\<lambda>r. if m_id r \<in> set ms then tombstone b r else r) (tbl_msgs c)\<rparr>"
proof (induction ms arbitrary: c)
  case (Cons m ms)
  have "map (\<lambda>r. if m_id r \<in> set ms then tombstone b r else r) (update_where (\<lambda>r. m_id r = m) (tombstone b) t) =
      map (\<lambda>r. if m_id r \<in> set (m # ms) then tombstone b r else r) t" for t
    by (auto simp: update_where_def)
  then show ?case using Cons.IH by (simp add: msg_trash_def)
qed simp

lemma destroy_eq:
  "destroy ms c = (Ok (length ms),
     c\<lparr>tbl_msgs := map (\<lambda>r. if m_id r \<in> set ms then tombstone True r else r) (tbl_msgs c),
       tbl_trashed_msgs := delete_where (\<lambda>r. t_msg_id r \<in> set ms) (tbl_trashed_msgs c)\<rparr>)"
  by (simp add: destroy_def fold_trash_eq fold_delete_ids Let_def delete_where_def)

lemma live_destroyed:
  "tbl_msgs c' = map (\<lambda>r. if m_id r \<in> S then tombstone b r else r) (tbl_msgs c) \<Longrightarrow>
     m \<in> set (live_ids c') \<longleftrightarrow> m \<in> set (live_ids c) \<and> m \<notin> S"
  by (auto simp: live_ids_iff split: if_splits)

text \<open>Which messages a purge destroys.\<close>

definition purge_due :: "ctx \<Rightarrow> msg_id \<Rightarrow> bool" where
  "purge_due c m \<longleftrightarrow> has_tag TRASH c m \<and>
     (case deadline c m of Some d \<Rightarrow> t_purge_at d | None \<Rightarrow> saturating_add (clock c) (purge_secs c)) \<le> clock c"

lemma purge_msgs:
  assumes inv: "trash_inv c"
  shows "\<exists>n. fst (purge c) = Ok n"
    and "tbl_msgs (snd (purge c)) = map (\<lambda>r. if purge_due c (m_id r) then tombstone True r else r) (tbl_msgs c)"
proof -
  have inv': "labels_inv c" "unique_key t_msg_id (tbl_trashed_msgs c)" using inv by (simp_all add: trash_inv_def)
  obtain t where t: "reconcile (clock c) c = (Ok (), c\<lparr>tbl_trashed_msgs := t\<rparr>)"
    and look: "\<And>m. List.find (\<lambda>r. t_msg_id r = m) t =
      (if has_tag TRASH c m
       then Some (case deadline c m of Some x \<Rightarrow> x
         | None \<Rightarrow> \<lparr>t_msg_id = m, t_trashed_at = clock c, t_purge_at = saturating_add (clock c) (purge_secs c), t_reason = 0\<rparr>)
       else None)"
    and uniq: "unique_key t_msg_id (tbl_trashed_msgs c) \<Longrightarrow> unique_key t_msg_id t"
    using reconcile_eq [OF inv'(1), of "clock c"] by metis
  let ?due = "map t_msg_id (filter (\<lambda>r. t_purge_at r \<le> clock c) t)"
  have due: "m \<in> set ?due \<longleftrightarrow> purge_due c m" for m
  proof -
    have "m \<in> set ?due \<longleftrightarrow> (\<exists>r. List.find (\<lambda>r. t_msg_id r = m) t = Some r \<and> t_purge_at r \<le> clock c)"
      using find_unique [OF uniq [OF inv'(2)]] find_Some_set [of "\<lambda>r. t_msg_id r = m" t] by auto
    then show ?thesis by (auto simp: look purge_due_def split: option.splits)
  qed
  have res: "purge c = (if ?due = [] then
         (let kept = delete_where (\<lambda>r. t_msg_id r \<notin> set (live_ids (c\<lparr>tbl_trashed_msgs := t\<rparr>))) t
          in (Ok (length t - length kept), c\<lparr>tbl_trashed_msgs := kept\<rparr>))
       else destroy ?due (c\<lparr>tbl_trashed_msgs := t\<rparr>))"
    by (simp add: purge_def t Let_def)
  show "\<exists>n. fst (purge c) = Ok n" by (simp add: res destroy_eq Let_def)
  have "?due = [] \<Longrightarrow> \<not> purge_due c m" for m using due [of m] by simp
  then show "tbl_msgs (snd (purge c)) = map (\<lambda>r. if purge_due c (m_id r) then tombstone True r else r) (tbl_msgs c)"
    by (cases "?due = []") (simp_all add: res destroy_eq Let_def flip: due)
qed

lemma destroy_now_msgs:
  assumes inv: "labels_inv c"
  shows "tbl_msgs (snd (destroy_now ms c)) =
      map (\<lambda>r. if m_id r \<in> set ms \<and> has_tag TRASH c (m_id r) then tombstone True r else r) (tbl_msgs c)"
    and "fst (destroy_now ms c) = Ok (length (filter (has_tag TRASH c) ms))"
proof -
  obtain t where t: "reconcile (clock c) c = (Ok (), c\<lparr>tbl_trashed_msgs := t\<rparr>)"
    and look: "\<And>m. (List.find (\<lambda>r. t_msg_id r = m) t \<noteq> None) = has_tag TRASH c m"
    using reconcile_eq [OF inv, of "clock c"] by (metis option.distinct(1))
  have "exists_where (\<lambda>r. t_msg_id r = m) t \<longleftrightarrow> has_tag TRASH c m" for m
    using look [of m] by (simp add: exists_where_def list_ex_key find_None_key)
  then show "tbl_msgs (snd (destroy_now ms c)) =
      map (\<lambda>r. if m_id r \<in> set ms \<and> has_tag TRASH c (m_id r) then tombstone True r else r) (tbl_msgs c)"
    and "fst (destroy_now ms c) = Ok (length (filter (has_tag TRASH c) ms))"
    by (cases "ms = []"; simp add: destroy_now_def t destroy_eq)+
qed

lemma empty_msgs:
  assumes inv: "labels_inv c" and wf: "wf_msgs c"
  shows "tbl_msgs (snd (empty c)) =
    map (\<lambda>r. if has_tag TRASH c (m_id r) \<and> m_chat_id r \<noteq> DC_CHAT_ID_TRASH \<and> \<not> m_hidden r then tombstone True r else r) (tbl_msgs c)"
proof -
  obtain t where t: "reconcile (clock c) c = (Ok (), c\<lparr>tbl_trashed_msgs := t\<rparr>)"
    using reconcile_eq [OF inv, of "clock c"] by metis
  let ?c1 = "c\<lparr>tbl_trashed_msgs := t\<rparr>"
  obtain l where l: "reserved c TRASH = Ok l" "by_name c TRASH = Some l" using reserved_Ok [OF inv, of TRASH] by auto
  have l1: "reserved ?c1 TRASH = Ok l" using l(1) reserved_cong [of ?c1 c] by simp
  have "snd (empty c) = snd (destroy (msgs_with ?c1 (lab_id l)) ?c1)"
    by (simp add: empty_def t in_trash_def l1)
  moreover have "m_id r \<in> set (msgs_with ?c1 (lab_id l)) \<longleftrightarrow>
      has_tag TRASH c (m_id r) \<and> m_chat_id r \<noteq> DC_CHAT_ID_TRASH \<and> \<not> m_hidden r" if "r \<in> set (tbl_msgs c)" for r
  proof -
    have "r' = r" if "r' \<in> set (tbl_msgs c)" "m_id r' = m_id r" for r'
      using wf that \<open>r \<in> set (tbl_msgs c)\<close> by (auto simp: wf_msgs_def dest: unique_key_inj)
    with that show ?thesis by (auto simp: msgs_with_iff has_tag_def l(2))
  qed
  ultimately show ?thesis by (simp add: destroy_eq)
qed

section \<open>Properties\<close>

text \<open>C5: The label is the authority on what may be destroyed. Neither the deadline sweep, nor
  destroying chosen messages, nor emptying the trash touches the row of a message that does not
  carry the Trash label, whatever deadlines are recorded and whatever ids are named.\<close>

theorem only_trash_is_destroyed:
  assumes "trash_inv c" "wf_msgs c" "r \<in> set (tbl_msgs c)" "\<not> has_tag TRASH c (m_id r)"
  shows "r \<in> set (tbl_msgs (snd (purge c))) \<and> r \<in> set (tbl_msgs (snd (destroy_now ms c))) \<and>
    r \<in> set (tbl_msgs (snd (empty c)))"
proof -
  have keep: "r \<in> set (map (\<lambda>x. if f x then tombstone True x else x) (tbl_msgs c))" if "\<not> f r" for f
    using assms(3) that by force
  have "labels_inv c" using assms(1) by (rule trash_inv_labels)
  then show ?thesis
    unfolding purge_msgs(2) [OF assms(1)] destroy_now_msgs(1) [OF \<open>labels_inv c\<close>] empty_msgs [OF \<open>labels_inv c\<close> assms(2)]
    using assms(4) by (intro conjI keep) (simp_all add: purge_due_def)
qed

text \<open>C6: The recoverable window is exact. A message thrown away at time \<open>t\<close> survives every purge
  before \<open>t\<close> plus the configured number of days and none after it.\<close>

theorem trash_window_exact:
  assumes inv: "trash_inv c" and live: "m \<in> set (live_ids c)" and out: "deadline c m = None"
    and i64: "in_i64 (purge_days c * 86400)" "in_i64 (clock c + purge_days c * 86400)"
  shows "m \<in> set (live_ids (snd (purge ((snd (trash [m] c))\<lparr>clock := now\<rparr>)))) \<longleftrightarrow>
    now < clock c + purge_days c * 86400"
proof -
  have lab: "labels_inv c" using inv by (rule trash_inv_labels)
  let ?c1 = "snd (trash [m] c)" and ?c2 = "(snd (trash [m] c))\<lparr>clock := now\<rparr>"
  have eq: "?c1 = (put_tag Sync TRASH [m] True c)\<lparr>tbl_trashed_msgs :=
      fold (insert_trashed (clock c) (saturating_add (clock c) (purge_secs c)) Deleted) [m] (tbl_trashed_msgs c)\<rparr>"
    by (simp add: trash_def to_trash_eq [OF lab] Let_def)
  have lab2: "labels_inv ?c2"
    by (rule labels_inv_frame [OF labels_inv_put [OF lab, of Sync TRASH "[m]" True]]) (simp_all add: eq)
  have "unique_key t_msg_id (tbl_trashed_msgs ?c2)"
    using inv unfolding eq by (simp add: trash_inv_def insert_trashed_def)
  with lab2 have inv2: "trash_inv ?c2" by (simp add: trash_inv_def)
  have tag: "has_tag TRASH ?c2 m"
    using has_tag_put [OF lab, of TRASH TRASH Sync "[m]" True m] has_tag_cong [of ?c2 "put_tag Sync TRASH [m] True c" TRASH]
    by (simp add: eq)
  have "deadline ?c2 m = Some \<lparr>t_msg_id = m, t_trashed_at = clock c,
      t_purge_at = saturating_add (clock c) (purge_secs c), t_reason = 0\<rparr>"
    using out find_fold_insert_trashed [of m "clock c" "saturating_add (clock c) (purge_secs c)" Deleted "[m]" "tbl_trashed_msgs c"]
    by (simp add: deadline_def eq)
  moreover have "saturating_add (clock c) (purge_secs c) = clock c + purge_days c * 86400"
    using i64 by (simp add: saturating_add_def purge_secs_def saturating_mul_def sat64_id)
  ultimately have "purge_due ?c2 m \<longleftrightarrow> clock c + purge_days c * 86400 \<le> now"
    using tag by (simp add: purge_due_def)
  moreover have "m \<in> set (live_ids ?c2)" using live by (simp add: live_ids_def eq)
  moreover have "m \<in> set (live_ids (snd (purge ?c2))) \<longleftrightarrow> m \<in> set (live_ids ?c2) \<and> \<not> purge_due ?c2 m"
    using live_destroyed [of "snd (purge ?c2)" "{x. purge_due ?c2 x}" True ?c2 m] purge_msgs(2) [OF inv2] by simp
  ultimately show ?thesis by auto
qed

definition sample_mail :: ctx where
  "sample_mail = fresh_db\<lparr>clock := 1000, tbl_config := (\<lambda>k. if k = Config_TrashPurgeDays then Some ''30'' else None),
     tbl_msgs := [(default_msg 10)\<lparr>m_chat_id := 10, m_state := InSeen, m_ephemeral_timestamp := 900\<rparr>,
                  (default_msg 11)\<lparr>m_chat_id := 10, m_state := InSeen\<rparr>]\<rparr>"

lemma sample_mail_inv: "trash_inv sample_mail" "wf_msgs sample_mail"
proof -
  have "labels_inv sample_mail" by (rule labels_inv_frame [OF labels_inv_fresh]) (simp_all add: sample_mail_def)
  then show "trash_inv sample_mail" by (simp add: trash_inv_def) (simp add: sample_mail_def fresh_db_def)
  show "wf_msgs sample_mail" by (simp add: wf_msgs_def unique_key_def sample_mail_def default_msg_def)
qed

theorem only_trash_is_destroyed_witness:
  "let r = (default_msg 11)\<lparr>m_chat_id := 10, m_state := InSeen\<rparr>
   in r \<in> set (tbl_msgs (snd (purge sample_mail))) \<and> r \<in> set (tbl_msgs (snd (destroy_now [10, 11] sample_mail))) \<and>
      r \<in> set (tbl_msgs (snd (empty sample_mail)))"
proof -
  let ?r = "(default_msg 11)\<lparr>m_chat_id := 10, m_state := InSeen\<rparr>"
  have r: "?r \<in> set (tbl_msgs sample_mail)" by (simp add: sample_mail_def)
  have "tbl_msg_labels sample_mail = []" by (simp add: sample_mail_def fresh_db_def)
  then have "\<not> has_tag TRASH sample_mail (m_id ?r)" by (simp add: has_tag_def split: option.splits)
  from only_trash_is_destroyed [OF sample_mail_inv r this] show ?thesis by (simp add: Let_def)
qed

theorem trash_window_exact_witness:
  "11 \<in> set (live_ids (snd (purge ((snd (trash [11] sample_mail))\<lparr>clock := 2592999\<rparr>)))) \<and>
   11 \<notin> set (live_ids (snd (purge ((snd (trash [11] sample_mail))\<lparr>clock := 2593000\<rparr>))))"
proof -
  have days: "purge_days sample_mail = 30" by code_simp
  have clk: "clock sample_mail = 1000" by (simp add: sample_mail_def)
  have live: "11 \<in> set (live_ids sample_mail)" by code_simp
  have out: "deadline sample_mail 11 = None" by (simp add: deadline_def sample_mail_def fresh_db_def)
  have i64: "in_i64 (purge_days sample_mail * 86400)" "in_i64 (clock sample_mail + purge_days sample_mail * 86400)"
    by (simp_all add: days clk in_i64_def i64_min_def i64_max_def)
  note ex = trash_window_exact [OF sample_mail_inv(1) live out i64]
  show ?thesis using ex [of 2592999] ex [of 2593000] by (simp add: days clk)
qed

text \<open>Throwing a message away again never moves its deadline: one already in the trash keeps the
  row it has, one that is not gets a deadline counted from now, and the label is put on all.\<close>

lemma to_trash_keeps_deadline:
  assumes "labels_inv c"
  shows "fst (to_trash ms why now c) = Ok () \<and>
    deadline (snd (to_trash ms why now c)) m =
      (case deadline c m of Some d \<Rightarrow> Some d
       | None \<Rightarrow> if m \<in> set ms then Some \<lparr>t_msg_id = m, t_trashed_at = now,
           t_purge_at = saturating_add now (purge_secs c), t_reason = reason_num why\<rparr> else None) \<and>
    (has_tag TRASH (snd (to_trash ms why now c)) m \<longleftrightarrow> m \<in> set ms \<or> has_tag TRASH c m) \<and>
    tbl_msgs (snd (to_trash ms why now c)) = tbl_msgs c"
proof -
  let ?sy = "if why = Deleted then Sync else Nosync"
  have "has_tag TRASH (snd (to_trash ms why now c)) m = has_tag TRASH (put_tag ?sy TRASH ms True c) m"
    using has_tag_cong [of "snd (to_trash ms why now c)" "put_tag ?sy TRASH ms True c" TRASH]
    by (simp add: to_trash_eq [OF assms] Let_def)
  then show ?thesis
    by (auto simp: to_trash_eq [OF assms] Let_def deadline_def find_fold_insert_trashed has_tag_put [OF assms]
        split: option.splits)
qed

lemma timer_fired_cleared: "filter (timer_fired now) (tbl_msgs (clear_ephemeral (map m_id (filter (timer_fired now) (tbl_msgs c))) c)) = []"
  by (auto simp: tbl_msgs_clear_ephemeral filter_empty_conv timer_fired_def)

lemma live_clear_ephemeral: "live_ids (clear_ephemeral ms c) = live_ids c"
  by (simp add: live_ids_def tbl_msgs_clear_ephemeral filter_map comp_def if_distrib cong: if_cong)

text \<open>A message older than \<open>delete_device_after\<close> allows, outside the chats with oneself and the device.\<close>

definition device_aged :: "int \<Rightarrow> ctx \<Rightarrow> msg_row \<Rightarrow> bool" where
  "device_aged now c r \<longleftrightarrow>
    (case get_config_delete_device_after c of None \<Rightarrow> False
     | Some d \<Rightarrow> m_timestamp r < saturating_sub now d \<and> m_timestamp_rcvd r < saturating_sub now d \<and> m_chat_id r > 9 \<and>
         (\<forall>i \<in> {CONTACT_SELF, CONTACT_DEVICE}. m_chat_id r \<noteq> chat_id_or_default (lookup_by_contact c i)))"

lemma select_expired_iff:
  "m \<in> set (select_expired_messages now c) \<longleftrightarrow> (\<exists>r \<in> set (tbl_msgs c). m_id r = m \<and> (timer_fired now r \<or> device_aged now c r))"
  by (auto simp: select_expired_messages_def device_aged_def Let_def split: option.split)

lemma device_aged_cong:
  assumes "env_var c' = env_var c" "tbl_config c' = tbl_config c" "tbl_chats c' = tbl_chats c" "tbl_chats_contacts c' = tbl_chats_contacts c"
  shows "device_aged now c' = device_aged now c"
proof -
  have "get_config_delete_device_after c' = get_config_delete_device_after c"
    using get_config_int_frame [OF assms(1,2)] by (simp add: get_config_delete_device_after_def)
  moreover have "lookup_by_contact c' = lookup_by_contact c" by (simp add: fun_eq_iff lookup_by_contact_def assms(3,4))
  ultimately show ?thesis unfolding device_aged_def fun_eq_iff by (simp only:) simp
qed

text \<open>What diverting leaves for core's sweep.\<close>

lemma divert_eq:
  fixes now :: int
  assumes inv: "labels_inv c" and days: "purge_days c > 0"
  defines "ex \<equiv> map m_id (filter (timer_fired now) (tbl_msgs c))"
  shows "best_effort (divert now) c = clear_ephemeral ex ((put_tag Nosync TRASH ex True c)\<lparr>tbl_trashed_msgs :=
      fold (insert_trashed now (saturating_add now (purge_secs c)) Expired) ex (tbl_trashed_msgs c)\<rparr>)"
proof -
  have to: "to_trash ex Expired now c = (Ok (), (put_tag Nosync TRASH ex True c)\<lparr>tbl_trashed_msgs :=
      fold (insert_trashed now (saturating_add now (purge_secs c)) Expired) ex (tbl_trashed_msgs c)\<rparr>)"
    by (simp add: to_trash_eq [OF inv])
  show ?thesis
  proof (cases "ex = []")
    case True
    then have "to_trash ex Expired now c = (Ok (), c)" by (simp add: to_trash_def)
    with to have "clear_ephemeral ex ((put_tag Nosync TRASH ex True c)\<lparr>tbl_trashed_msgs :=
      fold (insert_trashed now (saturating_add now (purge_secs c)) Expired) ex (tbl_trashed_msgs c)\<rparr>) = c"
      using True by (simp add: clear_ephemeral_def)
    then show ?thesis using days True by (simp add: best_effort_def divert_def flip: ex_def)
  next
    case False
    then show ?thesis using days by (simp add: best_effort_def divert_def to Let_def flip: ex_def)
  qed
qed

lemma expiry_destroys:
  assumes "labels_inv c" "m \<in> set (live_ids c)"
  shows "m \<notin> set (live_ids (delete_expired_messages now c)) \<longleftrightarrow>
    (\<exists>r \<in> set (tbl_msgs c). m_id r = m \<and> (purge_days c \<le> 0 \<and> timer_fired now r \<or> device_aged now c r))"
proof -
  define c1 where "c1 = best_effort (divert now) c"
  have "tbl_msgs (delete_expired_messages now c) =
      map (\<lambda>r. if m_id r \<in> set (select_expired_messages now c1) then tombstone False r else r) (tbl_msgs c1)"
    by (simp add: delete_expired_messages_def Let_def c1_def fold_trash_eq)
  note live = live_destroyed [OF this, of m]
  show ?thesis
  proof (cases "purge_days c > 0")
    case True
    note c1 = c1_def [unfolded divert_eq [OF assms(1) True]]
    have "live_ids c1 = live_ids c" unfolding c1 live_clear_ephemeral by (simp add: live_ids_def)
    moreover have "device_aged now c1 = device_aged now c" by (rule device_aged_cong) (simp_all add: c1 clear_ephemeral_def)
    moreover have "\<not> timer_fired now r" if "r \<in> set (tbl_msgs c1)" for r
      using that by (auto simp: c1 tbl_msgs_clear_ephemeral timer_fired_def)
    moreover have "(\<exists>r \<in> set (tbl_msgs c1). m_id r = m \<and> device_aged now c r) \<longleftrightarrow>
        (\<exists>r \<in> set (tbl_msgs c). m_id r = m \<and> device_aged now c r)"
    proof -
      have "device_aged now c (r\<lparr>m_ephemeral_timestamp := 0\<rparr>) = device_aged now c r" for r by (simp add: device_aged_def split: option.split)
      then have "m_id (if p then r\<lparr>m_ephemeral_timestamp := 0\<rparr> else r) = m_id r"
        "device_aged now c (if p then r\<lparr>m_ephemeral_timestamp := 0\<rparr> else r) = device_aged now c r" for p r by simp_all
      then show ?thesis by (simp only: c1 tbl_msgs_clear_ephemeral set_map bex_simps) simp
    qed
    ultimately show ?thesis using live assms(2) True by (auto simp: select_expired_iff)
  next
    case False
    then have "c1 = c" by (simp add: c1_def best_effort_def divert_def)
    then show ?thesis using live assms(2) False by (auto simp: select_expired_iff)
  qed
qed

text \<open>C7: What core's expiry sweep does to a message. With a positive recoverable window, a fired timer moves the message
  to the trash instead of destroying it: it ends up with the Trash label, a deadline and its own countdown
  cleared. A message is destroyed by the sweep exactly if the window is zero or less and its timer has fired, or if
  it is older than \<open>delete_device_after\<close> allows, which is never diverted.\<close>

theorem expiry_is_diverted:
  fixes now :: int
  assumes inv: "labels_inv c"
  defines "c' \<equiv> delete_expired_messages now c"
  shows "(purge_days c > 0 \<longrightarrow>
       (\<forall>r \<in> set (tbl_msgs c). timer_fired now r \<longrightarrow> has_tag TRASH c' (m_id r) \<and> deadline c' (m_id r) \<noteq> None) \<and>
       (\<forall>r \<in> set (tbl_msgs c'). \<not> timer_fired now r)) \<and>
    (\<forall>m \<in> set (live_ids c). m \<notin> set (live_ids c') \<longleftrightarrow>
       (\<exists>r \<in> set (tbl_msgs c). m_id r = m \<and> (purge_days c \<le> 0 \<and> timer_fired now r \<or> device_aged now c r)))"
proof (intro conjI impI ballI)
  fix m assume "m \<in> set (live_ids c)"
  then show "m \<notin> set (live_ids c') \<longleftrightarrow>
       (\<exists>r \<in> set (tbl_msgs c). m_id r = m \<and> (purge_days c \<le> 0 \<and> timer_fired now r \<or> device_aged now c r))"
    unfolding c'_def by (rule expiry_destroys [OF inv])
next
  assume days: "purge_days c > 0"
  let ?ex = "map m_id (filter (timer_fired now) (tbl_msgs c))"
  define c1 where "c1 = best_effort (divert now) c"
  note c1 = c1_def [unfolded divert_eq [OF inv days]]
  have c': "c' = c1\<lparr>tbl_msgs := map (\<lambda>r. if m_id r \<in> set (select_expired_messages now c1) then tombstone False r else r) (tbl_msgs c1)\<rparr>"
    by (simp add: c'_def delete_expired_messages_def Let_def c1_def fold_trash_eq)
  {
    fix r assume "r \<in> set (tbl_msgs c)" "timer_fired now r"
    then have r: "m_id r \<in> set ?ex" by simp
    show "has_tag TRASH c' (m_id r)"
      using r has_tag_put [OF inv, of TRASH TRASH Nosync ?ex True "m_id r"] has_tag_cong [of c' "put_tag Nosync TRASH ?ex True c" TRASH]
      by (simp add: c' c1)
    show "deadline c' (m_id r) \<noteq> None" using r by (simp add: c' c1 deadline_def find_fold_insert_trashed split: option.splits)
  next
    fix r assume "r \<in> set (tbl_msgs c')"
    then show "\<not> timer_fired now r"
      by (auto simp: c' c1 tbl_msgs_clear_ephemeral timer_fired_def tombstone_def)
  }
qed

theorem expiry_is_diverted_witness:
  "live_ids sample_mail = [10, 11] \<and> 10 \<in> set (live_ids (delete_expired_messages 1000 sample_mail)) \<and>
   has_tag TRASH (delete_expired_messages 1000 sample_mail) 10"
proof -
  have days: "purge_days sample_mail > 0" by code_simp
  have off: "get_config_delete_device_after sample_mail = None" by code_simp
  have ids: "live_ids sample_mail = [10, 11]" by code_simp
  let ?r = "(default_msg 10)\<lparr>m_chat_id := 10, m_state := InSeen, m_ephemeral_timestamp := 900\<rparr>"
  have "?r \<in> set (tbl_msgs sample_mail)" "timer_fired 1000 ?r" "m_id ?r = 10"
    by (simp_all add: sample_mail_def timer_fired_def default_msg_def DC_CHAT_ID_TRASH_def)
  with expiry_is_diverted [OF trash_inv_labels [OF sample_mail_inv(1)], of 1000] days ids show ?thesis
    by (auto simp: device_aged_def off)
qed

lemma restore_eq:
  assumes "labels_inv c"
  shows "restore ms c = (Ok (), clear_ephemeral ms ((put_tag Sync TRASH ms False c)\<lparr>tbl_trashed_msgs :=
    delete_where (\<lambda>r. t_msg_id r \<in> set ms) (tbl_trashed_msgs c)\<rparr>))"
proof -
  obtain l where l: "reserved c TRASH = Ok l" using reserved_Ok [OF assms, of TRASH] by auto
  show ?thesis
  proof (cases "ms = []")
    case True
    have "put_tag Sync TRASH [] False c = c" by (simp add: put_tag_def set_reserved_def l set_ext_def)
    with True show ?thesis by (simp add: restore_def clear_ephemeral_def delete_where_def)
  next
    case False
    then show ?thesis by (simp add: restore_def l put_tag_def set_reserved_def fold_delete_ids Let_def)
  qed
qed

text \<open>C8: Restoring undoes throwing away: the messages carry no Trash label, no deadline and no
  running countdown, their rows are otherwise untouched, and no purge at any later time destroys
  them. The trash of every other message is as before.\<close>

theorem restore_recovers:
  assumes inv: "trash_inv c"
  shows "let c' = snd (restore ms (snd (trash ms c))) in
    (\<forall>m \<in> set ms. \<not> has_tag TRASH c' m \<and> deadline c' m = None) \<and>
    (\<forall>m. m \<notin> set ms \<longrightarrow> has_tag TRASH c' m = has_tag TRASH c m \<and> deadline c' m = deadline c m) \<and>
    tbl_msgs (snd (purge (c'\<lparr>clock := now\<rparr>))) =
      map (\<lambda>r. if m_id r \<in> set ms then r\<lparr>m_ephemeral_timestamp := 0\<rparr>
               else if purge_due (c\<lparr>clock := now\<rparr>) (m_id r) then tombstone True r else r) (tbl_msgs c)"
proof -
  have lab: "labels_inv c" using inv by (rule trash_inv_labels)
  define c1 where "c1 = snd (trash ms c)"
  define c' where "c' = snd (restore ms (snd (trash ms c)))"
  have c1: "c1 = (put_tag Sync TRASH ms True c)\<lparr>tbl_trashed_msgs :=
      fold (insert_trashed (clock c) (saturating_add (clock c) (purge_secs c)) Deleted) ms (tbl_trashed_msgs c)\<rparr>"
    by (simp add: c1_def trash_def to_trash_eq [OF lab] Let_def)
  have lab1: "labels_inv c1"
    by (rule labels_inv_frame [OF labels_inv_put [OF lab, of Sync TRASH ms True]]) (simp_all add: c1)
  have c': "c' = clear_ephemeral ms ((put_tag Sync TRASH ms False c1)\<lparr>tbl_trashed_msgs :=
      delete_where (\<lambda>r. t_msg_id r \<in> set ms) (tbl_trashed_msgs c1)\<rparr>)"
    unfolding c'_def c1_def [symmetric] by (simp add: restore_eq [OF lab1])
  have tag: "has_tag TRASH c' m \<longleftrightarrow> m \<notin> set ms \<and> has_tag TRASH c m" for m
    using has_tag_cong [of c' "put_tag Sync TRASH ms False c1" TRASH] has_tag_put [OF lab1, of TRASH TRASH Sync ms False m]
      has_tag_cong [of c1 "put_tag Sync TRASH ms True c" TRASH] has_tag_put [OF lab, of TRASH TRASH Sync ms True m]
    by (auto simp: c' c1)
  have dl: "deadline c' m = (if m \<in> set ms then None else deadline c m)" for m
    by (simp add: c' c1 deadline_def find_delete_ids find_fold_insert_trashed split: option.split)
  have lab': "labels_inv c'"
    by (rule labels_inv_frame [OF labels_inv_put [OF lab1, of Sync TRASH ms False]]) (simp_all add: c')
  have "unique_key t_msg_id (tbl_trashed_msgs c')"
    using inv by (auto simp: c' c1 trash_inv_def intro!: unique_fold_insert_trashed)
  with lab' have inv2: "trash_inv (c'\<lparr>clock := now\<rparr>)"
    by (auto simp: trash_inv_def intro: labels_inv_frame)
  have days: "purge_secs (c'\<lparr>clock := now\<rparr>) = purge_secs (c\<lparr>clock := now\<rparr>)"
    unfolding purge_secs_def purge_days_def
    by (subst get_config_int_frame [of "c'\<lparr>clock := now\<rparr>" "c\<lparr>clock := now\<rparr>"]) (simp_all add: c' c1)
  have due: "purge_due (c'\<lparr>clock := now\<rparr>) m \<longleftrightarrow> m \<notin> set ms \<and> purge_due (c\<lparr>clock := now\<rparr>) m" for m
    using tag [of m] dl [of m] has_tag_cong [of "c'\<lparr>clock := now\<rparr>" c' TRASH] has_tag_cong [of "c\<lparr>clock := now\<rparr>" c TRASH]
    by (simp add: purge_due_def deadline_def days split: option.splits)
  have "tbl_msgs c' = map (\<lambda>r. if m_id r \<in> set ms then r\<lparr>m_ephemeral_timestamp := 0\<rparr> else r) (tbl_msgs c)"
    by (simp add: c' c1 tbl_msgs_clear_ephemeral)
  then have "tbl_msgs (snd (purge (c'\<lparr>clock := now\<rparr>))) =
      map (\<lambda>r. if m_id r \<in> set ms then r\<lparr>m_ephemeral_timestamp := 0\<rparr>
               else if purge_due (c\<lparr>clock := now\<rparr>) (m_id r) then tombstone True r else r) (tbl_msgs c)"
    by (simp add: purge_msgs(2) [OF inv2] due)
  then show ?thesis using tag dl by (simp add: Let_def flip: c'_def)
qed

theorem restore_recovers_witness:
  "live_ids (snd (purge ((snd (restore [11] (snd (trash [11] sample_mail))))\<lparr>clock := 9000000\<rparr>))) = [10, 11]"
proof -
  have "tbl_msg_labels sample_mail = []" by (simp add: sample_mail_def fresh_db_def)
  then have "\<not> purge_due (sample_mail\<lparr>clock := 9000000\<rparr>) m" for m
    by (simp add: purge_due_def has_tag_def split: option.splits)
  with restore_recovers [OF sample_mail_inv(1), of "[11]" 9000000] show ?thesis
    by (simp add: Let_def live_ids_def sample_mail_def default_msg_def DC_CHAT_ID_TRASH_def)
qed

text \<open>C9: What a window set in days reads back as: the number itself below $2^{31}$, negative numbers
  as zero, and anything from $2^{31}$ on also as zero, because the stored text no longer parses as
  the 32-bit value it is read as. Zero means that trashed mail is destroyed at the next purge.\<close>

theorem purge_days_read_back:
  assumes "env_var c Config_TrashPurgeDays = None"
  shows "purge_days (snd (set_purge_days d c)) = (if d < 0 \<or> d \<ge> 2 ^ 31 then 0 else d)"
  using get_config_int_set [of Config_TrashPurgeDays "max d 0" c] assms
  by (auto simp: purge_days_def set_purge_days_def check_config_def)

theorem purge_days_read_back_witness:
  "purge_days (snd (set_purge_days 45 fresh_db)) = 45 \<and> purge_days (snd (set_purge_days (2 ^ 31) fresh_db)) = 0"
proof -
  have "env_var fresh_db Config_TrashPurgeDays = None" by (simp add: fresh_db_def)
  from purge_days_read_back [OF this] show ?thesis by simp
qed

text \<open>What \<open>destroy_now\<close> returns and does: it destroys exactly the named messages that carry the
  Trash label and returns how many of the named ids carry it. The label outlives the message until
  the labels are pruned, so asking for the same message twice counts it twice.\<close>

lemma destroy_now_count:
  assumes "labels_inv c"
  shows "fst (destroy_now ms c) = Ok (length (filter (has_tag TRASH c) ms)) \<and>
    (\<forall>m. m \<in> set (live_ids (snd (destroy_now ms c))) \<longleftrightarrow> m \<in> set (live_ids c) \<and> \<not> (m \<in> set ms \<and> has_tag TRASH c m)) \<and>
    fst (destroy_now ms (snd (destroy_now ms c))) = fst (destroy_now ms c)"
proof -
  let ?c = "snd (destroy_now ms c)"
  have fr: "tbl_labels ?c = tbl_labels c \<and> labels_seq ?c = labels_seq c \<and> tbl_msg_labels ?c = tbl_msg_labels c \<and>
      tbl_pending_msg_labels ?c = tbl_pending_msg_labels c"
  proof -
    obtain t where "reconcile (clock c) c = (Ok (), c\<lparr>tbl_trashed_msgs := t\<rparr>)"
      using reconcile_eq [OF assms, of "clock c"] by metis
    then show ?thesis by (simp add: destroy_now_def destroy_eq)
  qed
  then have "labels_inv ?c" using assms by (auto intro: labels_inv_frame)
  moreover have "has_tag TRASH ?c = has_tag TRASH c" using fr by (intro has_tag_cong) simp_all
  moreover have "m \<in> set (live_ids ?c) \<longleftrightarrow> m \<in> set (live_ids c) \<and> \<not> (m \<in> set ms \<and> has_tag TRASH c m)" for m
    using live_destroyed [of ?c "{x. x \<in> set ms \<and> has_tag TRASH c x}" True c m] destroy_now_msgs(1) [OF assms] by simp
  ultimately show ?thesis using destroy_now_msgs(2) [OF assms] destroy_now_msgs(2) [of ?c] by simp
qed

end
