(* ===== verification/Addresses.thy ===== *)
theory Addresses
  imports Prelude
begin

text \<open>
  The address functions of \<open>deltachat-contact-tools\<close>. The bidirectional control characters that
  \<open>sanitize_bidi_characters\<close> removes lie outside the character range of the model, on which that
  function is the identity.
\<close>

definition sanitize_single_line :: "string \<Rightarrow> string" where
  "sanitize_single_line s =
    trim (map (\<lambda>c. if c = char_of (10 :: nat) \<or> c = char_of (13 :: nat) then CHR '' '' else c) s)"

definition quoted :: "char \<Rightarrow> char \<Rightarrow> string \<Rightarrow> bool" where
  "quoted a b s \<longleftrightarrow> length s \<ge> 2 \<and> hd s = a \<and> last s = b"

definition sanitize_name :: "string \<Rightarrow> string" where
  "sanitize_name name =
    (let s = sanitize_single_line name; q = char_of (39 :: nat); dq = char_of (34 :: nat) in
     if quoted q q s \<or> quoted dq dq s \<or> quoted (CHR ''<'') (CHR ''>'') s
     then trim (butlast (tl s)) else s)"

definition addr_normalize :: "string \<Rightarrow> string" where
  "addr_normalize addr =
    (let norm = to_lowercase (trim addr) in
     case strip_prefix ''mailto:'' norm of Some rest \<Rightarrow> rest | None \<Rightarrow> norm)"

definition addr_cmp :: "string \<Rightarrow> string \<Rightarrow> bool" where
  "addr_cmp a b \<longleftrightarrow> addr_normalize a = addr_normalize b"

record email_address =
  ea_local :: string
  ea_domain :: string

definition email_address_new :: "string \<Rightarrow> email_address result" where
  "email_address_new input =
    (if input = [] then Err EmptyAddress
     else if list_ex (\<lambda>c. is_whitespace c \<or> c = CHR ''<'' \<or> c = CHR ''>'') input then Err (InvalidAddress input)
     else case rsplit_once (CHR ''@'') input of
         None \<Rightarrow> Err (InvalidAddress input)
       | Some (local, domain) \<Rightarrow>
           if local = [] \<or> domain = [] \<or> last domain = CHR ''.'' then Err (InvalidAddress input)
           else Ok \<lparr>ea_local = local, ea_domain = domain\<rparr>)"

definition email_address_show :: "email_address \<Rightarrow> string" where
  "email_address_show a = ea_local a @ CHR ''@'' # ea_domain a"

definition may_be_valid_addr :: "string \<Rightarrow> bool" where
  "may_be_valid_addr addr = is_ok (email_address_new addr)"

definition contact_address_new :: "string \<Rightarrow> string result" where
  "contact_address_new s =
    (let addr = addr_normalize s in if may_be_valid_addr addr then Ok addr else Err (InvalidAddress s))"

lemma addr_cmp_equiv: "addr_cmp a a" "addr_cmp a b \<Longrightarrow> addr_cmp b a" "addr_cmp a b \<Longrightarrow> addr_cmp b c \<Longrightarrow> addr_cmp a c"
  by (simp_all add: addr_cmp_def)

lemma to_lowercase_addr_normalize [simp]: "to_lowercase (addr_normalize a) = addr_normalize a"
proof -
  have "to_lowercase r = r" if "strip_prefix p (to_lowercase s) = Some r" for p s r
  proof -
    have eq: "to_lowercase s = p @ r" using that by (simp add: strip_prefix_Some_iff)
    then have "to_lowercase (p @ r) = p @ r" by (metis to_lowercase_idem)
    then have "map lower_char p @ map lower_char r = p @ r" by (simp add: to_lowercase_def)
    then have "map lower_char r = r" by (simp add: append_eq_append_conv)
    then show ?thesis by (simp add: to_lowercase_def)
  qed
  then show ?thesis by (auto simp: addr_normalize_def Let_def split: option.splits)
qed

text \<open>Parsing an address and printing it are inverse to each other: a string parses to an
  address exactly if it is that address printed, with both parts non-empty, the domain free of the
  at sign and not ending in a dot, and no white space or angle bracket anywhere. The domain is what
  follows the last at sign.\<close>

lemma email_address_round_trip:
  "email_address_new s = Ok a \<longleftrightarrow>
     s = email_address_show a \<and> ea_local a \<noteq> [] \<and> ea_domain a \<noteq> [] \<and> last (ea_domain a) \<noteq> CHR ''.'' \<and>
     CHR ''@'' \<notin> set (ea_domain a) \<and> \<not> list_ex (\<lambda>c. is_whitespace c \<or> c = CHR ''<'' \<or> c = CHR ''>'') s"
proof -
  have "email_address_new s = Ok a \<longleftrightarrow>
      s \<noteq> [] \<and> \<not> list_ex (\<lambda>c. is_whitespace c \<or> c = CHR ''<'' \<or> c = CHR ''>'') s \<and>
      rsplit_once (CHR ''@'') s = Some (ea_local a, ea_domain a) \<and>
      ea_local a \<noteq> [] \<and> ea_domain a \<noteq> [] \<and> last (ea_domain a) \<noteq> CHR ''.''"
    by (cases a) (auto simp: email_address_new_def split: if_splits option.splits)
  then show ?thesis by (auto simp: rsplit_once_Some email_address_show_def)
qed

end
