(* ===== verification/Contacts.thy ===== *)
theory Contacts
  imports Messages Addresses
begin

text \<open>
  The parts of \<open>contact.rs\<close>, \<open>chat.rs\<close> and \<open>config.rs\<close> the email layer asks about
  correspondents: loading a contact, verification, blocking, the members of a chat, and the
  account's own addresses. The localised names and the status that \<open>get_by_id_optional\<close> puts over
  the rows of self and device are not modelled.
\<close>

definition find_contact :: "ctx \<Rightarrow> contact_id \<Rightarrow> contact_row option" where
  "find_contact c i = List.find (\<lambda>r. c_id r = i) (tbl_contacts c)"

definition get_by_id_optional :: "ctx \<Rightarrow> contact_id \<Rightarrow> contact_row option" where
  "get_by_id_optional c i =
    (case find_contact c i of None \<Rightarrow> None
     | Some r \<Rightarrow>
         Some (if i = CONTACT_SELF
               then r\<lparr>c_addr := (case configured_addr c of None \<Rightarrow> [] | Some a \<Rightarrow> a)\<rparr>
               else if i = CONTACT_DEVICE then r\<lparr>c_addr := ''device@localhost''\<rparr> else r))"

definition get_by_id :: "ctx \<Rightarrow> contact_id \<Rightarrow> contact_row result" where
  "get_by_id c i = (case get_by_id_optional c i of Some r \<Rightarrow> Ok r | None \<Rightarrow> Err (ContactNotFound i))"

definition get_display_name :: "contact_row \<Rightarrow> string" where
  "get_display_name r =
    (if c_name r \<noteq> [] then c_name r else if c_authname r \<noteq> [] then c_authname r else c_addr r)"

definition get_verifier_id :: "ctx \<Rightarrow> contact_row \<Rightarrow> contact_id option option result" where
  "get_verifier_id c r =
    (case find_contact c (c_id r) of
       None \<Rightarrow> Err (ContactNotFound (c_id r))
     | Some x \<Rightarrow> Ok (if c_verifier x = 0 then None
                    else if c_verifier x = c_id r then Some None else Some (Some (c_verifier x))))"

definition is_verified :: "ctx \<Rightarrow> contact_row \<Rightarrow> bool result" where
  "is_verified c r =
    (if c_id r = CONTACT_SELF then Ok True
     else case get_verifier_id c r of Ok v \<Rightarrow> Ok (v \<noteq> None) | Err e \<Rightarrow> Err e)"

text \<open>\<open>Fingerprint::from_str\<close>: the hexadecimal digits, if they make 20 or 32 bytes.\<close>

definition is_hexdigit :: "char \<Rightarrow> bool" where
  "is_hexdigit c \<longleftrightarrow> (let n = of_char c :: nat in (48 \<le> n \<and> n \<le> 57) \<or> (65 \<le> n \<and> n \<le> 70))"

definition ascii_upper_char :: "char \<Rightarrow> char" where
  "ascii_upper_char c = (let n = of_char c :: nat in if 97 \<le> n \<and> n \<le> 122 then char_of (n - 32) else c)"

definition contact_fingerprint :: "contact_row \<Rightarrow> string option" where
  "contact_fingerprint r =
    (let h = filter is_hexdigit (map ascii_upper_char (c_fingerprint r)) in
     if c_fingerprint r \<noteq> [] \<and> (length h = 40 \<or> length h = 64) then Some h else None)"

definition mark_noticed :: "contact_id \<Rightarrow> ctx \<Rightarrow> ctx" where
  "mark_noticed i c =
    c\<lparr>tbl_msgs := update_where (\<lambda>r. m_from_id r = i \<and> m_state r = InFresh) (\<lambda>r. r\<lparr>m_state := InNoticed\<rparr>) (tbl_msgs c)\<rparr>"

definition get_chat_id_by_grpid :: "ctx \<Rightarrow> string \<Rightarrow> chat_row option" where
  "get_chat_id_by_grpid c g = List.find (\<lambda>ch. ch_grpid ch = g) (tbl_chats c)"

text \<open>\<open>ChatId::set_blocked\<close> for \<open>Blocked::Not\<close>, as \<open>unblock_ext\<close> without syncing calls it.\<close>

definition unblock_chat :: "chat_id \<Rightarrow> (ctx, unit) eff" where
  "unblock_chat i c =
    (if is_special_chat i then (Err (SpecialChat i), c)
     else (Ok (), c\<lparr>tbl_chats := update_where (\<lambda>ch. ch_id ch = i \<and> ch_blocked ch \<noteq> 0) (\<lambda>ch. ch\<lparr>ch_blocked := 0\<rparr>) (tbl_chats c)\<rparr>))"

definition set_blocked :: "sync \<Rightarrow> contact_id \<Rightarrow> bool \<Rightarrow> (ctx, unit) eff" where
  "set_blocked sy i new c =
    (if is_special_contact i then (Err (SpecialContact i), c)
     else case get_by_id c i of
       Err e \<Rightarrow> (Err e, c)
     | Ok contact \<Rightarrow>
         if c_blocked contact = new then (Ok (), c)
         else
           let c1 = c\<lparr>tbl_contacts := update_where (\<lambda>r. c_id r = i) (\<lambda>r. r\<lparr>c_blocked := new\<rparr>) (tbl_contacts c)\<rparr>;
               c2 = c1\<lparr>tbl_chats := update_where
                      (\<lambda>ch. ch_type ch = Single \<and>
                         list_ex (\<lambda>j. cc_chat_id j = ch_id ch \<and> cc_contact_id j = i) (tbl_chats_contacts c1))
                      (\<lambda>ch. ch\<lparr>ch_blocked := (if new then 1 else 0)\<rparr>) (tbl_chats c1)\<rparr>;
               c3 = mark_noticed i c2;
               mail = (if \<not> new \<and> c_origin contact = MailinglistAddress
                       then (case get_chat_id_by_grpid c3 (c_addr contact) of
                               Some ch \<Rightarrow> unblock_chat (ch_id ch) c3 | None \<Rightarrow> (Ok (), c3))
                       else (Ok (), c3))
           in (case mail of
                 (Err e, c4) \<Rightarrow> (Err e, c4)
               | (Ok _, c4) \<Rightarrow>
                   let sid = (case contact_fingerprint contact of
                       Some fp \<Rightarrow> ContactFingerprint fp | None \<Rightarrow> ContactAddr (c_addr contact))
                   in (Ok (), if sy = Sync then add_sync_item (AlterChat sid new) c4 else c4)))"

definition block :: "contact_id \<Rightarrow> (ctx, unit) eff" where "block i = set_blocked Sync i True"
definition unblock :: "contact_id \<Rightarrow> (ctx, unit) eff" where "unblock i = set_blocked Sync i False"

text \<open>\<open>addr\<close> is a \<open>COLLATE NOCASE\<close> column: it is compared without ASCII case.\<close>

definition addr_eq :: "string \<Rightarrow> contact_row \<Rightarrow> bool" where
  "addr_eq a r \<longleftrightarrow> eq_ignore_ascii_case (c_addr r) a"

definition update_blocked_mailinglist :: "chat_row \<Rightarrow> ctx \<Rightarrow> ctx" where
  "update_blocked_mailinglist ch c =
    (let c1 = (if list_ex (addr_eq (ch_grpid ch)) (tbl_contacts c) then c
               else c\<lparr>tbl_contacts := tbl_contacts c @ [\<lparr>c_id = Suc (contacts_seq c), c_name = [], c_authname = [],
                        c_addr = ch_grpid ch, c_origin = Unknown, c_blocked = False, c_last_seen = 0,
                        c_fingerprint = [], c_verifier = 0\<rparr>],
                      contacts_seq := Suc (contacts_seq c)\<rparr>)
     in c1\<lparr>tbl_contacts := update_where (addr_eq (ch_grpid ch))
           (\<lambda>r. r\<lparr>c_name := ch_name ch, c_origin := MailinglistAddress, c_blocked := True,
                  c_fingerprint := (if ch_type ch = InBroadcast then ''Blocked_broadcast'' else [])\<rparr>) (tbl_contacts c1)\<rparr>)"

definition update_blocked_mailinglist_contacts :: "ctx \<Rightarrow> ctx" where
  "update_blocked_mailinglist_contacts c =
    fold update_blocked_mailinglist
      (filter (\<lambda>ch. (ch_type ch = Mailinglist \<or> ch_type ch = InBroadcast) \<and> ch_blocked ch = 1) (tbl_chats c)) c"

text \<open>Returns the list of blocked contacts and the state after the pseudo-contacts were added.\<close>

definition get_all_blocked :: "ctx \<Rightarrow> contact_id list \<times> ctx" where
  "get_all_blocked c =
    (let c1 = update_blocked_mailinglist_contacts c
     in (map c_id (sort_key (\<lambda>r. (- c_last_seen r, - int (c_id r)))
           (filter (\<lambda>r. c_id r > CONTACT_LAST_SPECIAL \<and> c_blocked r) (tbl_contacts c1))), c1))"

definition chat_contact_order :: "contact_row option \<Rightarrow> nat \<times> int \<times> int" where
  "chat_contact_order x =
    (case x of None \<Rightarrow> (0, 0, 0)
     | Some r \<Rightarrow> (if c_id r = 1 then 2 else 1, - c_last_seen r, - int (c_id r)))"

definition get_chat_contacts :: "ctx \<Rightarrow> chat_id \<Rightarrow> contact_id list" where
  "get_chat_contacts c i =
    map cc_contact_id (sort_key (\<lambda>j. chat_contact_order (find_contact c (cc_contact_id j)))
      (filter (\<lambda>j. cc_chat_id j = i \<and> cc_add_timestamp j \<ge> cc_remove_timestamp j) (tbl_chats_contacts c)))"

definition get_all_self_addrs :: "ctx \<Rightarrow> string list" where
  "get_all_self_addrs c = map tr_addr (sort_key (\<lambda>t. (- tr_add_timestamp t, - int (tr_id t))) (tbl_transports c))"

definition is_self_addr :: "ctx \<Rightarrow> string \<Rightarrow> bool" where
  "is_self_addr c addr \<longleftrightarrow>
     (addr \<noteq> [] \<and> addr_cmp addr (case configured_addr c of None \<Rightarrow> [] | Some a \<Rightarrow> a)) \<or>
     list_ex (addr_cmp addr) (get_all_self_addrs c)"

section \<open>Lemmas\<close>

definition wf_contacts :: "ctx \<Rightarrow> bool" where "wf_contacts c \<longleftrightarrow> unique_key c_id (tbl_contacts c)"

lemma find_contact_Some: "find_contact c i = Some r \<Longrightarrow> r \<in> set (tbl_contacts c) \<and> c_id r = i"
  unfolding find_contact_def by (rule find_Some_set)

lemma find_contact_row: "wf_contacts c \<Longrightarrow> r \<in> set (tbl_contacts c) \<Longrightarrow> find_contact c (c_id r) = Some r"
  unfolding find_contact_def wf_contacts_def by (rule find_unique)

lemma get_by_id_c_id: "get_by_id c i = Ok r \<Longrightarrow> c_id r = i"
  by (auto simp: get_by_id_def get_by_id_optional_def split: option.splits if_splits dest: find_contact_Some)

lemma get_by_id_ordinary:
  "i > CONTACT_LAST_SPECIAL \<Longrightarrow> get_by_id c i = (case find_contact c i of Some r \<Rightarrow> Ok r | None \<Rightarrow> Err (ContactNotFound i))"
  by (simp add: get_by_id_def get_by_id_optional_def id_consts split: option.splits)

end
