(* ===== verification/Gating.thy ===== *)
theory Gating
  imports Trashing Contacts
begin

text \<open>
  \<open>email/gating.rs\<close>: mail from a sender who is neither verified nor known waits under the label
  Unverified until the sender is accepted, and is swept into the trash if that never happens. The
  functions of \<open>contact.rs\<close> by which a sender gains trust are here, since they release held mail.
\<close>

section \<open>Trust\<close>

definition DEFAULT_HOLD_DAYS :: int where "DEFAULT_HOLD_DAYS = 30"

definition hold_days :: "ctx \<Rightarrow> int" where "hold_days c = get_config_int c Config_UnverifiedTrashDays"

definition set_hold_days :: "int \<Rightarrow> (ctx, unit) eff" where
  "set_hold_days days = set_config Config_UnverifiedTrashDays (Some (show_int (max days 0)))"

definition same_person :: "ctx \<Rightarrow> contact_row \<Rightarrow> contact_id list" where
  "same_person c contact =
    (if c_addr contact = [] then []
     else map c_id (filter (\<lambda>r. addr_eq (c_addr contact) r \<and> c_id r \<noteq> c_id contact \<and>
            c_id r > CONTACT_LAST_SPECIAL \<and> \<not> c_blocked r) (tbl_contacts c)))"

definition known_row :: "ctx \<Rightarrow> contact_id \<Rightarrow> bool" where
  "known_row c i = (case get_by_id c i of Ok other \<Rightarrow> is_known (c_origin other) | Err _ \<Rightarrow> False)"

definition is_trusted :: "ctx \<Rightarrow> contact_id \<Rightarrow> bool result" where
  "is_trusted c i =
    (if i = CONTACT_SELF then Ok True
     else case get_by_id c i of
       Err _ \<Rightarrow> Ok False
     | Ok contact \<Rightarrow>
         if is_known (c_origin contact) then Ok True
         else case is_verified c contact of
             Err e \<Rightarrow> Err e
           | Ok v \<Rightarrow> Ok (v \<or> list_ex (known_row c) (same_person c contact)))"

section \<open>Holding and releasing\<close>

definition gating_is_enabled :: "ctx \<Rightarrow> bool" where
  "gating_is_enabled c = get_config_bool c Config_InboxGating"

definition sender_of :: "ctx \<Rightarrow> msg_id \<Rightarrow> (contact_id \<times> bool) option" where
  "sender_of c m = map_option (\<lambda>r. (m_from_id r, m_to_id r = CONTACT_SELF)) (find_msg c m)"

definition gating_apply :: "msg_id \<Rightarrow> (ctx, unit) eff" where
  "gating_apply m c =
    (if \<not> gating_is_enabled c then (Ok (), c)
     else case sender_of c m of
       None \<Rightarrow> (Ok (), c)
     | Some (from_id, incoming) \<Rightarrow>
         if \<not> incoming \<or> from_id = CONTACT_SELF then (Ok (), c)
         else case is_trusted c from_id of
           Err e \<Rightarrow> (Err e, c)
         | Ok True \<Rightarrow> (Ok (), c)
         | Ok False \<Rightarrow>
             (case reserved c UNVERIFIED of
                Err e \<Rightarrow> (Err e, c)
              | Ok l \<Rightarrow>
                  let c1 = set_ext [m] l True Nosync c
                  in (Ok (), c1\<lparr>tbl_held_msgs :=
                        insert_or_ignore h_msg_id \<lparr>h_msg_id = m, h_held_at = clock c\<rparr> (tbl_held_msgs c1)\<rparr>)))"

definition unhold :: "msg_id list \<Rightarrow> (ctx, nat) eff" where
  "unhold ms c =
    (if ms = [] then (Ok 0, c)
     else case reserved c UNVERIFIED of
       Err e \<Rightarrow> (Err e, c)
     | Ok l \<Rightarrow>
         let c1 = set_ext ms l False Nosync c
         in (Ok (length ms),
             c1\<lparr>tbl_held_msgs := fold (\<lambda>m. delete_where (\<lambda>h. h_msg_id h = m)) ms (tbl_held_msgs c1)\<rparr>))"

text \<open>The held messages of one sender row: \<open>held_msgs h JOIN msgs m\<close>.\<close>

definition held_from :: "ctx \<Rightarrow> contact_id \<Rightarrow> msg_id list" where
  "held_from c i =
    [h_msg_id h. h \<leftarrow> tbl_held_msgs c, m \<leftarrow> tbl_msgs c, m_id m = h_msg_id h \<and> m_from_id m = i]"

fun release_rows :: "contact_id list \<Rightarrow> nat \<Rightarrow> (ctx, nat) eff" where
  "release_rows [] n c = (Ok n, c)"
| "release_rows (i # is) n c =
    (case unhold (held_from c i) c of
       (Err e, c1) \<Rightarrow> (Err e, c1)
     | (Ok k, c1) \<Rightarrow> release_rows is (n + k) c1)"

definition sender_rows :: "ctx \<Rightarrow> contact_id \<Rightarrow> contact_id list" where
  "sender_rows c i = i # (case get_by_id c i of Ok contact \<Rightarrow> same_person c contact | Err _ \<Rightarrow> [])"

fun release_loop :: "contact_id list \<Rightarrow> nat \<Rightarrow> (ctx, nat) eff" where
  "release_loop [] n c = (Ok n, c)"
| "release_loop (i # is) n c =
    (if i = CONTACT_SELF then release_loop is n c
     else case is_trusted c i of
       Err e \<Rightarrow> (Err e, c)
     | Ok False \<Rightarrow> release_loop is n c
     | Ok True \<Rightarrow>
         (case release_rows (sender_rows c i) n c of
            (Err e, c1) \<Rightarrow> (Err e, c1)
          | (Ok k, c1) \<Rightarrow> release_loop is k c1))"

definition release :: "contact_id list \<Rightarrow> (ctx, nat) eff" where
  "release ids = release_loop ids 0"

definition release_all :: "(ctx, nat) eff" where
  "release_all c = unhold (map h_msg_id (tbl_held_msgs c)) c"

definition set_enabled :: "bool \<Rightarrow> (ctx, unit) eff" where
  "set_enabled enabled c =
    (case set_config_bool Config_InboxGating enabled c of
       (Err e, c1) \<Rightarrow> (Err e, c1)
     | (Ok _, c1) \<Rightarrow>
         if enabled then (Ok (), c1)
         else (case release_all c1 of (Err e, c2) \<Rightarrow> (Err e, c2) | (Ok _, c2) \<Rightarrow> (Ok (), c2)))"

definition held :: "ctx \<Rightarrow> msg_id list result" where
  "held c = (case reserved c UNVERIFIED of Err e \<Rightarrow> Err e | Ok l \<Rightarrow> Ok (msgs_with c (lab_id l)))"

definition gating_prune :: "(ctx, nat) eff" where
  "gating_prune c =
    (Ok 0, c\<lparr>tbl_held_msgs := delete_where (\<lambda>h. h_msg_id h \<notin> set (live_ids c)) (tbl_held_msgs c)\<rparr>)"

definition sweep :: "(ctx, nat) eff" where
  "sweep c =
    (let days = hold_days c in
     if days \<le> 0 then gating_prune c
     else
       let cutoff = saturating_sub (clock c) (saturating_mul days 86400);
           expired = map h_msg_id (filter (\<lambda>h. h_held_at h \<le> cutoff) (tbl_held_msgs c))
       in if expired = [] then gating_prune c
          else case to_trash expired Unaccepted (clock c) c of
              (Err e, c1) \<Rightarrow> (Err e, c1)
            | (Ok _, c1) \<Rightarrow> unhold expired c1)"

section \<open>Gaining trust\<close>

definition scaleup_origin :: "contact_id list \<Rightarrow> origin \<Rightarrow> ctx \<Rightarrow> ctx" where
  "scaleup_origin ids orig c =
    best_effort (release ids)
      (c\<lparr>tbl_contacts := fold (\<lambda>i. update_where (\<lambda>r. c_id r = i \<and> c_origin r < orig) (\<lambda>r. r\<lparr>c_origin := orig\<rparr>)) ids (tbl_contacts c)\<rparr>)"

definition mark_contact_id_as_verified :: "contact_id \<Rightarrow> contact_id option \<Rightarrow> (ctx, unit) eff" where
  "mark_contact_id_as_verified i verifier c =
    (if i = CONTACT_SELF \<or> verifier = Some i then (Err (NotVerifiable i), c)
     else
       let by_self = (verifier = Some CONTACT_SELF);
           vid = (case verifier of Some v \<Rightarrow> v | None \<Rightarrow> i)
       in case find_contact c i of
         None \<Rightarrow> (Err (ContactNotFound i), c)
       | Some r \<Rightarrow>
           if c_fingerprint r = [] then (Err (NotVerifiable i), c)
           else
             let checked = (if vid = CONTACT_SELF then Ok vid
                 else case find_contact c vid of
                   None \<Rightarrow> Err (ContactNotFound vid)
                 | Some v \<Rightarrow>
                     if c_fingerprint v = [] then Err (NotVerifiable i)
                     else if vid \<noteq> i \<and> c_verifier v = 0 then Err (NotVerifiable i)
                     else Ok (if c_verifier v = vid then i else vid))
             in case checked of
               Err e \<Rightarrow> (Err e, c)
             | Ok v \<Rightarrow>
                 (Ok (), best_effort (release [i])
                   (c\<lparr>tbl_contacts := update_where
                        (\<lambda>x. c_id x = i \<and> (c_verifier x = 0 \<or> c_verifier x = c_id x \<or> by_self))
                        (\<lambda>x. x\<lparr>c_verifier := v\<rparr>) (tbl_contacts c)\<rparr>)))"

section \<open>Lemmas\<close>

lemma is_trusted_total: "\<exists>b. is_trusted c i = Ok b"
proof -
  have "\<exists>v. is_verified c r = Ok v" if "get_by_id c i = Ok r" for r
  proof -
    from that obtain x where "find_contact c i = Some x" by (auto simp: get_by_id_def get_by_id_optional_def split: option.splits)
    with get_by_id_c_id [OF that] show ?thesis by (auto simp: is_verified_def get_verifier_id_def)
  qed
  then show ?thesis by (auto simp: is_trusted_def split: result.splits)
qed

text \<open>Trust, as a condition on the rows. Another ordinary row with the same address vouches for a contact if it is
  known and not blocked; that it is verified does not count.\<close>

definition vouched :: "ctx \<Rightarrow> contact_row \<Rightarrow> bool" where
  "vouched c r \<longleftrightarrow> c_addr r \<noteq> [] \<and>
    (\<exists>x \<in> set (tbl_contacts c). addr_eq (c_addr r) x \<and> c_id x \<noteq> c_id r \<and> c_id x > CONTACT_LAST_SPECIAL \<and> \<not> c_blocked x \<and> is_known (c_origin x))"

lemma find_contact_iff: "wf_contacts c \<Longrightarrow> find_contact c i = Some r \<longleftrightarrow> r \<in> set (tbl_contacts c) \<and> c_id r = i"
  using find_contact_row find_contact_Some by blast

lemma known_row_iff:
  assumes "wf_contacts c" "x \<in> set (tbl_contacts c)" "c_id x > CONTACT_LAST_SPECIAL"
  shows "known_row c (c_id x) \<longleftrightarrow> is_known (c_origin x)"
  using assms by (simp add: known_row_def get_by_id_ordinary find_contact_row)

lemma vouched_iff: "wf_contacts c \<Longrightarrow> list_ex (known_row c) (same_person c r) \<longleftrightarrow> vouched c r"
  using known_row_iff by (auto simp: same_person_def vouched_def list_ex_iff)

lemma is_trusted_iff:
  assumes "wf_contacts c"
  shows "is_trusted c i = Ok True \<longleftrightarrow> i = CONTACT_SELF \<or>
    (\<exists>r x. get_by_id c i = Ok r \<and> find_contact c i = Some x \<and> (is_known (c_origin r) \<or> c_verifier x \<noteq> 0 \<or> vouched c r))"
proof (cases "get_by_id c i")
  case (Ok r)
  then obtain x where "find_contact c i = Some x" by (auto simp: get_by_id_def get_by_id_optional_def split: option.splits)
  with Ok get_by_id_c_id [OF Ok] show ?thesis
    by (auto simp: is_trusted_def vouched_iff [OF assms] is_verified_def get_verifier_id_def)
qed (simp add: is_trusted_def)

text \<open>A sender is trusted on the row the mail came in on, if that is known or verified, or through another row.\<close>

definition trusted_sender :: "ctx \<Rightarrow> contact_id \<Rightarrow> bool" where
  "trusted_sender c i \<longleftrightarrow> (\<exists>r. get_by_id c i = Ok r \<and> (is_known (c_origin r) \<or> c_verifier r \<noteq> 0 \<or> vouched c r))"

lemma trusted_sender_iff:
  assumes "wf_contacts c" "i \<noteq> CONTACT_SELF"
  shows "is_trusted c i = Ok False \<longleftrightarrow> \<not> trusted_sender c i"
proof -
  have "c_verifier r = c_verifier x" if "get_by_id c i = Ok r" "find_contact c i = Some x" for r x
    using that by (auto simp: get_by_id_def get_by_id_optional_def split: if_splits)
  moreover have "\<exists>x. find_contact c i = Some x" if "get_by_id c i = Ok r" for r
    using that by (auto simp: get_by_id_def get_by_id_optional_def split: option.splits)
  ultimately have "is_trusted c i = Ok True \<longleftrightarrow> trusted_sender c i"
    unfolding is_trusted_iff [OF assms(1)] trusted_sender_def using assms(2) by metis
  then show ?thesis using is_trusted_total [of c i] by auto
qed

lemma contact_lookup_frame:
  assumes "tbl_contacts c' = tbl_contacts c" "configured_addr c' = configured_addr c"
  shows "get_by_id c' i = get_by_id c i" "is_trusted c' i = is_trusted c i" "sender_rows c' i = sender_rows c i"
proof -
  show g: "get_by_id c' i = get_by_id c i" for i
    unfolding get_by_id_def get_by_id_optional_def find_contact_def assms by (rule refl)
  have s: "same_person c' r = same_person c r" for r using assms by (simp add: same_person_def)
  have v: "is_verified c' r = is_verified c r" for r
    using assms by (simp add: is_verified_def get_verifier_id_def find_contact_def)
  have k: "known_row c' = known_row c" by (rule ext) (simp add: known_row_def g)
  show "is_trusted c' i = is_trusted c i" unfolding is_trusted_def g s v k by (rule refl)
  show "sender_rows c' i = sender_rows c i" unfolding sender_rows_def g s by (rule refl)
qed

text \<open>\<open>released S c c'\<close>: from \<open>c\<close> to \<open>c'\<close> the messages \<open>S\<close> left the hold, and nothing else happened.\<close>

definition released :: "msg_id set \<Rightarrow> ctx \<Rightarrow> ctx \<Rightarrow> bool" where
  "released S c c' \<longleftrightarrow> labels_inv c' \<and> tbl_held_msgs c' = delete_where (\<lambda>h. h_msg_id h \<in> S) (tbl_held_msgs c) \<and>
     (\<forall>n \<in> set RESERVED. \<forall>m. has_tag n c' m \<longleftrightarrow> has_tag n c m \<and> \<not> (n = UNVERIFIED \<and> m \<in> S)) \<and>
     tbl_msgs c' = tbl_msgs c \<and> tbl_contacts c' = tbl_contacts c \<and> configured_addr c' = configured_addr c \<and>
     tbl_trashed_msgs c' = tbl_trashed_msgs c"

lemma released_refl: "labels_inv c \<Longrightarrow> released {} c c"
  by (simp add: released_def delete_where_def)

lemma released_trans: "released S c c1 \<Longrightarrow> released T c1 c2 \<Longrightarrow> released (S \<union> T) c c2"
  by (auto simp: released_def delete_where_def intro: filter_cong)

lemma released_frame:
  "released S c c' \<Longrightarrow> tbl_contacts c' = tbl_contacts c" "released S c c' \<Longrightarrow> configured_addr c' = configured_addr c"
  "released S c c' \<Longrightarrow> labels_inv c'" "released S c c' \<Longrightarrow> tbl_msgs c' = tbl_msgs c"
  by (simp_all add: released_def)

lemma unhold_eq:
  assumes "labels_inv c"
  shows "unhold ms c = (Ok (length ms), (put_tag Nosync UNVERIFIED ms False c)\<lparr>tbl_held_msgs :=
    delete_where (\<lambda>h. h_msg_id h \<in> set ms) (tbl_held_msgs c)\<rparr>)"
proof -
  obtain l where l: "reserved c UNVERIFIED = Ok l" using reserved_Ok [OF assms, of UNVERIFIED] by auto
  show ?thesis
  proof (cases "ms = []")
    case True
    have "put_tag Nosync UNVERIFIED [] False c = c" by (simp add: put_tag_def set_reserved_def l set_ext_def)
    with True show ?thesis by (simp add: unhold_def delete_where_def)
  next
    case False
    then show ?thesis by (simp add: unhold_def l put_tag_def set_reserved_def fold_delete_ids Let_def)
  qed
qed

lemma unhold_released: "labels_inv c \<Longrightarrow> \<exists>c'. unhold ms c = (Ok (length ms), c') \<and> released (set ms) c c'"
proof -
  assume inv: "labels_inv c"
  let ?c = "(put_tag Nosync UNVERIFIED ms False c)\<lparr>tbl_held_msgs := delete_where (\<lambda>h. h_msg_id h \<in> set ms) (tbl_held_msgs c)\<rparr>"
  have "labels_inv ?c" by (rule labels_inv_frame [OF labels_inv_put [OF inv, of Nosync UNVERIFIED ms False]]) simp_all
  moreover have "has_tag n ?c m \<longleftrightarrow> has_tag n c m \<and> \<not> (n = UNVERIFIED \<and> m \<in> set ms)" if "n \<in> set RESERVED" for n m
    using has_tag_put [OF inv _ that, of UNVERIFIED Nosync ms False m]
      has_tag_cong [of ?c "put_tag Nosync UNVERIFIED ms False c" n] by auto
  ultimately have "released (set ms) c ?c" by (simp add: released_def)
  with unhold_eq [OF inv] show ?thesis by blast
qed

text \<open>The messages with a row in \<open>held_msgs\<close> whose sender is one of \<open>S\<close>: what \<open>release\<close> and \<open>sweep\<close> go by. The list
  that is shown, \<open>held\<close>, goes by the label Unverified.\<close>

definition held_by :: "ctx \<Rightarrow> contact_id set \<Rightarrow> msg_id set" where
  "held_by c S = {m \<in> h_msg_id ` set (tbl_held_msgs c). \<exists>r \<in> set (tbl_msgs c). m_id r = m \<and> m_from_id r \<in> S}"

lemma set_held_from: "set (held_from c i) = held_by c {i}"
  by (auto simp: held_from_def held_by_def)

lemma held_by_Un: "held_by c (S \<union> T) = held_by c S \<union> held_by c T"
  by (auto simp: held_by_def)

lemma held_by_empty [simp]: "held_by c {} = {}"
  by (simp add: held_by_def)

lemma held_by_released: "released (held_by c S) c c' \<Longrightarrow> held_by c S \<union> held_by c' T = held_by c (S \<union> T)"
  by (auto simp: released_def held_by_def image_iff)

lemma release_rows_released:
  "labels_inv c \<Longrightarrow> \<exists>k c'. release_rows is n c = (Ok k, c') \<and> released (held_by c (set is)) c c'"
proof (induction "is" arbitrary: n c)
  case (Cons i "is")
  obtain c1 where c1: "unhold (held_from c i) c = (Ok (length (held_from c i)), c1)" "released (held_by c {i}) c c1"
    using unhold_released [OF Cons.prems, of "held_from c i"] by (auto simp: set_held_from)
  obtain k c2 where c2: "release_rows is (n + length (held_from c i)) c1 = (Ok k, c2)" "released (held_by c1 (set is)) c1 c2"
    using Cons.IH [OF released_frame(3) [OF c1(2)]] by blast
  have "held_by c {i} \<union> held_by c1 (set is) = held_by c (set (i # is))"
    using held_by_released [OF c1(2)] by simp
  with released_trans [OF c1(2) c2(2)] c1(1) c2(1) show ?case by simp
qed (auto simp: released_refl)

text \<open>The sender rows whose mail a release lets go.\<close>

definition trusted_rows :: "ctx \<Rightarrow> contact_id list \<Rightarrow> contact_id set" where
  "trusted_rows c ids = (\<Union>i \<in> {i \<in> set ids. i \<noteq> CONTACT_SELF \<and> is_trusted c i = Ok True}. set (sender_rows c i))"

lemma release_loop_released:
  "labels_inv c \<Longrightarrow> \<exists>k c'. release_loop ids n c = (Ok k, c') \<and> released (held_by c (trusted_rows c ids)) c c'"
proof (induction ids arbitrary: n c)
  case Nil
  then show ?case by (auto simp: trusted_rows_def released_refl)
next
  case (Cons i ids)
  obtain b where b: "is_trusted c i = Ok b" using is_trusted_total by blast
  show ?case
  proof (cases "i = CONTACT_SELF \<or> \<not> b")
    case True
    then have "trusted_rows c (i # ids) = trusted_rows c ids" using b by (auto simp: trusted_rows_def)
    with True b Cons.IH [OF Cons.prems, of n] show ?thesis by (cases b) auto
  next
    case False
    obtain k c1 where c1: "release_rows (sender_rows c i) n c = (Ok k, c1)" "released (held_by c (set (sender_rows c i))) c c1"
      using release_rows_released [OF Cons.prems] by blast
    obtain k' c2 where c2: "release_loop ids k c1 = (Ok k', c2)" "released (held_by c1 (trusted_rows c1 ids)) c1 c2"
      using Cons.IH [OF released_frame(3) [OF c1(2)]] by blast
    have "trusted_rows c1 ids = trusted_rows c ids"
      using contact_lookup_frame [OF released_frame(1,2) [OF c1(2)]] c1(2)
      by (simp add: trusted_rows_def released_def)
    moreover have "trusted_rows c (i # ids) = set (sender_rows c i) \<union> trusted_rows c ids"
      using False b by (auto simp: trusted_rows_def)
    ultimately have "held_by c (set (sender_rows c i)) \<union> held_by c1 (trusted_rows c1 ids) = held_by c (trusted_rows c (i # ids))"
      using held_by_released [OF c1(2)] by simp
    with released_trans [OF c1(2) c2(2)] c1(1) c2(1) False b show ?thesis by simp
  qed
qed

section \<open>Properties\<close>

text \<open>When the hook holds a message: the tests of \<open>gating_apply\<close> in one condition.\<close>

definition must_hold :: "ctx \<Rightarrow> msg_id \<Rightarrow> bool" where
  "must_hold c m \<longleftrightarrow> gating_is_enabled c \<and>
     (\<exists>r. find_msg c m = Some r \<and> m_to_id r = CONTACT_SELF \<and> m_from_id r \<noteq> CONTACT_SELF \<and>
          is_trusted c (m_from_id r) = Ok False)"

lemma gating_apply_eq:
  assumes inv: "labels_inv c"
  shows "gating_apply m c = (Ok (), if must_hold c m
    then (put_tag Nosync UNVERIFIED [m] True c)\<lparr>tbl_held_msgs :=
      insert_or_ignore h_msg_id \<lparr>h_msg_id = m, h_held_at = clock c\<rparr> (tbl_held_msgs c)\<rparr>
    else c)"
proof (cases "find_msg c m")
  case None
  then show ?thesis by (simp add: gating_apply_def must_hold_def sender_of_def)
next
  case (Some r)
  obtain l where l: "reserved c UNVERIFIED = Ok l" using reserved_Ok [OF inv, of UNVERIFIED] by auto
  obtain b where b: "is_trusted c (m_from_id r) = Ok b" using is_trusted_total by blast
  show ?thesis
    by (cases b) (simp_all add: gating_apply_def must_hold_def sender_of_def Some b l put_tag_def
        set_reserved_def Let_def)
qed

lemma must_hold_iff:
  assumes "wf_contacts c"
  shows "must_hold c m \<longleftrightarrow> gating_is_enabled c \<and>
    (\<exists>r. find_msg c m = Some r \<and> m_to_id r = CONTACT_SELF \<and> m_from_id r \<noteq> CONTACT_SELF \<and> \<not> trusted_sender c (m_from_id r))"
  unfolding must_hold_def using trusted_sender_iff [OF assms] by blast

text \<open>C10: Incoming mail is held exactly if gating is on and its sender is not trusted: the contact row the mail came in on
  is neither known nor verified, and no other row with the same address is known and not blocked. Then the message
  carries Unverified and a hold whose start is the first time it was held; in every other case nothing changes. No
  other message is affected, and no other device is told.\<close>

theorem gating_apply_exact:
  assumes inv: "labels_inv c" and wf: "wf_contacts c"
  defines "hold \<equiv> \<lambda>m. gating_is_enabled c \<and>
    (\<exists>r. find_msg c m = Some r \<and> m_to_id r = CONTACT_SELF \<and> m_from_id r \<noteq> CONTACT_SELF \<and> \<not> trusted_sender c (m_from_id r))"
  shows "fst (gating_apply m c) = Ok () \<and> (\<not> hold m \<longrightarrow> snd (gating_apply m c) = c) \<and>
    (hold m \<longrightarrow>
       (\<forall>m'. has_tag UNVERIFIED (snd (gating_apply m c)) m' \<longleftrightarrow> m' = m \<or> has_tag UNVERIFIED c m') \<and>
       (\<forall>m'. List.find (\<lambda>h. h_msg_id h = m') (tbl_held_msgs (snd (gating_apply m c))) =
          (case List.find (\<lambda>h. h_msg_id h = m') (tbl_held_msgs c) of Some h \<Rightarrow> Some h
           | None \<Rightarrow> if m' = m then Some \<lparr>h_msg_id = m, h_held_at = clock c\<rparr> else None)) \<and>
       tbl_msgs (snd (gating_apply m c)) = tbl_msgs c \<and>
       tbl_multi_device_sync (snd (gating_apply m c)) = tbl_multi_device_sync c)"
proof -
  let ?p = "put_tag Nosync UNVERIFIED [m] True c"
  have hold: "hold m = must_hold c m" by (simp add: hold_def must_hold_iff [OF wf])
  have sync: "tbl_multi_device_sync ?p = tbl_multi_device_sync c"
    by (simp add: put_tag_def set_reserved_def set_ext_Nosync split: result.splits)
  have tag: "has_tag UNVERIFIED (?p\<lparr>tbl_held_msgs := t\<rparr>) m' \<longleftrightarrow> m' = m \<or> has_tag UNVERIFIED c m'" for t m'
    using has_tag_cong [of "?p\<lparr>tbl_held_msgs := t\<rparr>" ?p UNVERIFIED] has_tag_put [OF inv, of UNVERIFIED UNVERIFIED Nosync "[m]" True m']
    by simp
  show ?thesis unfolding hold
    by (auto simp: gating_apply_eq [OF inv] tag sync find_insert_or_ignore split: option.splits)
qed

text \<open>Releasing contacts lets go exactly the held mail of the contacts among them that are trusted
  now, on every row of the same person, and never fails: those messages lose Unverified and their
  hold; every other message keeps both.\<close>

lemma release_exact:
  assumes "labels_inv c"
  shows "\<exists>k c'. release ids c = (Ok k, c') \<and>
    h_msg_id ` set (tbl_held_msgs c') = h_msg_id ` set (tbl_held_msgs c) - held_by c (trusted_rows c ids) \<and>
    (\<forall>m. has_tag UNVERIFIED c' m \<longleftrightarrow> has_tag UNVERIFIED c m \<and> m \<notin> held_by c (trusted_rows c ids)) \<and>
    (\<forall>m. has_tag TRASH c' m = has_tag TRASH c m) \<and> tbl_msgs c' = tbl_msgs c"
proof -
  obtain k c' where c': "release ids c = (Ok k, c')" "released (held_by c (trusted_rows c ids)) c c'"
    using release_loop_released [OF assms, of ids 0] by (auto simp: release_def)
  then have "h_msg_id ` set (tbl_held_msgs c') = h_msg_id ` set (tbl_held_msgs c) - held_by c (trusted_rows c ids)"
    by (auto simp: released_def)
  with c' show ?thesis by (intro exI [of _ k] exI [of _ c']) (auto simp: released_def)
qed

text \<open>The rows of one person, as \<open>release\<close> sees them: the contact itself and the other unblocked ordinary rows with its
  address.\<close>

definition person_rows :: "ctx \<Rightarrow> contact_row \<Rightarrow> contact_id set" where
  "person_rows c r = insert (c_id r) {c_id x | x. x \<in> set (tbl_contacts c) \<and> c_addr r \<noteq> [] \<and> addr_eq (c_addr r) x \<and>
     c_id x > CONTACT_LAST_SPECIAL \<and> \<not> c_blocked x}"

lemma scaleup_released:
  assumes inv: "labels_inv c" and wf: "wf_contacts c" and r: "r \<in> set (tbl_contacts c)" "c_id r > CONTACT_LAST_SPECIAL"
    and orig: "is_known orig"
  shows "released (held_by c (person_rows c r)) (c\<lparr>tbl_contacts := tbl_contacts (scaleup_origin [c_id r] orig c)\<rparr>)
    (scaleup_origin [c_id r] orig c)"
proof -
  let ?i = "c_id r"
  let ?f = "\<lambda>x. if c_id x = ?i \<and> c_origin x < orig then x\<lparr>c_origin := orig\<rparr> else x"
  let ?c0 = "c\<lparr>tbl_contacts := map ?f (tbl_contacts c)\<rparr>"
  have sc: "scaleup_origin [?i] orig c = snd (release [?i] ?c0)"
    by (simp add: scaleup_origin_def best_effort_def update_where_def)
  have inv0: "labels_inv ?c0" by (rule labels_inv_frame [OF inv]) simp_all
  have f: "c_id (?f x) = c_id x" "c_addr (?f x) = c_addr x" "c_blocked (?f x) = c_blocked x" for x by simp_all
  have "map c_id (tbl_contacts ?c0) = map c_id (tbl_contacts c)" by auto
  with wf have "unique_key c_id (tbl_contacts ?c0)" by (simp only: wf_contacts_def unique_key_def)
  then have wf0: "wf_contacts ?c0" by (simp add: wf_contacts_def)
  have row: "?f r \<in> set (tbl_contacts ?c0)" "c_id (?f r) = ?i" using r(1) by auto
  have g: "get_by_id ?c0 ?i = Ok (?f r)"
    using find_contact_row [OF wf0 row(1)] row(2) r(2) by (simp add: get_by_id_ordinary)
  have "is_known (c_origin (?f r))" using orig by (auto simp: is_known_def)
  then have tr: "is_trusted ?c0 ?i = Ok True" by (simp add: is_trusted_def g)
  have self: "?i \<noteq> CONTACT_SELF" using r(2) by (simp add: id_consts)
  have "set (same_person ?c0 (?f r)) = {c_id x | x. x \<in> set (tbl_contacts c) \<and> c_addr r \<noteq> [] \<and> addr_eq (c_addr r) x \<and>
      c_id x \<noteq> ?i \<and> c_id x > CONTACT_LAST_SPECIAL \<and> \<not> c_blocked x}" (is "_ = ?others")
    unfolding same_person_def f by (auto simp: addr_eq_def filter_map comp_def f image_image)
  then have "set (sender_rows ?c0 ?i) = person_rows c r" by (auto simp: sender_rows_def g person_rows_def)
  then have rows: "trusted_rows ?c0 [?i] = person_rows c r" using tr self by (simp add: trusted_rows_def)
  obtain k c' where rel: "release [?i] ?c0 = (Ok k, c')" "released (held_by ?c0 (trusted_rows ?c0 [?i])) ?c0 c'"
    using release_loop_released [OF inv0, of "[?i]" 0] by (auto simp: release_def)
  have "tbl_contacts c' = tbl_contacts ?c0" using rel(2) by (rule released_frame(1))
  moreover have "held_by ?c0 S = held_by c S" for S by (simp add: held_by_def)
  ultimately show ?thesis using rel(2) by (simp add: sc rel(1) rows)
qed

text \<open>C11: Accepting a sender never strands their mail. Once the origin of an ordinary contact is scaled up to a known one,
  exactly the held mail of that row and of every other unblocked row with the same address is let go: it loses
  its hold and the label Unverified, and is no longer among the mail listed as held. All other mail keeps both.\<close>

theorem accepting_releases:
  assumes inv: "labels_inv c" and wf: "wf_contacts c" and r: "r \<in> set (tbl_contacts c)" "c_id r > CONTACT_LAST_SPECIAL"
    and orig: "is_known orig"
  shows "let c' = scaleup_origin [c_id r] orig c; S = held_by c (person_rows c r)
    in h_msg_id ` set (tbl_held_msgs c') = h_msg_id ` set (tbl_held_msgs c) - S \<and> held_by c' (person_rows c r) = {} \<and>
       (\<forall>m. has_tag UNVERIFIED c' m \<longleftrightarrow> has_tag UNVERIFIED c m \<and> m \<notin> S) \<and>
       (\<exists>ms. held c' = Ok ms \<and> set ms \<inter> S = {})"
proof -
  define c' where "c' = scaleup_origin [c_id r] orig c"
  let ?S = "held_by c (person_rows c r)"
  let ?c0 = "c\<lparr>tbl_contacts := tbl_contacts c'\<rparr>"
  have rel: "released ?S ?c0 c'" unfolding c'_def by (rule scaleup_released [OF assms])
  have "has_tag n ?c0 = has_tag n c" for n by (rule has_tag_cong) simp_all
  then have tag: "has_tag UNVERIFIED c' m \<longleftrightarrow> has_tag UNVERIFIED c m \<and> m \<notin> ?S" for m using rel by (simp add: released_def)
  have held: "h_msg_id ` set (tbl_held_msgs c') = h_msg_id ` set (tbl_held_msgs c) - ?S" "tbl_msgs c' = tbl_msgs c"
    using rel by (auto simp: released_def)
  obtain l where l: "reserved c' UNVERIFIED = Ok l" "by_name c' UNVERIFIED = Some l"
    using reserved_Ok [OF released_frame(3) [OF rel], of UNVERIFIED] by auto
  have "set (msgs_with c' (lab_id l)) \<inter> ?S = {}" using tag l(2) by (auto simp: msgs_with_iff has_tag_def)
  then have "\<exists>ms. held c' = Ok ms \<and> set ms \<inter> ?S = {}" by (simp add: held_def l(1))
  moreover have "held_by c' (person_rows c r) = {}" using held by (auto simp: held_by_def)
  ultimately show ?thesis using tag held(1) by (simp add: Let_def flip: c'_def)
qed

text \<open>The messages whose hold has run out, and the state the sweep leaves.\<close>

definition swept :: "ctx \<Rightarrow> msg_id \<Rightarrow> bool" where
  "swept c m \<longleftrightarrow> hold_days c > 0 \<and>
    (\<exists>h \<in> set (tbl_held_msgs c). h_msg_id h = m \<and> h_held_at h \<le> saturating_sub (clock c) (saturating_mul (hold_days c) 86400))"

lemma sweep_eq:
  assumes inv: "labels_inv c"
  obtains ex where "\<And>m. m \<in> set ex \<longleftrightarrow> swept c m" "ex = []" "sweep c = gating_prune c"
  | ex c1 where "\<And>m. m \<in> set ex \<longleftrightarrow> swept c m"
    "c1 = (put_tag Nosync TRASH ex True c)\<lparr>tbl_trashed_msgs :=
        fold (insert_trashed (clock c) (saturating_add (clock c) (purge_secs c)) Unaccepted) ex (tbl_trashed_msgs c)\<rparr>"
    "labels_inv c1"
    "sweep c = (Ok (length ex), (put_tag Nosync UNVERIFIED ex False c1)\<lparr>tbl_held_msgs :=
        delete_where (\<lambda>h. h_msg_id h \<in> set ex) (tbl_held_msgs c1)\<rparr>)"
proof -
  define ex where "ex = map h_msg_id (filter (\<lambda>h. h_held_at h \<le> saturating_sub (clock c) (saturating_mul (hold_days c) 86400)) (tbl_held_msgs c))"
  show thesis
  proof (cases "hold_days c \<le> 0 \<or> ex = []")
    case True
    then have "sweep c = gating_prune c" by (auto simp: sweep_def Let_def ex_def)
    moreover have "\<not> swept c m" for m using True by (auto simp: swept_def ex_def filter_empty_conv)
    ultimately show thesis using that(1) [of "[]"] by simp
  next
    case False
    define c1 where "c1 = snd (to_trash ex Unaccepted (clock c) c)"
    have c1: "c1 = (put_tag Nosync TRASH ex True c)\<lparr>tbl_trashed_msgs :=
        fold (insert_trashed (clock c) (saturating_add (clock c) (purge_secs c)) Unaccepted) ex (tbl_trashed_msgs c)\<rparr>"
      by (simp add: c1_def to_trash_eq [OF inv] Let_def)
    have to: "to_trash ex Unaccepted (clock c) c = (Ok (), c1)" by (simp add: c1_def to_trash_eq [OF inv])
    have inv1: "labels_inv c1"
      by (rule labels_inv_frame [OF labels_inv_put [OF inv, of Nosync TRASH ex True]]) (simp_all add: c1)
    have "sweep c = (if hold_days c \<le> 0 then gating_prune c else if ex = [] then gating_prune c
        else case to_trash ex Unaccepted (clock c) c of (Err e, c1) \<Rightarrow> (Err e, c1) | (Ok _, c1) \<Rightarrow> unhold ex c1)"
      by (simp only: sweep_def Let_def ex_def)
    with False to have "sweep c = unhold ex c1" by simp
    moreover have "m \<in> set ex \<longleftrightarrow> swept c m" for m using False by (auto simp: ex_def swept_def)
    ultimately show thesis using that(2) [of ex c1] c1 inv1 unhold_eq [OF inv1] by simp
  qed
qed

lemma sweep_frame:
  assumes "labels_inv c"
  shows "is_ok (fst (sweep c))" "tbl_msgs (snd (sweep c)) = tbl_msgs c" "clock (snd (sweep c)) = clock c"
    "env_var (snd (sweep c)) = env_var c" "tbl_config (snd (sweep c)) = tbl_config c"
    "tbl_structured_data (snd (sweep c)) = tbl_structured_data c" "tbl_imap (snd (sweep c)) = tbl_imap c"
  by (rule sweep_eq [OF assms]; simp add: gating_prune_def)+

lemma sweep_labels_inv: "labels_inv c \<Longrightarrow> labels_inv (snd (sweep c))"
proof (rule sweep_eq)
  fix ex c1 assume c1: "labels_inv c1" and sw: "sweep c = (Ok (length ex), (put_tag Nosync UNVERIFIED ex False c1)\<lparr>tbl_held_msgs :=
        delete_where (\<lambda>h. h_msg_id h \<in> set ex) (tbl_held_msgs c1)\<rparr>)"
  show "labels_inv (snd (sweep c))"
    unfolding sw by (rule labels_inv_frame [OF labels_inv_put [OF c1, of Nosync UNVERIFIED ex False]]) simp_all
qed (simp_all add: gating_prune_def, rule labels_inv_frame, simp_all)

lemma sweep_tags:
  assumes inv: "labels_inv c" and n: "n \<in> set RESERVED"
  shows "has_tag n (snd (sweep c)) m \<longleftrightarrow>
    (if swept c m \<and> n = TRASH then True else if swept c m \<and> n = UNVERIFIED then False else has_tag n c m)"
proof (rule sweep_eq [OF inv])
  fix ex :: "msg_id list" assume ex: "\<And>m. m \<in> set ex \<longleftrightarrow> swept c m" "ex = []" and sw: "sweep c = gating_prune c"
  have "has_tag n (snd (sweep c)) = has_tag n c" by (rule has_tag_cong) (simp_all add: sw gating_prune_def)
  with ex show ?thesis by simp
next
  fix ex c1 assume ex: "\<And>m. m \<in> set ex \<longleftrightarrow> swept c m" and c1: "labels_inv c1"
    "c1 = (put_tag Nosync TRASH ex True c)\<lparr>tbl_trashed_msgs :=
        fold (insert_trashed (clock c) (saturating_add (clock c) (purge_secs c)) Unaccepted) ex (tbl_trashed_msgs c)\<rparr>"
    and sw: "sweep c = (Ok (length ex), (put_tag Nosync UNVERIFIED ex False c1)\<lparr>tbl_held_msgs :=
        delete_where (\<lambda>h. h_msg_id h \<in> set ex) (tbl_held_msgs c1)\<rparr>)"
  have "has_tag n c1 = has_tag n (put_tag Nosync TRASH ex True c)" by (rule has_tag_cong) (simp_all add: c1(2))
  moreover have "has_tag n (snd (sweep c)) = has_tag n (put_tag Nosync UNVERIFIED ex False c1)"
    by (rule has_tag_cong) (simp_all add: sw)
  ultimately show ?thesis using has_tag_put [OF inv _ n] has_tag_put [OF c1(1) _ n] ex by auto
qed

lemma sweep_deadlines:
  assumes inv: "labels_inv c"
  shows "deadline (snd (sweep c)) m = (case deadline c m of Some d \<Rightarrow> Some d | None \<Rightarrow>
      if swept c m then Some \<lparr>t_msg_id = m, t_trashed_at = clock c,
        t_purge_at = saturating_add (clock c) (purge_secs c), t_reason = reason_num Unaccepted\<rparr> else None)"
    and "swept c m \<Longrightarrow> m \<notin> h_msg_id ` set (tbl_held_msgs (snd (sweep c)))"
    and "unique_key t_msg_id (tbl_trashed_msgs c) \<Longrightarrow> unique_key t_msg_id (tbl_trashed_msgs (snd (sweep c)))"
  by (rule sweep_eq [OF inv]; auto simp: gating_prune_def deadline_def find_fold_insert_trashed unique_fold_insert_trashed split: option.splits)+

text \<open>C12: The sweep moves exactly the mail whose hold has run out, and only to the trash: with a positive
  window, every message held since before the cutoff gets the Trash label and a deadline and leaves
  the hold, whether or not it still carries Unverified; all other messages keep their tags and
  deadlines; no message row changes. With no window nothing is moved.\<close>

theorem sweep_exact:
  assumes inv: "labels_inv c"
  shows "let c' = snd (sweep c); cutoff = saturating_sub (clock c) (saturating_mul (hold_days c) 86400);
             expired = (\<lambda>m. hold_days c > 0 \<and> (\<exists>h \<in> set (tbl_held_msgs c). h_msg_id h = m \<and> h_held_at h \<le> cutoff))
         in is_ok (fst (sweep c)) \<and> tbl_msgs c' = tbl_msgs c \<and>
            (\<forall>m. if expired m
                 then has_tag TRASH c' m \<and> \<not> has_tag UNVERIFIED c' m \<and> deadline c' m \<noteq> None \<and> m \<notin> h_msg_id ` set (tbl_held_msgs c')
                 else has_tag TRASH c' m = has_tag TRASH c m \<and> has_tag UNVERIFIED c' m = has_tag UNVERIFIED c m \<and>
                      deadline c' m = deadline c m)"
  unfolding Let_def swept_def [symmetric]
  using sweep_frame [OF inv] sweep_tags [OF inv, of TRASH] sweep_tags [OF inv, of UNVERIFIED] sweep_deadlines [OF inv]
  by (auto split: option.splits)

text \<open>Turning gating off leaves nothing held: the setting reads as off, no hold remains, and every
  message that was held has lost Unverified.\<close>

lemma disabling_releases_all:
  assumes inv: "labels_inv c" and env: "env_var c Config_InboxGating = None"
  shows "let c' = snd (set_enabled False c) in
    \<not> gating_is_enabled c' \<and> tbl_held_msgs c' = [] \<and>
    (\<forall>h \<in> set (tbl_held_msgs c). \<not> has_tag UNVERIFIED c' (h_msg_id h)) \<and> tbl_msgs c' = tbl_msgs c"
proof -
  define c1 where "c1 = snd (set_config_bool Config_InboxGating False c)"
  have chk: "check_config Config_InboxGating (Some v)" for v by (simp add: check_config_def)
  have ok: "set_config_bool Config_InboxGating False c = (Ok (), c1)"
    using set_config_Ok [OF chk, of "''0''" c] by (simp add: c1_def set_config_bool_def from_bool_def prod_eq_iff)
  have fr: "tbl_labels c1 = tbl_labels c" "labels_seq c1 = labels_seq c" "tbl_msg_labels c1 = tbl_msg_labels c"
    "tbl_pending_msg_labels c1 = tbl_pending_msg_labels c" "tbl_held_msgs c1 = tbl_held_msgs c" "tbl_msgs c1 = tbl_msgs c"
    by (simp_all add: c1_def set_config_bool_def from_bool_def set_config_def set_config_ext_def add_sync_item_def Let_def)
  have inv1: "labels_inv c1" by (rule labels_inv_frame [OF inv]) (simp_all add: fr)
  have off: "get_config c1 Config_InboxGating = Some ''0''"
    using get_config_set [OF chk env] by (simp add: c1_def set_config_bool_def from_bool_def)
  let ?ms = "map h_msg_id (tbl_held_msgs c1)"
  obtain c2 where c2: "unhold ?ms c1 = (Ok (length ?ms), c2)" "released (set ?ms) c1 c2"
    using unhold_released [OF inv1, of ?ms] by blast
  have c2': "c2 = (put_tag Nosync UNVERIFIED ?ms False c1)\<lparr>tbl_held_msgs := delete_where (\<lambda>h. h_msg_id h \<in> set ?ms) (tbl_held_msgs c1)\<rparr>"
    using unhold_eq [OF inv1, of ?ms] c2(1) by simp
  have "get_config c2 Config_InboxGating = get_config c1 Config_InboxGating"
    by (subst get_config_frame [of c2 c1]) (simp_all add: c2')
  then have "\<not> gating_is_enabled c2"
    using off parse_i32_show_int [of 0] by (simp add: gating_is_enabled_def get_config_bool_def) code_simp
  moreover have "tbl_held_msgs c2 = []" by (simp add: c2' delete_where_def)
  moreover have "\<not> has_tag UNVERIFIED c2 m" if "m \<in> set ?ms" for m
    using c2(2) that by (simp add: released_def)
  moreover have "snd (set_enabled False c) = c2" by (simp add: set_enabled_def ok release_all_def c2(1))
  ultimately show ?thesis using c2(2) fr by (simp add: Let_def released_def)
qed

subsection \<open>A stranger writes\<close>

definition stranger :: contact_row where
  "stranger = \<lparr>c_id = 10, c_name = [], c_authname = ''Mallory'', c_addr = ''mallory@example.org'',
     c_origin = IncomingUnknownFrom, c_blocked = False, c_last_seen = 0, c_fingerprint = [], c_verifier = 0\<rparr>"

definition cold_mail :: ctx where
  "cold_mail = fresh_db\<lparr>clock := 1000,
     tbl_config := (\<lambda>k. if k = Config_InboxGating then Some ''1'' else if k = Config_UnverifiedTrashDays then Some ''7'' else None),
     tbl_contacts := [stranger],
     tbl_msgs := [(default_msg 10)\<lparr>m_chat_id := 10, m_state := InFresh, m_from_id := 10, m_to_id := 1\<rparr>]\<rparr>"

lemma cold_mail_inv: "labels_inv cold_mail"
  by (rule labels_inv_frame [OF labels_inv_fresh]) (simp_all add: cold_mail_def)

lemma cold_mail_must_hold: "must_hold cold_mail 10"
proof -
  have "gating_is_enabled cold_mail" by code_simp
  moreover have "is_trusted cold_mail 10 = Ok False" by code_simp
  ultimately show ?thesis
    by (simp add: must_hold_def find_msg_def CONTACT_SELF_def) (simp add: cold_mail_def default_msg_def)
qed

lemma cold_mail_contacts: "wf_contacts cold_mail"
  by (simp add: wf_contacts_def cold_mail_def unique_key_def)

theorem gating_apply_exact_witness: "has_tag UNVERIFIED (snd (gating_apply 10 cold_mail)) 10"
  using gating_apply_exact [OF cold_mail_inv cold_mail_contacts, of 10] cold_mail_must_hold
  unfolding must_hold_iff [OF cold_mail_contacts] by blast

lemma cold_mail_held: "snd (gating_apply 10 cold_mail) = (put_tag Nosync UNVERIFIED [10] True cold_mail)\<lparr>tbl_held_msgs := [\<lparr>h_msg_id = 10, h_held_at = 1000\<rparr>]\<rparr>"
  using cold_mail_must_hold
  by (simp add: gating_apply_eq [OF cold_mail_inv] insert_or_ignore_def) (simp add: cold_mail_def fresh_db_def)

lemma cold_mail_held_inv: "labels_inv (snd (gating_apply 10 cold_mail))"
  unfolding cold_mail_held
  by (rule labels_inv_frame [OF labels_inv_put [OF cold_mail_inv, of Nosync UNVERIFIED "[10]" True]]) simp_all

theorem accepting_releases_witness:
  "let c = snd (gating_apply 10 cold_mail); c' = scaleup_origin [10] ManuallyCreated c
   in has_tag UNVERIFIED c 10 \<and> \<not> has_tag UNVERIFIED c' 10 \<and> held_by c' {10} = {}"
proof -
  let ?c = "snd (gating_apply 10 cold_mail)"
  have ct: "tbl_contacts ?c = [stranger]" by (simp add: cold_mail_held) (simp add: cold_mail_def)
  have s: "c_id stranger > CONTACT_LAST_SPECIAL" "c_id stranger = 10" by (simp_all add: stranger_def id_consts)
  have "person_rows ?c stranger = {10}" by (auto simp: person_rows_def ct s)
  moreover have "10 \<in> held_by ?c {10}"
    by (simp add: held_by_def cold_mail_held) (simp add: cold_mail_def default_msg_def)
  moreover have "has_tag UNVERIFIED ?c 10"
    using has_tag_cong [of ?c "put_tag Nosync UNVERIFIED [10] True cold_mail" UNVERIFIED] has_tag_put [OF cold_mail_inv, of UNVERIFIED UNVERIFIED Nosync "[10]" True 10]
    by (simp add: cold_mail_held)
  moreover have "wf_contacts ?c" by (simp add: wf_contacts_def ct unique_key_def)
  ultimately show ?thesis
    using accepting_releases [OF cold_mail_held_inv, of stranger ManuallyCreated] ct s by (simp add: is_known_def origin_order Let_def)
qed

theorem sweep_exact_witness:
  "let c = put_tag Sync UNVERIFIED [10] False ((snd (gating_apply 10 cold_mail))\<lparr>clock := 605800\<rparr>)
   in \<not> has_tag UNVERIFIED c 10 \<and> has_tag TRASH (snd (sweep c)) 10"
proof -
  let ?d = "(snd (gating_apply 10 cold_mail))\<lparr>clock := 605800\<rparr>"
  let ?c = "put_tag Sync UNVERIFIED [10] False ?d"
  have inv0: "labels_inv ?d" by (rule labels_inv_frame [OF cold_mail_held_inv]) simp_all
  have inv: "labels_inv ?c" by (rule labels_inv_put [OF inv0])
  have "get_config_int ?c = get_config_int cold_mail"
    by (rule get_config_int_frame) (simp_all add: cold_mail_held)
  then have days: "hold_days ?c = hold_days cold_mail" by (simp add: hold_days_def)
  have seven: "hold_days cold_mail = 7" by code_simp
  have h: "tbl_held_msgs ?c = [\<lparr>h_msg_id = 10, h_held_at = 1000\<rparr>]" "clock ?c = 605800" by (simp_all add: cold_mail_held)
  have "hold_days ?c > 0 \<and> (\<exists>x \<in> set (tbl_held_msgs ?c). h_msg_id x = 10 \<and>
      h_held_at x \<le> saturating_sub (clock ?c) (saturating_mul (hold_days ?c) 86400))"
    by (simp only: h days seven) (simp add: sat_defs)
  then have "has_tag TRASH (snd (sweep ?c)) 10"
    using sweep_exact [OF inv] unfolding Let_def by meson
  then show ?thesis using has_tag_put [OF inv0, of UNVERIFIED UNVERIFIED Sync "[10]" False 10] by (simp add: Let_def)
qed

end
