(* ===== verification/Encryption.thy ===== *)
theory Encryption
  imports Gating
begin

text \<open>
  The encryption mode of \<open>email/policy.rs\<close>: the global setting, the overrides in
  \<open>contact_policy\<close>, the mode of a message to several people, and the defaults a new account gets.
  Overrides that compose towards the strictest are an interface of their own, shared with the
  timers of \<open>receipts.rs\<close>.
\<close>

section \<open>Overrides that compose towards the strictest\<close>

text \<open>The setting that applies to several keys: the global one met with every override.\<close>

locale override_fold = semilattice meet
  for meet :: "'m \<Rightarrow> 'm \<Rightarrow> 'm" +
  fixes eff :: "'m \<Rightarrow> ('k \<Rightarrow> 'm option) \<Rightarrow> 'k list \<Rightarrow> 'm"
  assumes eff_Nil: "eff g ov [] = g"
    and eff_Cons: "eff g ov (k # ks) = eff (case ov k of None \<Rightarrow> g | Some m \<Rightarrow> meet g m) ov ks"
begin

lemma eff_le_global: "meet (eff g ov ks) g = eff g ov ks"
proof (induction ks arbitrary: g)
  case (Cons k ks)
  show ?case
  proof (cases "ov k")
    case (Some m)
    have "meet (eff (meet g m) ov ks) (meet g m) = eff (meet g m) ov ks" by (rule Cons.IH)
    then have "meet (eff (meet g m) ov ks) g = meet (meet (eff (meet g m) ov ks) (meet g m)) g" by simp
    also have "\<dots> = meet (eff (meet g m) ov ks) (meet g m)" by (metis assoc commute left_idem)
    also have "\<dots> = eff (meet g m) ov ks" by (rule Cons.IH)
    finally show ?thesis by (simp add: eff_Cons Some)
  qed (simp add: eff_Cons Cons.IH)
qed (simp add: eff_Nil)

lemma eff_le_override: "k \<in> set ks \<Longrightarrow> ov k = Some m \<Longrightarrow> meet (eff g ov ks) m = eff g ov ks"
proof (induction ks arbitrary: g)
  case (Cons k' ks)
  show ?case
  proof (cases "k' = k")
    case True
    have "meet (eff (meet g m) ov ks) (meet g m) = eff (meet g m) ov ks" by (rule eff_le_global)
    then have "meet (eff (meet g m) ov ks) m = eff (meet g m) ov ks" by (metis assoc right_idem)
    with True Cons.prems show ?thesis by (simp add: eff_Cons)
  qed (use Cons in \<open>auto simp: eff_Cons\<close>)
qed simp

lemma eff_greatest:
  assumes "meet z g = z" "\<And>k m. k \<in> set ks \<Longrightarrow> ov k = Some m \<Longrightarrow> meet z m = z"
  shows "meet z (eff g ov ks) = z"
  using assms
proof (induction ks arbitrary: g)
  case (Cons k ks)
  have "meet z (case ov k of None \<Rightarrow> g | Some m \<Rightarrow> meet g m) = z"
    using Cons.prems(1) Cons.prems(2) [of k] by (cases "ov k") (simp_all flip: assoc)
  then show ?case unfolding eff_Cons by (rule Cons.IH) (use Cons.prems(2) in auto)
qed (simp add: eff_Nil)

text \<open>Neither the order nor the repetition of the keys matters.\<close>

lemma eff_cong_set:
  assumes "set ks = set ks'"
  shows "eff g ov ks = eff g ov ks'"
proof -
  have "meet (eff g ov ks) (eff g ov ks') = eff g ov ks"
    by (rule eff_greatest [OF eff_le_global]) (use assms eff_le_override in auto)
  moreover have "meet (eff g ov ks') (eff g ov ks) = eff g ov ks'"
    by (rule eff_greatest [OF eff_le_global]) (use assms eff_le_override in auto)
  ultimately show ?thesis by (simp add: commute)
qed

end

section \<open>The mode\<close>

datatype encryption_mode = Strict | Opportunistic | Lenient

fun encryption_mode_num :: "encryption_mode \<Rightarrow> int" where
  "encryption_mode_num Strict = 0"
| "encryption_mode_num Opportunistic = 1"
| "encryption_mode_num Lenient = 2"

definition encryption_mode_from_i64 :: "int \<Rightarrow> encryption_mode" where
  "encryption_mode_from_i64 v = (if v = 0 then Strict else if v = 2 then Lenient else Opportunistic)"

lemma encryption_mode_num_inj [simp]: "encryption_mode_num a = encryption_mode_num b \<longleftrightarrow> a = b"
  by (cases a; cases b) simp_all

lemma encryption_mode_codec [simp]: "encryption_mode_from_i64 (encryption_mode_num m) = m"
  by (cases m) (simp_all add: encryption_mode_from_i64_def)

instantiation encryption_mode :: linorder
begin

definition less_eq_encryption_mode :: "encryption_mode \<Rightarrow> encryption_mode \<Rightarrow> bool" where
  "less_eq_encryption_mode a b \<longleftrightarrow> encryption_mode_num a \<le> encryption_mode_num b"

definition less_encryption_mode :: "encryption_mode \<Rightarrow> encryption_mode \<Rightarrow> bool" where
  "less_encryption_mode a b \<longleftrightarrow> encryption_mode_num a < encryption_mode_num b"

instance
  by standard (auto simp: less_eq_encryption_mode_def less_encryption_mode_def simp flip: encryption_mode_num_inj)

end

definition encryption_mode_load :: "ctx \<Rightarrow> encryption_mode" where
  "encryption_mode_load c =
    (if get_config_bool c Config_ForceEncryption then Strict
     else case encryption_mode_from_i64 (get_config_int c Config_EncryptionMode) of
         Strict \<Rightarrow> Opportunistic
       | other \<Rightarrow> other)"

definition encryption_mode_set :: "encryption_mode \<Rightarrow> (ctx, unit) eff" where
  "encryption_mode_set mode =
    bind_eff (set_config_bool Config_ForceEncryption (mode = Strict)) (\<lambda>_.
    set_config Config_EncryptionMode (Some (show_int (encryption_mode_num mode))))"

definition find_policy :: "ctx \<Rightarrow> contact_id \<Rightarrow> contact_policy_row option" where
  "find_policy c i = List.find (\<lambda>p. cp_contact_id p = i) (tbl_contact_policy c)"

text \<open>\<open>INSERT ... ON CONFLICT(contact_id) DO UPDATE\<close> of one column of \<open>contact_policy\<close>.\<close>

definition empty_policy :: "contact_id \<Rightarrow> contact_policy_row" where
  "empty_policy i = \<lparr>cp_contact_id = i, cp_encryption_mode = None, cp_mdn_enabled = None, cp_ephemeral_secs = None\<rparr>"

definition upsert_policy :: "contact_id \<Rightarrow> (contact_policy_row \<Rightarrow> contact_policy_row) \<Rightarrow> ctx \<Rightarrow> ctx" where
  "upsert_policy i f c = c\<lparr>tbl_contact_policy := upsert cp_contact_id f (f (empty_policy i)) (tbl_contact_policy c)\<rparr>"

definition encryption_mode_for_contact :: "ctx \<Rightarrow> contact_id \<Rightarrow> encryption_mode option" where
  "encryption_mode_for_contact c i =
    map_option encryption_mode_from_i64 (Option.bind (find_policy c i) cp_encryption_mode)"

definition encryption_mode_set_for_contact :: "contact_id \<Rightarrow> encryption_mode option \<Rightarrow> ctx \<Rightarrow> ctx" where
  "encryption_mode_set_for_contact i mode c =
    (case mode of
       Some m \<Rightarrow> upsert_policy i (\<lambda>p. p\<lparr>cp_encryption_mode := Some (encryption_mode_num m)\<rparr>) c
     | None \<Rightarrow> c\<lparr>tbl_contact_policy := update_where (\<lambda>p. cp_contact_id p = i) (\<lambda>p. p\<lparr>cp_encryption_mode := None\<rparr>) (tbl_contact_policy c)\<rparr>)"

definition effective :: "ctx \<Rightarrow> contact_id list \<Rightarrow> encryption_mode" where
  "effective c contacts =
    fold (\<lambda>i mode. case encryption_mode_for_contact c i of None \<Rightarrow> mode | Some m \<Rightarrow> min mode m)
      contacts (encryption_mode_load c)"

definition apply_defaults :: "(ctx, unit) eff" where
  "apply_defaults c =
    (if is_configured c then (Ok (), c)
     else
       bind_eff (\<lambda>c. if get_config_bool_opt c Config_ForceEncryption = None
                     then encryption_mode_set Opportunistic c else (Ok (), c)) (\<lambda>_.
       bind_eff (\<lambda>c. if get_config_bool_opt c Config_InboxGating = None
                     then set_config_bool Config_InboxGating True c else (Ok (), c)) (\<lambda>_.
       bind_eff (\<lambda>c. if get_config_opt c Config_UnverifiedTrashDays = None
                     then set_config Config_UnverifiedTrashDays (Some (show_int DEFAULT_HOLD_DAYS)) c else (Ok (), c)) (\<lambda>_.
       bind_eff (\<lambda>c. if get_config_opt c Config_TrashPurgeDays = None
                     then set_config Config_TrashPurgeDays (Some (show_int DEFAULT_PURGE_DAYS)) c else (Ok (), c)) (\<lambda>_ c.
         if get_config_bool_opt c Config_SubjectInBody = None
         then set_config_bool Config_SubjectInBody False c else (Ok (), c))))) c)"

section \<open>Lemmas\<close>

interpretation em: override_fold "min :: encryption_mode \<Rightarrow> _"
  "\<lambda>g ov ks. fold (\<lambda>i mode. case ov i of None \<Rightarrow> mode | Some m \<Rightarrow> min mode m) ks g"
  by unfold_locales (simp_all split: option.splits)

lemma find_upsert_policy:
  assumes "\<And>p. cp_contact_id (f p) = cp_contact_id p"
  shows "find_policy (upsert_policy i f c) j =
    (if j = i then Some (f (case find_policy c i of Some p \<Rightarrow> p | None \<Rightarrow> empty_policy i)) else find_policy c j)"
proof -
  have "cp_contact_id (empty_policy i) = i" by (simp add: empty_policy_def)
  with find_upsert [where key = cp_contact_id and f = f and r = "f (empty_policy i)" and k = j and t = "tbl_contact_policy c"] assms show ?thesis
    by (auto simp: find_policy_def upsert_policy_def split: option.splits)
qed

text \<open>Writing a key on an account that is not configured: nothing is queued.\<close>

definition put_config :: "config \<Rightarrow> string \<Rightarrow> ctx \<Rightarrow> ctx" where
  "put_config k v c = c\<lparr>tbl_config := (tbl_config c)(k := Some v)\<rparr>"

lemma put_config: "\<not> is_configured c \<Longrightarrow> set_config k (Some v) c = (if check_config k (Some v) then (Ok (), put_config k v c) else (Err BoolExpected, c))"
  by (simp add: set_config_def set_config_ext_def put_config_def)

lemma put_config_frame [simp]:
  "is_configured (put_config k v c) = is_configured c"
  "k' \<noteq> k \<Longrightarrow> get_config_opt (put_config k v c) k' = get_config_opt c k'"
  "k' \<noteq> k \<Longrightarrow> get_config_bool_opt (put_config k v c) k' = get_config_bool_opt c k'"
  by (simp_all add: put_config_def is_configured_def get_config_opt_def get_config_bool_opt_def split: option.splits)

lemma check_config_free [simp]: "k \<notin> {Config_BccSelf, Config_MdnsEnabled, Config_Bot, Config_SyncMsgs} \<Longrightarrow> check_config k v"
  by (simp add: check_config_def)

section \<open>Properties\<close>

text \<open>C16: The mode of a message is the strictest of the global mode and the overrides of the people it
  is addressed to, whatever their order and however often one is named.\<close>

theorem effective_strictest:
  "effective c ids = Min (insert (encryption_mode_load c) {m. \<exists>i. i \<in> set ids \<and> encryption_mode_for_contact c i = Some m})"
proof -
  let ?S = "{m. \<exists>i. i \<in> set ids \<and> encryption_mode_for_contact c i = Some m}"
  have "?S \<subseteq> (\<lambda>i. the (encryption_mode_for_contact c i)) ` set ids" by force
  then have fin: "finite (insert (encryption_mode_load c) ?S)" by (simp add: finite_subset)
  let ?e = "effective c ids" and ?m = "Min (insert (encryption_mode_load c) ?S)"
  have "min ?e (encryption_mode_load c) = ?e" unfolding effective_def by (rule em.eff_le_global [where ov = "encryption_mode_for_contact c"])
  moreover have "min ?e m = ?e" if "i \<in> set ids" "encryption_mode_for_contact c i = Some m" for i m
    unfolding effective_def by (rule em.eff_le_override [where ov = "encryption_mode_for_contact c", OF that])
  ultimately have "?e \<le> x" if "x \<in> insert (encryption_mode_load c) ?S" for x
    using that unfolding min.absorb_iff1 by blast
  then have "?e \<le> ?m" using fin by simp
  moreover have "min ?m ?e = ?m"
    unfolding effective_def by (rule em.eff_greatest [where ov = "encryption_mode_for_contact c"]) (use fin in \<open>auto intro!: min_absorb1 Min_le\<close>)
  ultimately show ?thesis by (simp add: min_def split: if_splits)
qed

text \<open>A mode that is set is the mode that is read, where no environment variable overrides it; the
  strict mode is exactly core's own setting, so a strict mode that is only in the second key is
  not claimed.\<close>

lemma encryption_mode_read_back:
  assumes "env_var c Config_ForceEncryption = None" "env_var c Config_EncryptionMode = None"
  shows "fst (encryption_mode_set m c) = Ok () \<and> encryption_mode_load (snd (encryption_mode_set m c)) = m \<and>
    (encryption_mode_load c = Strict \<longleftrightarrow> get_config_bool c Config_ForceEncryption)"
proof -
  have ck: "check_config Config_ForceEncryption v" "check_config Config_EncryptionMode v" for v
    by (simp_all add: check_config_def)
  define c1 where "c1 = snd (set_config_bool Config_ForceEncryption (m = Strict) c)"
  have s1: "set_config_bool Config_ForceEncryption (m = Strict) c = (Ok (), c1)"
    using set_config_Ok [OF ck(1)] by (simp add: c1_def set_config_bool_def prod_eq_iff)
  have c1: "env_var c1 = env_var c" "get_config c1 Config_ForceEncryption = from_bool (m = Strict)"
    using set_config_tbl [OF ck(1)] get_config_set [OF ck(1) assms(1)] by (simp_all add: c1_def set_config_bool_def from_bool_def)
  define c2 where "c2 = snd (set_config Config_EncryptionMode (Some (show_int (encryption_mode_num m))) c1)"
  have e: "encryption_mode_set m c = (Ok (), c2)"
    using s1 set_config_Ok [OF ck(2)] by (simp add: encryption_mode_set_def c2_def prod_eq_iff)
  have "get_config c2 Config_ForceEncryption = from_bool (m = Strict)"
    using c1(2) get_config_set_other [of Config_ForceEncryption Config_EncryptionMode] by (simp add: c2_def)
  moreover have "parse_i32 ''1'' = Some 1" "parse_i32 ''0'' = Some 0" by code_simp+
  ultimately have f: "get_config_bool c2 Config_ForceEncryption \<longleftrightarrow> m = Strict" by (simp add: get_config_bool_def from_bool_def)
  have "get_config_int c2 Config_EncryptionMode = encryption_mode_num m"
    using get_config_int_set [OF ck(2)] assms(2) c1(1) unfolding c2_def by (cases m) simp_all
  with e f show ?thesis
    by (cases m) (auto simp: encryption_mode_load_def encryption_mode_from_i64_def split: encryption_mode.splits)
qed

text \<open>C17: The defaults never touch a configured account. On a new account they set each of four keys (gating, the two
  windows, the subject in the body) that has no readable value, queue nothing for other devices and change nothing
  else, except that the encryption mode goes by the switch alone: if \<open>force_encryption\<close> has no readable value, both it
  and the mode are set, and a mode that was chosen before is overwritten; if it has one, neither is touched, and a
  missing mode stays missing.\<close>

theorem apply_defaults_exact:
  "apply_defaults c = (Ok (), if is_configured c then c else c\<lparr>tbl_config := (\<lambda>k. case k of
      Config_ForceEncryption \<Rightarrow> if get_config_bool_opt c Config_ForceEncryption = None then Some ''0'' else tbl_config c k
    | Config_EncryptionMode \<Rightarrow> if get_config_bool_opt c Config_ForceEncryption = None then Some ''1'' else tbl_config c k
    | Config_InboxGating \<Rightarrow> if get_config_bool_opt c Config_InboxGating = None then Some ''1'' else tbl_config c k
    | Config_UnverifiedTrashDays \<Rightarrow> if get_config_opt c Config_UnverifiedTrashDays = None then Some ''30'' else tbl_config c k
    | Config_TrashPurgeDays \<Rightarrow> if get_config_opt c Config_TrashPurgeDays = None then Some ''30'' else tbl_config c k
    | Config_SubjectInBody \<Rightarrow> if get_config_bool_opt c Config_SubjectInBody = None then Some ''0'' else tbl_config c k
    | _ \<Rightarrow> tbl_config c k)\<rparr>)"
proof (cases "is_configured c")
  case True
  then show ?thesis by (simp add: apply_defaults_def)
next
  case False
  have n: "show_int 1 = ''1''" "show_int DEFAULT_HOLD_DAYS = ''30''" "show_int DEFAULT_PURGE_DAYS = ''30''" by code_simp+
  define c1 where "c1 = (if get_config_bool_opt c Config_ForceEncryption = None
    then put_config Config_EncryptionMode ''1'' (put_config Config_ForceEncryption ''0'' c) else c)"
  define c2 where "c2 = (if get_config_bool_opt c Config_InboxGating = None then put_config Config_InboxGating ''1'' c1 else c1)"
  define c3 where "c3 = (if get_config_opt c Config_UnverifiedTrashDays = None then put_config Config_UnverifiedTrashDays ''30'' c2 else c2)"
  define c4 where "c4 = (if get_config_opt c Config_TrashPurgeDays = None then put_config Config_TrashPurgeDays ''30'' c3 else c3)"
  define c5 where "c5 = (if get_config_bool_opt c Config_SubjectInBody = None then put_config Config_SubjectInBody ''0'' c4 else c4)"
  have cf: "\<not> is_configured c1" "\<not> is_configured c2" "\<not> is_configured c3" "\<not> is_configured c4"
    by (simp_all add: False c1_def c2_def c3_def c4_def)
  have g2: "get_config_bool_opt c1 Config_InboxGating = get_config_bool_opt c Config_InboxGating" by (simp add: c1_def)
  have g3: "get_config_opt c2 Config_UnverifiedTrashDays = get_config_opt c Config_UnverifiedTrashDays" by (simp add: c1_def c2_def)
  have g4: "get_config_opt c3 Config_TrashPurgeDays = get_config_opt c Config_TrashPurgeDays" by (simp add: c1_def c2_def c3_def)
  have g5: "get_config_bool_opt c4 Config_SubjectInBody = get_config_bool_opt c Config_SubjectInBody"
    by (simp add: c1_def c2_def c3_def c4_def)
  have s1: "(if get_config_bool_opt c Config_ForceEncryption = None then encryption_mode_set Opportunistic c else (Ok (), c)) = (Ok (), c1)"
    by (simp add: c1_def encryption_mode_set_def bind_eff_def set_config_bool_def from_bool_def n put_config False)
  have s2: "(if get_config_bool_opt c1 Config_InboxGating = None then set_config_bool Config_InboxGating True c1 else (Ok (), c1)) = (Ok (), c2)"
    by (simp add: c2_def set_config_bool_def from_bool_def put_config cf g2)
  have s3: "(if get_config_opt c2 Config_UnverifiedTrashDays = None
      then set_config Config_UnverifiedTrashDays (Some (show_int DEFAULT_HOLD_DAYS)) c2 else (Ok (), c2)) = (Ok (), c3)"
    by (simp add: c3_def n put_config cf g3)
  have s4: "(if get_config_opt c3 Config_TrashPurgeDays = None
      then set_config Config_TrashPurgeDays (Some (show_int DEFAULT_PURGE_DAYS)) c3 else (Ok (), c3)) = (Ok (), c4)"
    by (simp add: c4_def n put_config cf g4)
  have s5: "(if get_config_bool_opt c4 Config_SubjectInBody = None then set_config_bool Config_SubjectInBody False c4 else (Ok (), c4)) = (Ok (), c5)"
    by (simp add: c5_def set_config_bool_def from_bool_def put_config cf g5)
  have run: "apply_defaults c = (Ok (), c5)"
    unfolding apply_defaults_def bind_eff_def s1 prod.case result.case s2 s3 s4 s5 using False by simp
  have tbl: "tbl_config c5 = (\<lambda>k. case k of
      Config_ForceEncryption \<Rightarrow> if get_config_bool_opt c Config_ForceEncryption = None then Some ''0'' else tbl_config c k
    | Config_EncryptionMode \<Rightarrow> if get_config_bool_opt c Config_ForceEncryption = None then Some ''1'' else tbl_config c k
    | Config_InboxGating \<Rightarrow> if get_config_bool_opt c Config_InboxGating = None then Some ''1'' else tbl_config c k
    | Config_UnverifiedTrashDays \<Rightarrow> if get_config_opt c Config_UnverifiedTrashDays = None then Some ''30'' else tbl_config c k
    | Config_TrashPurgeDays \<Rightarrow> if get_config_opt c Config_TrashPurgeDays = None then Some ''30'' else tbl_config c k
    | Config_SubjectInBody \<Rightarrow> if get_config_bool_opt c Config_SubjectInBody = None then Some ''0'' else tbl_config c k
    | _ \<Rightarrow> tbl_config c k)" (is "_ = ?t")
    by (rule ext, rename_tac k, case_tac k) (simp_all add: c1_def c2_def c3_def c4_def c5_def put_config_def)
  have "c5 = c\<lparr>tbl_config := tbl_config c5\<rparr>"
    by (simp add: c1_def c2_def c3_def c4_def c5_def put_config_def)
  then have "c5 = c\<lparr>tbl_config := ?t\<rparr>" unfolding tbl .
  with False run show ?thesis by simp
qed

end
