(* ===== verification/Importance.thy ===== *)
theory Importance
  imports Messages
begin

text \<open>
  \<open>email/importance.rs\<close>: how important a message claims to be, on the wire and in a side table. A
  side table whose default value stores no row is an interface of its own, which the send options
  implement as well.
\<close>

section \<open>Side tables that are absent when default\<close>

locale sparse_table =
  fixes get :: "'s \<Rightarrow> 'k \<Rightarrow> 'v"
    and put :: "'k \<Rightarrow> 'v \<Rightarrow> 's \<Rightarrow> 's"
    and keys :: "'s \<Rightarrow> 'k set"
    and dflt :: 'v
  assumes get_put: "get (put k v s) k' = (if k' = k then v else get s k')"
    and keys_put: "keys (put k v s) = (if v = dflt then keys s - {k} else insert k (keys s))"
begin

lemma put_get: "get (put k (get s k) s) = get s"
  by (rule ext) (simp add: get_put)

lemma put_put: "get (put k v (put k w s)) = get (put k v s)" "keys (put k v (put k w s)) = keys (put k v s)"
  by (auto simp: fun_eq_iff get_put keys_put)

lemma put_commute: "k \<noteq> k' \<Longrightarrow> get (put k v (put k' w s)) = get (put k' w (put k v s))"
  by (auto simp: fun_eq_iff get_put)

lemma put_default_absent: "k \<notin> keys (put k dflt s)"
  by (simp add: keys_put)

lemma fold_get: "get (fold (\<lambda>(k, v). put k v) kvs s) k = (case map_of (rev kvs) k of Some v \<Rightarrow> v | None \<Rightarrow> get s k)"
  by (induction kvs arbitrary: s) (auto simp: get_put map_add_def split: option.splits)

end

section \<open>Importance\<close>

datatype importance = Low | Normal | High

fun importance_num :: "importance \<Rightarrow> int" where
  "importance_num Low = -1"
| "importance_num Normal = 0"
| "importance_num High = 1"

definition importance_from_i64 :: "int \<Rightarrow> importance" where
  "importance_from_i64 v = (if v > 0 then High else if v < 0 then Low else Normal)"

fun header_importance :: "importance \<Rightarrow> string option" where
  "header_importance High = Some ''high''"
| "header_importance Low = Some ''low''"
| "header_importance Normal = None"

fun header_x_priority :: "importance \<Rightarrow> string option" where
  "header_x_priority High = Some ''1 (Highest)''"
| "header_x_priority Low = Some ''5 (Lowest)''"
| "header_x_priority Normal = None"

definition parse_importance :: "string \<Rightarrow> importance option" where
  "parse_importance value =
    (let v = to_lowercase (trim value) in
     if v = ''high'' then Some High else if v = ''normal'' then Some Normal else if v = ''low'' then Some Low else None)"

definition is_ascii_digit :: "char \<Rightarrow> bool" where "is_ascii_digit c \<longleftrightarrow> digit_val c \<noteq> None"

definition parse_x_priority :: "string \<Rightarrow> importance option" where
  "parse_x_priority value =
    (case parse_i64 (takeWhile is_ascii_digit (trim value)) of
       None \<Rightarrow> None
     | Some n \<Rightarrow> if n = 1 \<or> n = 2 then Some High else if n = 3 then Some Normal
                else if n = 4 \<or> n = 5 then Some Low else None)"

definition parse_priority :: "string \<Rightarrow> importance option" where
  "parse_priority value =
    (let v = to_lowercase (trim value) in
     if v = ''urgent'' then Some High else if v = ''normal'' then Some Normal
     else if v = ''non-urgent'' then Some Low else None)"

definition from_headers :: "string option \<Rightarrow> string option \<Rightarrow> string option \<Rightarrow> importance" where
  "from_headers imp x_priority priority =
    (case Option.bind imp parse_importance of Some i \<Rightarrow> i
     | None \<Rightarrow> (case Option.bind x_priority parse_x_priority of Some i \<Rightarrow> i
       | None \<Rightarrow> (case Option.bind priority parse_priority of Some i \<Rightarrow> i | None \<Rightarrow> Normal)))"

definition importance_set :: "msg_id \<Rightarrow> importance \<Rightarrow> ctx \<Rightarrow> ctx" where
  "importance_set m i c =
    (if i = Normal then c\<lparr>tbl_msg_importance := delete_where (\<lambda>r. fst r = m) (tbl_msg_importance c)\<rparr>
     else c\<lparr>tbl_msg_importance := upsert fst (\<lambda>r. (m, importance_num i)) (m, importance_num i) (tbl_msg_importance c)\<rparr>)"

definition importance_of_msg :: "ctx \<Rightarrow> msg_id \<Rightarrow> importance" where
  "importance_of_msg c m =
    (case List.find (\<lambda>r. fst r = m) (tbl_msg_importance c) of None \<Rightarrow> Normal | Some r \<Rightarrow> importance_from_i64 (snd r))"

section \<open>Lemmas\<close>

lemma importance_codec [simp]: "importance_from_i64 (importance_num i) = i"
  by (cases i) (simp_all add: importance_from_i64_def)

lemma find_delete_key:
  "List.find (\<lambda>x. key x = k) (delete_where (\<lambda>x. key x = k') t) = (if k = k' then None else List.find (\<lambda>x. key x = k) t)"
  by (induction t) (auto simp: delete_where_def)

lemma keys_upsert:
  assumes "\<And>x. key x = key r \<Longrightarrow> key (f x) = key r"
  shows "key ` set (upsert key f r t) = insert (key r) (key ` set t)"
proof (cases "list_ex (\<lambda>x. key x = key r) t")
  case True
  have "key (if key x = key r then f x else x) = key x" for x using assms [of x] by simp
  then have "map key (upsert key f r t) = map key t" using True by (simp add: upsert_def)
  then have "key ` set (upsert key f r t) = key ` set t" by (metis set_map)
  moreover have "key r \<in> key ` set t" using True unfolding list_ex_iff image_iff by (metis (full_types))
  ultimately show ?thesis by blast
next
  case False
  then show ?thesis by (simp add: upsert_def)
qed

interpretation imp: sparse_table importance_of_msg importance_set "\<lambda>c. fst ` set (tbl_msg_importance c)" Normal
proof unfold_locales
  show "importance_of_msg (importance_set k v s) k' = (if k' = k then v else importance_of_msg s k')" for k v s k'
    by (auto simp: importance_of_msg_def importance_set_def find_delete_key find_upsert split: option.splits)
  show "fst ` set (tbl_msg_importance (importance_set k v s)) =
      (if v = Normal then fst ` set (tbl_msg_importance s) - {k} else insert k (fst ` set (tbl_msg_importance s)))" for k v s
    by (auto simp: importance_set_def keys_upsert)
qed

section \<open>Properties\<close>

text \<open>C25: The importance a sender writes is the one a reader finds from either of the two headers alone or
  from both, whatever a relay put into the delivery header where one of them is present; and the
  side table gives back what was set last, storing no row for the default.\<close>

theorem importance_travels:
  "from_headers (header_importance i) None None = i \<and> from_headers None (header_x_priority i) None = i \<and>
   (i \<noteq> Normal \<longrightarrow> from_headers (header_importance i) x p = i \<and> from_headers None (header_x_priority i) p = i) \<and>
   importance_of_msg (importance_set m i c) m' = (if m' = m then i else importance_of_msg c m') \<and>
   (m \<in> fst ` set (tbl_msg_importance (importance_set m i c)) \<longleftrightarrow> i \<noteq> Normal)"
proof -
  have "parse_importance ''high'' = Some High" "parse_importance ''low'' = Some Low"
    "parse_x_priority ''1 (Highest)'' = Some High" "parse_x_priority ''5 (Lowest)'' = Some Low" by code_simp+
  then show ?thesis using imp.get_put imp.keys_put by (cases i) (auto simp: from_headers_def)
qed

theorem importance_travels_witness: "from_headers (header_importance High) (Some ''5'') (Some ''non-urgent'') = High"
  using importance_travels [of High "Some ''5''" "Some ''non-urgent''"] by simp

end
