(* ===== verification/Sendopts.thy ===== *)
theory Sendopts
  imports Importance Config
begin

text \<open>
  The composer's choices for one message (\<open>email/sendopts.rs\<close>, the part that stores them and splits
  the signature off the body) and the signature that is appended (\<open>email/signature.rs\<close>).
\<close>

section \<open>Options\<close>

datatype encryption_choice = Auto | Required | Plaintext

fun encryption_choice_num :: "encryption_choice \<Rightarrow> int" where
  "encryption_choice_num Auto = 0"
| "encryption_choice_num Required = 1"
| "encryption_choice_num Plaintext = 2"

definition encryption_choice_from_i64 :: "int \<Rightarrow> encryption_choice" where
  "encryption_choice_from_i64 v = (if v = 1 then Required else if v = 2 then Plaintext else Auto)"

record send_options =
  opt_encryption :: encryption_choice
  opt_signature_in_body :: bool

definition default_options :: send_options where
  "default_options = \<lparr>opt_encryption = Auto, opt_signature_in_body = False\<rparr>"

definition sendopts_set :: "msg_id \<Rightarrow> send_options \<Rightarrow> string option \<Rightarrow> ctx \<Rightarrow> ctx" where
  "sendopts_set m opts sig c =
    (if opts = default_options
     then c\<lparr>tbl_msg_send_options := delete_where (\<lambda>r. so_msg_id r = m) (tbl_msg_send_options c)\<rparr>
     else
       let row = \<lparr>so_msg_id = m, so_encryption = encryption_choice_num (opt_encryption opts),
                  so_signature_in_body = opt_signature_in_body opts,
                  so_signature = (if opt_signature_in_body opts then sig else None)\<rparr>
       in c\<lparr>tbl_msg_send_options := upsert so_msg_id (\<lambda>_. row) row (tbl_msg_send_options c)\<rparr>)"

definition sendopts_load :: "ctx \<Rightarrow> msg_id \<Rightarrow> send_options" where
  "sendopts_load c m =
    (case List.find (\<lambda>r. so_msg_id r = m) (tbl_msg_send_options c) of
       None \<Rightarrow> default_options
     | Some r \<Rightarrow> \<lparr>opt_encryption = encryption_choice_from_i64 (so_encryption r),
                 opt_signature_in_body = so_signature_in_body r\<rparr>)"

definition sendopts_signature :: "ctx \<Rightarrow> msg_id \<Rightarrow> string option" where
  "sendopts_signature c m =
    (case List.find (\<lambda>r. so_msg_id r = m) (tbl_msg_send_options c) of None \<Rightarrow> None | Some r \<Rightarrow> so_signature r)"

section \<open>The signature in the body\<close>

definition newline :: char where "newline = CHR 0x0A"

definition is_separator :: "string \<Rightarrow> bool" where "is_separator line \<longleftrightarrow> trim_end line = ''--''"

fun rposition :: "('a \<Rightarrow> bool) \<Rightarrow> 'a list \<Rightarrow> nat option" where
  "rposition p [] = None"
| "rposition p (x # xs) = (case rposition p xs of Some i \<Rightarrow> Some (Suc i) | None \<Rightarrow> if p x then Some 0 else None)"

definition split_signature :: "string \<Rightarrow> string \<times> string option" where
  "split_signature text =
    (let lines = split_char newline text in
     case rposition is_separator lines of
       None \<Rightarrow> (text, None)
     | Some at \<Rightarrow>
         let body = join [newline] (take at lines);
             sig = trim_end (join [newline] (drop 1 (drop at lines)))
         in (trim_end body, if trim sig \<noteq> [] then Some sig else None))"

section \<open>The signature that is appended\<close>

record signature =
  sg_plain :: string
  sg_html :: string

definition replace_char :: "char \<Rightarrow> string \<Rightarrow> string \<Rightarrow> string" where
  "replace_char x r s = concat (map (\<lambda>c. if c = x then r else [c]) s)"

definition default_html :: "string \<Rightarrow> string" where
  "default_html plain =
    ''<pre class='' @ [CHR 0x22] @ ''signature'' @ [CHR 0x22] @ ''>'' @
    replace_char (CHR ''>'') ''&gt;'' (replace_char (CHR ''<'') ''&lt;'' (replace_char (CHR ''&'') ''&amp;'' plain)) @
    ''</pre>''"

definition signature_load :: "ctx \<Rightarrow> signature option" where
  "signature_load c =
    (let plain = trim_end (case get_config c Config_EmailSignature of Some s \<Rightarrow> s | None \<Rightarrow> []) in
     if trim plain = [] then None
     else
       let configured_html = (case get_config c Config_EmailSignatureHtml of Some s \<Rightarrow> s | None \<Rightarrow> [])
       in Some \<lparr>sg_plain = plain,
                sg_html = (if trim configured_html = [] then default_html plain else configured_html)\<rparr>)"

definition signature_load_for :: "ctx \<Rightarrow> msg_id \<Rightarrow> signature option" where
  "signature_load_for c m =
    (if opt_signature_in_body (sendopts_load c m)
     then map_option (\<lambda>plain. \<lparr>sg_plain = plain, sg_html = []\<rparr>) (sendopts_signature c m)
     else signature_load c)"

fun rfind :: "string \<Rightarrow> string \<Rightarrow> nat option" where
  "rfind p [] = (if p = [] then Some 0 else None)"
| "rfind p (c # cs) =
    (case rfind p cs of Some i \<Rightarrow> Some (Suc i) | None \<Rightarrow> if starts_with p (c # cs) then Some 0 else None)"

definition append_to_html :: "string \<Rightarrow> signature \<Rightarrow> string" where
  "append_to_html html sig =
    (if sg_html sig = [] then html
     else
       let separator = ''<div class='' @ [CHR 0x22] @ ''signature-sep'' @ [CHR 0x22] @ ''>--</div>'';
           block = separator @ sg_html sig
       in case rfind ''</body>'' html of
            Some at \<Rightarrow> take at html @ block @ drop at html
          | None \<Rightarrow> html @ block)"

section \<open>Lemmas\<close>

lemma encryption_choice_codec [simp]: "encryption_choice_from_i64 (encryption_choice_num e) = e"
  by (cases e) (simp_all add: encryption_choice_from_i64_def)

lemma find_sendopts_set:
  "List.find (\<lambda>r. so_msg_id r = m') (tbl_msg_send_options (sendopts_set m opts sig c)) =
     (if m' \<noteq> m then List.find (\<lambda>r. so_msg_id r = m') (tbl_msg_send_options c)
      else if opts = default_options then None
      else Some \<lparr>so_msg_id = m, so_encryption = encryption_choice_num (opt_encryption opts),
                 so_signature_in_body = opt_signature_in_body opts,
                 so_signature = (if opt_signature_in_body opts then sig else None)\<rparr>)"
  by (auto simp: sendopts_set_def Let_def find_delete_key find_upsert split: option.splits)

interpretation so: sparse_table sendopts_load "\<lambda>m opts. sendopts_set m opts sig" "\<lambda>c. so_msg_id ` set (tbl_msg_send_options c)" default_options for sig
proof unfold_locales
  show "sendopts_load (sendopts_set k v sig s) k' = (if k' = k then v else sendopts_load s k')" for k v s k'
    by (simp add: sendopts_load_def find_sendopts_set)
  show "so_msg_id ` set (tbl_msg_send_options (sendopts_set k v sig s)) =
      (if v = default_options then so_msg_id ` set (tbl_msg_send_options s) - {k} else insert k (so_msg_id ` set (tbl_msg_send_options s)))" for k v s
    by (auto simp: sendopts_set_def Let_def keys_upsert)
qed

text \<open>Splitting at a character: the pieces of an appended text.\<close>

lemma split_char_append: "split_char c (s @ c # t) = split_char c s @ split_char c t"
  by (induction s) (auto split: list.splits)

lemma rposition_None: "rposition p xs = None \<longleftrightarrow> (\<forall>x \<in> set xs. \<not> p x)"
  by (induction xs) (auto split: option.splits)

lemma rposition_last: "p x \<Longrightarrow> \<forall>y \<in> set ys. \<not> p y \<Longrightarrow> rposition p (xs @ x # ys) = Some (length xs)"
proof (induction xs)
  case Nil
  then have "rposition p ys = None" by (simp add: rposition_None)
  with Nil show ?case by simp
qed simp

text \<open>Where the last \<open>rfind\<close> is: a match, and none after it.\<close>

lemma rfind_Some:
  "rfind p s = Some i \<Longrightarrow> starts_with p (drop i s) \<and> i \<le> length s \<and> (\<forall>j > i. j \<le> length s \<longrightarrow> \<not> starts_with p (drop j s))"
proof (induction s arbitrary: i)
  case Nil
  then show ?case by (auto simp: starts_with_def split: if_splits)
next
  case (Cons c cs)
  have none: "\<not> starts_with p (drop j cs)" if "rfind p cs = None" "j \<le> length cs" for j
    using that
  proof (induction cs arbitrary: j)
    case Nil
    then show ?case by (cases p) (auto simp: starts_with_def split: if_splits)
  next
    case (Cons d ds)
    then show ?case by (cases j) (auto split: option.splits if_splits)
  qed
  show ?case
  proof (cases "rfind p cs")
    case None
    with Cons.prems have i: "i = 0" "starts_with p (c # cs)" by (auto split: if_splits)
    have "\<not> starts_with p (drop j (c # cs))" if "j > 0" "j \<le> length (c # cs)" for j
      using none [OF None, of "j - 1"] that by (cases j) auto
    with i show ?thesis by auto
  next
    case (Some k)
    with Cons.prems have i: "i = Suc k" by simp
    have "\<not> starts_with p (drop j (c # cs))" if "j > i" "j \<le> length (c # cs)" for j
      using Cons.IH [OF Some] that i by (cases j) auto
    with Cons.IH [OF Some] i show ?thesis by auto
  qed
qed

lemma escape_safe: "c \<in> {CHR ''<'', CHR ''>''} \<Longrightarrow>
  c \<notin> set (replace_char (CHR ''>'') ''&gt;'' (replace_char (CHR ''<'') ''&lt;'' (replace_char (CHR ''&'') ''&amp;'' s)))"
  by (auto simp: replace_char_def split: if_splits)

section \<open>Properties\<close>

text \<open>A body with a separator line followed by a signature that holds no separator line itself is
  split into exactly the two, without trailing whitespace; a blank signature is none, and a body
  without a separator line is returned whole.\<close>

lemma split_signature_recovers:
  assumes "is_separator sep" "newline \<notin> set sep" "\<forall>line \<in> set (split_char newline sig). \<not> is_separator line"
  shows "split_signature (body @ [newline] @ sep @ [newline] @ sig) =
      (trim_end body, if trim (trim_end sig) \<noteq> [] then Some (trim_end sig) else None) \<and>
    split_signature sig = (sig, None)"
proof -
  have lines: "split_char newline (body @ [newline] @ sep @ [newline] @ sig) = split_char newline body @ sep # split_char newline sig"
    using split_char_append [of newline body "sep @ newline # sig"] split_char_append [of newline sep sig] assms(2)
    by (simp add: split_char_no)
  have at: "rposition is_separator (split_char newline body @ sep # split_char newline sig) = Some (length (split_char newline body))"
    by (rule rposition_last [OF assms(1,3)])
  have "rposition is_separator (split_char newline sig) = None" using assms(3) by (simp add: rposition_None)
  then have "split_signature sig = (sig, None)" by (simp add: split_signature_def)
  moreover have "split_signature (body @ [newline] @ sep @ [newline] @ sig) =
      (trim_end body, if trim (trim_end sig) \<noteq> [] then Some (trim_end sig) else None)"
    unfolding split_signature_def Let_def lines at by (simp add: join_split_char)
  ultimately show ?thesis by blast
qed

text \<open>A message whose signature the composer put into the body is signed once: what is appended is
  the signature split off it, or nothing, never the configured one, and the HTML part is left as
  it is; every other message is signed with the configured signature, which is never blank.\<close>

lemma signed_once:
  "signature_load_for (sendopts_set m opts sig c) m' =
     (if m' = m then (if opt_signature_in_body opts then map_option (\<lambda>p. \<lparr>sg_plain = p, sg_html = []\<rparr>) sig else signature_load c)
      else signature_load_for c m') \<and>
   append_to_html html \<lparr>sg_plain = p, sg_html = []\<rparr> = html \<and>
   (case signature_load c of None \<Rightarrow> True | Some s \<Rightarrow> trim (sg_plain s) \<noteq> [] \<and> sg_html s \<noteq> [])"
proof -
  have cfg: "signature_load (sendopts_set m opts sig c) = signature_load c"
  proof -
    have "get_config (sendopts_set m opts sig c) = get_config c"
      by (rule get_config_frame) (simp_all add: sendopts_set_def Let_def)
    then show ?thesis by (simp only: signature_load_def)
  qed
  have d: "\<not> opt_signature_in_body default_options" by (simp add: default_options_def)
  have "signature_load_for (sendopts_set m opts sig c) m' =
     (if m' = m then (if opt_signature_in_body opts then map_option (\<lambda>p. \<lparr>sg_plain = p, sg_html = []\<rparr>) sig else signature_load c)
      else signature_load_for c m')"
    unfolding signature_load_for_def so.get_put cfg sendopts_signature_def find_sendopts_set using d by auto
  moreover have "trim (sg_plain s) \<noteq> [] \<and> sg_html s \<noteq> []" if "signature_load c = Some s" for s
  proof -
    have "trim [] = []" "\<And>p. default_html p \<noteq> []" by (simp_all add: trim_def trim_matches_def trim_start_matches_def trim_end_matches_def default_html_def)
    with that show ?thesis unfolding signature_load_def Let_def by (auto split: if_splits)
  qed
  ultimately show ?thesis by (simp add: append_to_html_def split: option.splits)
qed

end
