(* ===== verification/Policy.thy ===== *)
theory Policy
  imports Encryption Sendopts
begin

text \<open>
  The rest of \<open>email/policy.rs\<close>: what a message about to be sent is pinned to, who it was addressed
  to but never sent to, the cryptographic standing of a message, and how long a downloaded message
  stays on the server.
\<close>

section \<open>Sending\<close>

definition missing_keys :: "ctx \<Rightarrow> contact_id list \<Rightarrow> string list" where
  "missing_keys c contacts =
    List.map_filter (\<lambda>i. if i = CONTACT_SELF then None
       else case find_contact c i of
           None \<Rightarrow> None
         | Some r \<Rightarrow> if c_fingerprint r = [] then Some (c_addr r) else None) contacts"

definition set_int :: "param \<Rightarrow> int \<Rightarrow> params \<Rightarrow> params" where
  "set_int k v ps = (k, v) # filter (\<lambda>p. fst p \<noteq> k) ps"

definition get_int :: "params \<Rightarrow> param \<Rightarrow> int option" where
  "get_int ps k = map_of ps k"

text \<open>The discriminants of \<open>SystemMessage\<close>; \<open>get_cmd\<close> reads anything else as \<open>Unknown\<close>.\<close>

definition system_messages :: "int list" where
  "system_messages = [0, 2, 3, 4, 5, 6, 7, 8, 9, 10, 11, 12, 13, 14, 15, 20, 30, 32, 40, 50, 66, 67, 70, 71, 72]"

definition get_cmd :: "params \<Rightarrow> int" where
  "get_cmd ps = (case get_int ps Param_Cmd of None \<Rightarrow> 0 | Some n \<Rightarrow> if n \<in> set system_messages then n else 0)"

text \<open>The result is the mode that was applied, and the params of the message afterwards.\<close>

definition prepare_send :: "ctx \<Rightarrow> msg_id \<Rightarrow> contact_id list \<Rightarrow> (params, encryption_mode) eff" where
  "prepare_send c m contacts ps =
    (let global = encryption_mode_load c;
         mode = effective c contacts
     in case opt_encryption (sendopts_load c m) of
       Plaintext \<Rightarrow>
         if mode = Strict then (Err CannotSendPlaintext, ps)
         else (Ok mode, set_int Param_ForcePlaintext 1 ps)
     | Required \<Rightarrow> (Ok mode, set_int Param_GuaranteeE2ee 1 ps)
     | Auto \<Rightarrow>
         (case mode of
            Strict \<Rightarrow>
              if global = Strict then (Ok mode, ps)
              else if missing_keys c contacts \<noteq> [] then (Err (MissingKeys (missing_keys c contacts)), ps)
              else (Ok mode, set_int Param_GuaranteeE2ee 1 ps)
          | Opportunistic \<Rightarrow> (Ok mode, ps)
          | Lenient \<Rightarrow>
              if get_cmd ps = 0 \<and> missing_keys c contacts \<noteq> []
              then (Ok mode, set_int Param_ForcePlaintext 1 ps) else (Ok mode, ps)))"

section \<open>Undelivered recipients\<close>

definition record_undelivered :: "msg_id \<Rightarrow> string list \<Rightarrow> string list \<Rightarrow> (ctx, string list) eff" where
  "record_undelivered m addressed sent_to c =
    (let sent = set (map to_lowercase sent_to);
         dropped = filter (\<lambda>a. to_lowercase a \<notin> sent) addressed
     in if dropped = [] then (Ok dropped, c)
        else (Ok dropped, c\<lparr>tbl_msg_undelivered :=
               fold (\<lambda>a. insert_or_ignore id (m, a)) dropped (tbl_msg_undelivered c)\<rparr>))"

definition undelivered :: "ctx \<Rightarrow> msg_id \<Rightarrow> string list" where
  "undelivered c m = sort (map snd (filter (\<lambda>r. fst r = m) (tbl_msg_undelivered c)))"

definition policy_prune :: "ctx \<Rightarrow> ctx" where
  "policy_prune c =
    c\<lparr>tbl_msg_undelivered := delete_where (\<lambda>r. fst r \<notin> set (live_ids c)) (tbl_msg_undelivered c)\<rparr>"

section \<open>The standing of a message\<close>

record message_crypto =
  mc_encrypted :: bool
  mc_signed :: bool
  mc_verified :: bool

definition get_showpadlock :: "msg_row \<Rightarrow> bool" where
  "get_showpadlock r \<longleftrightarrow>
     (case get_int (m_param r) Param_GuaranteeE2ee of None \<Rightarrow> False | Some v \<Rightarrow> v \<noteq> 0) \<or> m_from_id r = CONTACT_DEVICE"

definition msg_load :: "ctx \<Rightarrow> msg_id \<Rightarrow> msg_row result" where
  "msg_load c m =
    (if m \<le> 9 then Err (MessageNotFound m)
     else case find_msg c m of
         None \<Rightarrow> Err (MessageNotFound m)
       | Some r \<Rightarrow> if m_chat_id r = DC_CHAT_ID_TRASH then Err (MessageNotFound m) else Ok r)"

definition message_crypto_of :: "ctx \<Rightarrow> msg_id \<Rightarrow> message_crypto result" where
  "message_crypto_of c m =
    (case msg_load c m of
       Err e \<Rightarrow> Err e
     | Ok r \<Rightarrow>
         let encrypted = get_showpadlock r in
         if \<not> encrypted then Ok \<lparr>mc_encrypted = False, mc_signed = False, mc_verified = False\<rparr>
         else case get_by_id c (m_from_id r) of
             Err e \<Rightarrow> Err e
           | Ok contact \<Rightarrow>
               (case is_verified c contact of
                  Err e \<Rightarrow> Err e
                | Ok v \<Rightarrow> Ok \<lparr>mc_encrypted = True, mc_signed = True, mc_verified = v\<rparr>))"

section \<open>Server retention\<close>

datatype server_retention = DeleteAfterDownload | ServerDays nat | ServerNever

definition server_retention_from_days :: "int \<Rightarrow> server_retention" where
  "server_retention_from_days d = (if d = 0 then DeleteAfterDownload else if d < 0 then ServerNever else ServerDays (nat d))"

definition server_retention_load :: "ctx \<Rightarrow> server_retention" where
  "server_retention_load c = server_retention_from_days (get_config_int c Config_ServerRetentionDays)"

definition server_retention_set :: "server_retention \<Rightarrow> (ctx, unit) eff" where
  "server_retention_set r =
    set_config Config_ServerRetentionDays (Some (show_int
      (case r of DeleteAfterDownload \<Rightarrow> 0 | ServerNever \<Rightarrow> -1 | ServerDays d \<Rightarrow> min (int d) (2 ^ 31 - 1))))"

definition delete_from_server :: "string \<Rightarrow> ctx \<Rightarrow> ctx" where
  "delete_from_server mid c =
    c\<lparr>tbl_imap := update_where (\<lambda>r. im_rfc724_mid r = mid) (\<lambda>r. r\<lparr>im_target := []\<rparr>) (tbl_imap c)\<rparr>"

definition apply_server_retention :: "string \<Rightarrow> ctx \<Rightarrow> ctx" where
  "apply_server_retention mid c =
    (if mid = [] then c
     else case server_retention_load c of
         ServerNever \<Rightarrow> c
       | DeleteAfterDownload \<Rightarrow> delete_from_server mid c
       | ServerDays days \<Rightarrow>
           let delete_at = saturating_add (clock c) (saturating_mul (int days) 86400)
           in c\<lparr>tbl_server_retention := insert_or_ignore fst (mid, delete_at) (tbl_server_retention c)\<rparr>)"

definition expire_on_server :: "ctx \<Rightarrow> nat \<times> ctx" where
  "expire_on_server c =
    (let due = map fst (filter (\<lambda>r. snd r \<le> clock c) (tbl_server_retention c)) in
     if due = [] then (0, c)
     else (length due,
       fold (\<lambda>mid c. let c1 = delete_from_server mid c
                     in c1\<lparr>tbl_server_retention := delete_where (\<lambda>r. fst r = mid) (tbl_server_retention c1)\<rparr>) due c))"

section \<open>Lemmas\<close>

lemma get_int_set_int [simp]: "get_int (set_int k v ps) k' = (if k' = k then Some v else get_int ps k')"
proof -
  have "map_of (filter (\<lambda>p. fst p \<noteq> k) ps) k' = map_of ps k'" if "k' \<noteq> k"
    using that by (induction ps) auto
  then show ?thesis by (simp add: get_int_def set_int_def)
qed

lemma expire_fold:
  "fold (\<lambda>mid c. let c1 = delete_from_server mid c
                 in c1\<lparr>tbl_server_retention := delete_where (\<lambda>r. fst r = mid) (tbl_server_retention c1)\<rparr>) mids c =
   c\<lparr>tbl_imap := update_where (\<lambda>r. im_rfc724_mid r \<in> set mids) (\<lambda>r. r\<lparr>im_target := []\<rparr>) (tbl_imap c),
     tbl_server_retention := delete_where (\<lambda>r. fst r \<in> set mids) (tbl_server_retention c)\<rparr>"
proof (induction mids arbitrary: c)
  case Nil
  then show ?case by (simp add: update_where_def delete_where_def)
next
  case (Cons mid mids)
  have "update_where (\<lambda>r. im_rfc724_mid r \<in> set mids) (\<lambda>r. r\<lparr>im_target := []\<rparr>)
      (update_where (\<lambda>r. im_rfc724_mid r = mid) (\<lambda>r. r\<lparr>im_target := []\<rparr>) t) =
    update_where (\<lambda>r. im_rfc724_mid r \<in> set (mid # mids)) (\<lambda>r. r\<lparr>im_target := []\<rparr>) t" for t :: "imap_row list"
    by (auto simp: update_where_def)
  moreover have "delete_where (\<lambda>r. fst r \<in> set mids) (delete_where (\<lambda>r. fst r = mid) t) = delete_where (\<lambda>r. fst r \<in> set (mid # mids)) t"
    for t :: "(string \<times> int) list"
    by (auto simp: delete_where_def intro: filter_cong)
  ultimately show ?case using Cons by (simp add: delete_from_server_def Let_def)
qed

lemma expire_on_server_eq:
  "snd (expire_on_server c) = c\<lparr>tbl_imap := update_where (\<lambda>r. im_rfc724_mid r \<in> fst ` {x \<in> set (tbl_server_retention c). snd x \<le> clock c})
       (\<lambda>r. r\<lparr>im_target := []\<rparr>) (tbl_imap c),
     tbl_server_retention := delete_where (\<lambda>r. fst r \<in> fst ` {x \<in> set (tbl_server_retention c). snd x \<le> clock c}) (tbl_server_retention c)\<rparr>"
proof (cases "map fst (filter (\<lambda>r. snd r \<le> clock c) (tbl_server_retention c)) = []")
  case True
  then have e: "{x \<in> set (tbl_server_retention c). snd x \<le> clock c} = {}" by (auto simp: filter_empty_conv)
  show ?thesis unfolding e using True by (simp add: expire_on_server_def update_where_def delete_where_def)
next
  case False
  then show ?thesis by (simp add: expire_on_server_def Let_def expire_fold [unfolded Let_def])
qed

lemma server_retention_read_back:
  assumes "env_var c Config_ServerRetentionDays = None" "r \<noteq> ServerDays 0"
  shows "server_retention_load (snd (server_retention_set r c)) =
    (case r of ServerDays d \<Rightarrow> ServerDays (min d (2 ^ 31 - 1)) | _ \<Rightarrow> r)"
  using assms get_config_int_set [of Config_ServerRetentionDays _ c]
  by (cases r) (auto simp: server_retention_load_def server_retention_set_def server_retention_from_days_def min_def)

section \<open>Properties\<close>

text \<open>C21: A message whose mode is strict is never marked for cleartext by the policy: if it may be sent
  at all, either core enforces encryption globally or the message is pinned to encrypted, and then,
  unless the composer asked for it, every recipient is known to have a key. Cleartext is forced only
  when the composer asked for it or a lenient conversation would otherwise lose a recipient, never
  for a system message. A refused message keeps its params.\<close>

theorem prepare_send_safe:
  "case prepare_send c m ids ps of (r, ps') \<Rightarrow>
    (effective c ids = Strict \<longrightarrow> get_int ps' Param_ForcePlaintext = get_int ps Param_ForcePlaintext \<and>
       (is_ok r \<longrightarrow> encryption_mode_load c = Strict \<or> get_int ps' Param_GuaranteeE2ee = Some 1 \<and>
          (opt_encryption (sendopts_load c m) = Auto \<longrightarrow> missing_keys c ids = []))) \<and>
    (get_int ps' Param_ForcePlaintext \<noteq> get_int ps Param_ForcePlaintext \<longrightarrow>
       effective c ids \<noteq> Strict \<and> (opt_encryption (sendopts_load c m) = Plaintext \<or>
         effective c ids = Lenient \<and> get_cmd ps = 0 \<and> missing_keys c ids \<noteq> [])) \<and>
    (\<not> is_ok r \<longrightarrow> ps' = ps) \<and> (is_ok r \<longrightarrow> r = Ok (effective c ids))"
  by (simp add: prepare_send_def Let_def split: encryption_choice.splits encryption_mode.splits)

definition strict_friend :: ctx where
  "strict_friend = encryption_mode_set_for_contact 10 (Some Strict)
     (cold_mail\<lparr>tbl_config := (\<lambda>k. if k = Config_ForceEncryption then Some ''0'' else None)\<rparr>)"

theorem prepare_send_safe_witness: "\<not> is_ok (fst (prepare_send strict_friend 11 [10] [])) \<and> snd (prepare_send strict_friend 11 [10] []) = []"
proof -
  have "effective strict_friend [10] = Strict" "encryption_mode_load strict_friend \<noteq> Strict"
    "opt_encryption (sendopts_load strict_friend 11) = Auto" "missing_keys strict_friend [10] \<noteq> []" by code_simp+
  with prepare_send_safe [where c = strict_friend and m = 11 and ids = "[10]" and ps = "[]"] show ?thesis
    by (cases "prepare_send strict_friend 11 [10] []") auto
qed

text \<open>The recipients a message was addressed to but not sent to are recorded exactly, without regard
  to case: what is returned are the addresses missing from the envelope, they are added to what is
  recorded for the message, each once, and no other message's record changes.\<close>

lemma undelivered_exact:
  assumes "distinct (tbl_msg_undelivered c)"
  shows "\<exists>d c'. record_undelivered m addressed sent_to c = (Ok d, c') \<and>
    set d = {a \<in> set addressed. to_lowercase a \<notin> to_lowercase ` set sent_to} \<and>
    (\<forall>m'. set (undelivered c' m') = (if m' = m then set d \<union> set (undelivered c m) else set (undelivered c m'))) \<and>
    distinct (tbl_msg_undelivered c') \<and> distinct (undelivered c' m)"
proof -
  let ?d = "filter (\<lambda>a. to_lowercase a \<notin> set (map to_lowercase sent_to)) addressed"
  have ins: "set (fold (\<lambda>a. insert_or_ignore id (m, a)) xs t) = (\<lambda>a. (m, a)) ` set xs \<union> set t" for xs t
    by (induction xs arbitrary: t) (auto simp: set_insert_or_ignore)
  have dist: "distinct t \<Longrightarrow> distinct (fold (\<lambda>a. insert_or_ignore id (m, a)) xs t)" for xs t
    by (induction xs arbitrary: t) (auto simp: insert_or_ignore_def list_ex_iff)
  define c' where "c' = c\<lparr>tbl_msg_undelivered := fold (\<lambda>a. insert_or_ignore id (m, a)) ?d (tbl_msg_undelivered c)\<rparr>"
  have run: "record_undelivered m addressed sent_to c = (Ok ?d, c')"
    unfolding record_undelivered_def Let_def c'_def by (cases "?d = []") simp_all
  have "set (undelivered c' m') = (if m' = m then set ?d \<union> set (undelivered c m) else set (undelivered c m'))" for m'
    unfolding undelivered_def c'_def by (auto simp: ins image_iff)
  moreover have d': "distinct (tbl_msg_undelivered c')" unfolding c'_def using dist assms by simp
  then have "distinct (undelivered c' m)"
    by (auto simp: undelivered_def distinct_map inj_on_def)
  moreover have "set ?d = {a \<in> set addressed. to_lowercase a \<notin> to_lowercase ` set sent_to}" by auto
  ultimately show ?thesis using run d' by blast
qed

text \<open>C22: Of a message that was just received, the server's copies are marked for deletion at once, from
  the end of the configured number of days on, or never, as the setting of that moment says; the
  copies of every other message are marked exactly when their own deadline has passed.\<close>

theorem server_retention_exact:
  assumes "mid \<noteq> []" "mid \<notin> fst ` set (tbl_server_retention c)"
  shows "tbl_imap (snd (expire_on_server ((apply_server_retention mid c)\<lparr>clock := t\<rparr>))) =
    update_where (\<lambda>r. im_rfc724_mid r \<in> fst ` {x \<in> set (tbl_server_retention c). snd x \<le> t} \<or>
        im_rfc724_mid r = mid \<and> (case server_retention_load c of DeleteAfterDownload \<Rightarrow> True | ServerNever \<Rightarrow> False
          | ServerDays d \<Rightarrow> saturating_add (clock c) (saturating_mul (int d) 86400) \<le> t))
      (\<lambda>r. r\<lparr>im_target := []\<rparr>) (tbl_imap c)"
proof (cases "server_retention_load c")
  case (ServerDays d)
  let ?at = "saturating_add (clock c) (saturating_mul (int d) 86400)"
  have "fst ` {x \<in> set (insert_or_ignore fst (mid, ?at) (tbl_server_retention c)). snd x \<le> t} =
      fst ` {x \<in> set (tbl_server_retention c). snd x \<le> t} \<union> (if ?at \<le> t then {mid} else {})"
  proof -
    have "{x \<in> insert y S. snd x \<le> t} = (if snd y \<le> t then insert y {x \<in> S. snd x \<le> t} else {x \<in> S. snd x \<le> t})"
      for y and S :: "(string \<times> int) set" by auto
    then show ?thesis using assms(2) by (simp add: set_insert_or_ignore)
  qed
  then show ?thesis
    using assms ServerDays unfolding expire_on_server_eq by (auto simp: apply_server_retention_def Let_def update_where_def)
qed (use assms in \<open>auto simp: expire_on_server_eq apply_server_retention_def delete_from_server_def update_where_def\<close>)

definition kept_week :: ctx where
  "kept_week = fresh_db\<lparr>clock := 1000, tbl_config := (\<lambda>k. if k = Config_ServerRetentionDays then Some ''7'' else None),
     tbl_imap := [\<lparr>im_rfc724_mid = ''a@b'', im_target = ''INBOX''\<rparr>]\<rparr>"

theorem server_retention_exact_witness:
  "tbl_imap (snd (expire_on_server ((apply_server_retention ''a@b'' kept_week)\<lparr>clock := 605799\<rparr>))) = [\<lparr>im_rfc724_mid = ''a@b'', im_target = ''INBOX''\<rparr>] \<and>
   tbl_imap (snd (expire_on_server ((apply_server_retention ''a@b'' kept_week)\<lparr>clock := 605800\<rparr>))) = [\<lparr>im_rfc724_mid = ''a@b'', im_target = []\<rparr>]"
proof -
  have l: "server_retention_load kept_week = ServerDays 7" by code_simp
  have r: "tbl_server_retention kept_week = []" "tbl_imap kept_week = [\<lparr>im_rfc724_mid = ''a@b'', im_target = ''INBOX''\<rparr>]" "clock kept_week = 1000"
    by (simp_all add: kept_week_def fresh_db_def)
  have a: "saturating_add 1000 (saturating_mul 7 86400) = 605800" by (simp add: sat_defs)
  show ?thesis
    using server_retention_exact [of "''a@b''" kept_week 605799] server_retention_exact [of "''a@b''" kept_week 605800]
    by (simp add: r l a update_where_def)
qed

end
