(* ===== verification/Recipients.thy ===== *)
theory Recipients
  imports Contacts "HOL-Library.Multiset"
begin

text \<open>
  \<open>email/recipients.rs\<close>: the recipient set a message carries itself. \<open>SingleInfo\<close> is the address
  type of the mail parser; the addresses of a header of one MIME part are an argument of \<open>merge\<close>.
\<close>

section \<open>Recipients\<close>

datatype recipient_kind = To | Cc | Bcc

fun recipient_kind_num :: "recipient_kind \<Rightarrow> int" where
  "recipient_kind_num To = 0"
| "recipient_kind_num Cc = 1"
| "recipient_kind_num Bcc = 2"

definition recipient_kind_from_i64 :: "int \<Rightarrow> recipient_kind option" where
  "recipient_kind_from_i64 v =
    (if v = 0 then Some To else if v = 1 then Some Cc else if v = 2 then Some Bcc else None)"

record recipient =
  rc_kind :: recipient_kind
  rc_addr :: string
  rc_name :: string

record single_info =
  si_addr :: string
  si_display_name :: "string option"

definition from_single_info :: "recipient_kind \<Rightarrow> single_info \<Rightarrow> recipient" where
  "from_single_info k info =
    \<lparr>rc_kind = k, rc_addr = si_addr info, rc_name = (case si_display_name info of Some n \<Rightarrow> n | None \<Rightarrow> [])\<rparr>"

record header_recipients =
  hr_to :: "single_info list"
  hr_cc :: "single_info list"

definition header_recipients_merge :: "(string \<Rightarrow> single_info list) \<Rightarrow> bool \<Rightarrow> header_recipients \<Rightarrow> header_recipients" where
  "header_recipients_merge headers has_header_protection h =
    (let to = headers ''to''; cc = headers ''cc'' in
     if has_header_protection \<or> to \<noteq> [] \<or> cc \<noteq> [] then h\<lparr>hr_to := to, hr_cc := cc\<rparr> else h)"

definition to_recipients :: "header_recipients \<Rightarrow> recipient list" where
  "to_recipients h = map (from_single_info To) (hr_to h) @ map (from_single_info Cc) (hr_cc h)"

definition recipient_row_of :: "msg_id \<Rightarrow> nat \<times> recipient \<Rightarrow> recipient_row" where
  "recipient_row_of m p =
    \<lparr>r_msg_id = m, r_kind = recipient_kind_num (rc_kind (snd p)), r_addr = rc_addr (snd p), r_name = rc_name (snd p),
     r_ord = (if int (fst p) \<le> i64_max then int (fst p) else i64_max)\<rparr>"

definition recipients_store :: "msg_id \<Rightarrow> recipient list \<Rightarrow> ctx \<Rightarrow> ctx" where
  "recipients_store m recipients c =
    c\<lparr>tbl_msg_recipients :=
      fold (\<lambda>p. insert_or_ignore (\<lambda>r. (r_msg_id r, r_kind r, r_addr r)) (recipient_row_of m p))
        (enumerate 0 recipients)
        (delete_where (\<lambda>r. r_msg_id r = m) (tbl_msg_recipients c))\<rparr>"

definition recipient_of_row :: "recipient_row \<Rightarrow> recipient option" where
  "recipient_of_row r =
    map_option (\<lambda>k. \<lparr>rc_kind = k, rc_addr = r_addr r, rc_name = r_name r\<rparr>) (recipient_kind_from_i64 (r_kind r))"

definition recipients_load :: "ctx \<Rightarrow> msg_id \<Rightarrow> recipient list" where
  "recipients_load c m =
    List.map_filter recipient_of_row
      (sort_key (\<lambda>r. (r_kind r, r_ord r)) (filter (\<lambda>r. r_msg_id r = m) (tbl_msg_recipients c)))"

definition load_kind :: "ctx \<Rightarrow> msg_id \<Rightarrow> recipient_kind \<Rightarrow> recipient list" where
  "load_kind c m k = filter (\<lambda>r. rc_kind r = k) (recipients_load c m)"

definition member_names :: "ctx \<Rightarrow> contact_id list \<Rightarrow> string list" where
  "member_names c ids =
    List.map_filter (\<lambda>i. if i = CONTACT_SELF then None
       else case get_by_id c i of Ok contact \<Rightarrow> Some (get_display_name contact) | Err _ \<Rightarrow> None) ids"

definition to_display :: "ctx \<Rightarrow> msg_id \<Rightarrow> string" where
  "to_display c m =
    (let to = load_kind c m To in
     if to \<noteq> [] then join '', '' (map (\<lambda>r. if rc_name r = [] then rc_addr r else rc_name r) to)
     else case find_msg c m of
       None \<Rightarrow> []
     | Some r \<Rightarrow> join '', '' (member_names c (get_chat_contacts c (m_chat_id r))))"

definition recipients_delete :: "msg_id \<Rightarrow> ctx \<Rightarrow> ctx" where
  "recipients_delete m c = c\<lparr>tbl_msg_recipients := delete_where (\<lambda>r. r_msg_id r = m) (tbl_msg_recipients c)\<rparr>"

definition recipients_prune :: "ctx \<Rightarrow> ctx" where
  "recipients_prune c =
    c\<lparr>tbl_msg_recipients := delete_where (\<lambda>r. r_msg_id r \<notin> set (live_ids c)) (tbl_msg_recipients c)\<rparr>"

section \<open>Lemmas\<close>

text \<open>Keeping the first of the elements with one key.\<close>

fun dedup_by :: "('a \<Rightarrow> 'k) \<Rightarrow> 'a list \<Rightarrow> 'a list" where
  "dedup_by f [] = []"
| "dedup_by f (x # xs) = x # dedup_by f (filter (\<lambda>y. f y \<noteq> f x) xs)"

lemma set_dedup_by: "set (dedup_by f xs) \<subseteq> set xs"
  by (induction f xs rule: dedup_by.induct) auto

lemma dedup_by_keys: "f ` set (dedup_by f xs) = f ` set xs"
  by (induction f xs rule: dedup_by.induct) (auto simp: image_iff)

lemma distinct_dedup_by: "distinct (map f (dedup_by f xs))"
proof (induction f xs rule: dedup_by.induct)
  case (2 f x xs)
  then show ?case using set_dedup_by [of f "filter (\<lambda>y. f y \<noteq> f x) xs"] by auto
qed simp

lemma dedup_by_filter:
  assumes "\<And>x y. f x = f y \<Longrightarrow> p x = p y"
  shows "filter p (dedup_by f xs) = dedup_by f (filter p xs)"
proof (induction "length xs" arbitrary: xs rule: less_induct)
  case less
  show ?case
  proof (cases xs)
    case (Cons x ys)
    let ?ys = "filter (\<lambda>y. f y \<noteq> f x) ys"
    have "length ?ys < length xs" by (simp add: Cons le_imp_less_Suc)
    then have IH: "filter p (dedup_by f ?ys) = dedup_by f (filter p ?ys)" by (rule less)
    have "filter p ?ys = filter p ys" if "\<not> p x"
      unfolding filter_filter by (rule filter_cong [OF refl]) (metis assms that)
    moreover have "filter (\<lambda>y. f y \<noteq> f x) (filter p ys) = filter p ?ys"
      unfolding filter_filter by (rule filter_cong [OF refl]) blast
    ultimately show ?thesis by (simp add: Cons IH)
  qed simp
qed

lemma dedup_by_map: "dedup_by f (map g xs) = map g (dedup_by (f \<circ> g) xs)"
  by (induction "f \<circ> g" xs rule: dedup_by.induct) (auto simp: filter_map comp_def)

lemma dedup_by_cong: "(\<And>x y. x \<in> set xs \<Longrightarrow> y \<in> set xs \<Longrightarrow> f x = f y \<longleftrightarrow> g x = g y) \<Longrightarrow> dedup_by f xs = dedup_by g xs"
proof (induction f xs rule: dedup_by.induct)
  case (2 f x xs)
  have "filter (\<lambda>y. f y \<noteq> f x) xs = filter (\<lambda>y. g y \<noteq> g x) xs" by (rule filter_cong [OF refl]) (use 2(2) in auto)
  moreover have "dedup_by f (filter (\<lambda>y. f y \<noteq> f x) xs) = dedup_by g (filter (\<lambda>y. f y \<noteq> f x) xs)"
    by (rule 2(1)) (use 2(2) in auto)
  ultimately show ?case by simp
qed simp

lemma sorted_map_dedup_by: "sorted (map h xs) \<Longrightarrow> sorted (map h (dedup_by f xs))"
proof (induction f xs rule: dedup_by.induct)
  case (2 f x xs)
  have "sorted (map h (filter (\<lambda>y. f y \<noteq> f x) xs))" using 2(2) by (simp add: sorted_filter)
  with 2 set_dedup_by [of f "filter (\<lambda>y. f y \<noteq> f x) xs"] show ?case by auto
qed simp

text \<open>Inserting rows one after the other, where a row whose key is taken is ignored.\<close>

lemma fold_insert_or_ignore:
  "fold (insert_or_ignore key) xs t = t @ dedup_by key (filter (\<lambda>x. key x \<notin> key ` set t) xs)"
proof (induction xs arbitrary: t)
  case (Cons x xs)
  have "filter (\<lambda>y. key y \<notin> key ` set (t @ [x])) xs = filter (\<lambda>y. key y \<noteq> key x) (filter (\<lambda>y. key y \<notin> key ` set t) xs)"
    by (auto simp: filter_filter intro!: filter_cong)
  with Cons show ?case
    by (auto simp: insert_or_ignore_def list_ex_iff image_iff) 
qed simp

text \<open>Sorting by a class and then by a number that is in order already.\<close>

lemma sort_key_classes:
  assumes "sorted (map g xs)" "sorted ks" "distinct ks" "f ` set xs \<subseteq> set ks"
  shows "sort_key (\<lambda>x. (f x, g x)) xs = concat (map (\<lambda>k. filter (\<lambda>x. f x = k) xs) ks)"
proof (rule properties_for_sort_key)
  let ?c = "\<lambda>ks. concat (map (\<lambda>k. filter (\<lambda>x. f x = k) xs) ks)"
  have m: "distinct js \<Longrightarrow> mset (?c js) = filter_mset (\<lambda>x. f x \<in> set js) (mset xs)" for js
  proof (induction js)
    case (Cons j js)
    have "filter_mset (\<lambda>x. f x \<in> set (j # js)) M = filter_mset (\<lambda>x. f x = j) M + filter_mset (\<lambda>x. f x \<in> set js) M" for M
      using Cons.prems by (induction M) auto
    with Cons show ?case by simp
  qed simp
  have "filter_mset (\<lambda>x. f x \<in> set ks) (mset xs) = mset xs" using assms(4) by (simp add: filter_mset_eq_conv subset_iff)
  with m [OF assms(3)] show "mset (?c ks) = mset xs" by simp
  have fl: "distinct js \<Longrightarrow> filter (\<lambda>x. (a, b) = (f x, g x)) (?c js) = (if a \<in> set js then filter (\<lambda>x. (a, b) = (f x, g x)) xs else [])" for js a b
    by (induction js) (auto simp: filter_filter intro!: filter_cong filter_False)
  show "filter (\<lambda>x. (f k, g k) = (f x, g x)) (?c ks) = filter (\<lambda>x. (f k, g k) = (f x, g x)) xs" if "k \<in> set (?c ks)" for k
    using fl [OF assms(3), of "f k" "g k"] assms(4) that by auto
  show "sorted (map (\<lambda>x. (f x, g x)) (?c ks))"
    using assms(2,3)
  proof (induction ks)
    case (Cons k ks)
    have "sorted (map g (filter (\<lambda>x. f x = k) xs))" using assms(1) by (rule sorted_filter)
    then have "sorted (map (\<lambda>x. (f x, g x)) (filter (\<lambda>x. f x = k) xs))"
      by (auto simp: sorted_wrt_map elim!: sorted_wrt_mono_rel [rotated])
    moreover have "(f x, g x) \<le> (f y, g y)" if "f x = k" "f y \<in> set ks" for x y
      using Cons.prems that by (auto simp: less_le)
    ultimately show ?case using Cons by (auto simp: sorted_append)
  qed simp
qed

lemma recipient_codec [simp]: "recipient_kind_from_i64 (recipient_kind_num k) = Some k"
  by (cases k) (simp_all add: recipient_kind_from_i64_def)

lemma recipient_kind_num_inj [simp]: "recipient_kind_num a = recipient_kind_num b \<longleftrightarrow> a = b"
  by (cases a; cases b) simp_all

lemma recipient_row_of_simps [simp]:
  "r_msg_id (recipient_row_of m p) = m" "r_kind (recipient_row_of m p) = recipient_kind_num (rc_kind (snd p))"
  "r_addr (recipient_row_of m p) = rc_addr (snd p)"
  by (simp_all add: recipient_row_of_def)

lemma recipient_of_row_of [simp]: "recipient_of_row (recipient_row_of m p) = Some (snd p)"
  by (simp add: recipient_of_row_def recipient_row_of_def)

definition rc_key :: "recipient \<Rightarrow> recipient_kind \<times> string" where "rc_key r = (rc_kind r, rc_addr r)"

lemma enumerate_dedup: "map snd (dedup_by (f \<circ> snd) (enumerate n xs)) = dedup_by f xs"
  using dedup_by_map [of f snd "enumerate n xs"] by simp

lemma stored_rows:
  "filter (\<lambda>r. r_msg_id r = m') (tbl_msg_recipients (recipients_store m rs c)) =
     (if m' = m then map (recipient_row_of m) (dedup_by (rc_key \<circ> snd) (enumerate 0 rs))
      else filter (\<lambda>r. r_msg_id r = m') (tbl_msg_recipients c))"
proof -
  let ?key = "\<lambda>r::recipient_row. (r_msg_id r, r_kind r, r_addr r)"
  let ?t = "delete_where (\<lambda>r. r_msg_id r = m) (tbl_msg_recipients c)"
  have "tbl_msg_recipients (recipients_store m rs c) = fold (insert_or_ignore ?key) (map (recipient_row_of m) (enumerate 0 rs)) ?t"
    by (simp add: recipients_store_def fold_map comp_def)
  also have "\<dots> = ?t @ dedup_by ?key (map (recipient_row_of m) (enumerate 0 rs))"
  proof -
    have "filter (\<lambda>x. ?key x \<notin> ?key ` set ?t) (map (recipient_row_of m) (enumerate 0 rs)) = map (recipient_row_of m) (enumerate 0 rs)"
      by (rule filter_True) auto
    then show ?thesis unfolding fold_insert_or_ignore by simp
  qed
  also have "dedup_by ?key (map (recipient_row_of m) (enumerate 0 rs)) = map (recipient_row_of m) (dedup_by (?key \<circ> recipient_row_of m) (enumerate 0 rs))"
    by (rule dedup_by_map)
  also have "dedup_by (?key \<circ> recipient_row_of m) (enumerate 0 rs) = dedup_by (rc_key \<circ> snd) (enumerate 0 rs)"
    by (rule dedup_by_cong) (simp add: rc_key_def)
  finally have eq: "tbl_msg_recipients (recipients_store m rs c) = ?t @ map (recipient_row_of m) (dedup_by (rc_key \<circ> snd) (enumerate 0 rs))" .
  show ?thesis
    unfolding eq by (auto simp: delete_where_def filter_map comp_def intro: filter_cong)
qed

section \<open>Properties\<close>

text \<open>The stored recipient set reads back as it was stored: To, then Cc, then Bcc, each in the order
  given, an address that is repeated within one kind kept with the name of its first mention. The
  recipients of every other message are untouched.\<close>

theorem recipients_round_trip:
  "recipients_load (recipients_store m rs c) m' =
     (if m' = m then concat (map (\<lambda>k. dedup_by rc_addr (filter (\<lambda>r. rc_kind r = k) rs)) [To, Cc, Bcc]) else recipients_load c m')"
proof (cases "m' = m")
  case True
  define ps where "ps = dedup_by (rc_key \<circ> snd) (enumerate 0 rs)"
  have "sorted (map fst (enumerate 0 rs))" by simp
  then have "sorted (map fst ps)" unfolding ps_def by (rule sorted_map_dedup_by)
  then have ord: "sorted (map r_ord (map (recipient_row_of m) ps))"
    by (auto simp: recipient_row_of_def sorted_wrt_map comp_def elim!: sorted_wrt_mono_rel [rotated])
  have "sort_key (\<lambda>r. (r_kind r, r_ord r)) (map (recipient_row_of m) ps) =
      concat (map (\<lambda>k. filter (\<lambda>r. r_kind r = k) (map (recipient_row_of m) ps)) (map recipient_kind_num [To, Cc, Bcc]))"
    by (rule sort_key_classes [OF ord]) (auto, (metis recipient_kind.exhaust recipient_kind_num.simps)+)
  also have "\<dots> = concat (map (\<lambda>k. map (recipient_row_of m) (filter (\<lambda>p. rc_kind (snd p) = k) ps)) [To, Cc, Bcc])"
    by (simp add: filter_map comp_def flip: recipient_kind_num.simps)
  finally have "recipients_load (recipients_store m rs c) m = concat (map (\<lambda>k. map snd (filter (\<lambda>p. rc_kind (snd p) = k) ps)) [To, Cc, Bcc])"
    unfolding recipients_load_def stored_rows ps_def [symmetric] by (simp add: List.map_filter_def filter_map comp_def)
  moreover have "map snd (filter (\<lambda>p. rc_kind (snd p) = k) ps) = dedup_by rc_addr (filter (\<lambda>r. rc_kind r = k) rs)" for k
  proof -
    have "map snd (filter (\<lambda>p. rc_kind (snd p) = k) ps) = filter (\<lambda>r. rc_kind r = k) (dedup_by rc_key rs)"
      using enumerate_dedup [of rc_key 0 rs] unfolding ps_def by (metis (no_types, lifting) comp_apply filter_cong filter_map)
    also have "\<dots> = dedup_by rc_key (filter (\<lambda>r. rc_kind r = k) rs)" by (rule dedup_by_filter) (simp add: rc_key_def)
    also have "\<dots> = dedup_by rc_addr (filter (\<lambda>r. rc_kind r = k) rs)" by (rule dedup_by_cong) (auto simp: rc_key_def)
    finally show ?thesis .
  qed
  ultimately show ?thesis using True by simp
qed (simp add: recipients_load_def stored_rows)

end
