(* ===== verification/Receipts.thy ===== *)
theory Receipts
  imports Encryption "HOL-Library.Extended_Nat"
begin

text \<open>
  \<open>email/receipts.rs\<close>: who gets read receipts, and the ephemeral timer a new conversation starts
  with, together with the two functions of core's \<open>ephemeral.rs\<close> that read and write the timer of
  a chat.
\<close>

section \<open>Read receipts\<close>

datatype mdn_policy = MdnNever | MdnVerifiedOnly | MdnAlways

fun mdn_policy_num :: "mdn_policy \<Rightarrow> int" where
  "mdn_policy_num MdnNever = 0"
| "mdn_policy_num MdnVerifiedOnly = 1"
| "mdn_policy_num MdnAlways = 2"

definition mdn_policy_from_i64 :: "int \<Rightarrow> mdn_policy" where
  "mdn_policy_from_i64 v = (if v = 0 then MdnNever else if v = 1 then MdnVerifiedOnly else MdnAlways)"

definition mdn_policy_load :: "ctx \<Rightarrow> mdn_policy" where
  "mdn_policy_load c = (if \<not> should_send_mdns c then MdnNever else mdn_policy_from_i64 (get_config_int c Config_MdnPolicy))"

definition mdn_policy_set :: "mdn_policy \<Rightarrow> (ctx, unit) eff" where
  "mdn_policy_set policy =
    bind_eff (set_config_bool Config_MdnsEnabled (policy \<noteq> MdnNever)) (\<lambda>_.
    set_config Config_MdnPolicy (Some (show_int (mdn_policy_num policy))))"

definition mdn_for_contact :: "ctx \<Rightarrow> contact_id \<Rightarrow> bool option" where
  "mdn_for_contact c i = map_option (\<lambda>v. v \<noteq> 0) (Option.bind (find_policy c i) cp_mdn_enabled)"

definition set_mdn_for_contact :: "contact_id \<Rightarrow> bool option \<Rightarrow> ctx \<Rightarrow> ctx" where
  "set_mdn_for_contact i enabled = upsert_policy i (\<lambda>p. p\<lparr>cp_mdn_enabled := map_option (\<lambda>b. if b then 1 else 0) enabled\<rparr>)"

definition should_send_mdn :: "ctx \<Rightarrow> contact_id \<Rightarrow> bool result" where
  "should_send_mdn c i =
    (let policy = mdn_policy_load c in
     if policy = MdnNever then Ok False
     else case mdn_for_contact c i of
       Some enabled \<Rightarrow> Ok enabled
     | None \<Rightarrow>
         (case policy of
            MdnNever \<Rightarrow> Ok False
          | MdnAlways \<Rightarrow> Ok True
          | MdnVerifiedOnly \<Rightarrow>
              (case get_by_id c i of
                 Err _ \<Rightarrow> Ok False
               | Ok contact \<Rightarrow>
                   (case is_verified c contact of Err e \<Rightarrow> Err e | Ok v \<Rightarrow> Ok (v \<and> is_known (c_origin contact))))))"

section \<open>Timers\<close>

definition timer_from_secs :: "int \<Rightarrow> timer" where
  "timer_from_secs secs = (if 0 < secs \<and> secs < 2 ^ 32 then Enabled (nat secs) else Disabled)"

definition timer_for_contact :: "ctx \<Rightarrow> contact_id \<Rightarrow> timer option" where
  "timer_for_contact c i = map_option timer_from_secs (Option.bind (find_policy c i) cp_ephemeral_secs)"

definition set_timer_for_contact :: "contact_id \<Rightarrow> timer option \<Rightarrow> ctx \<Rightarrow> ctx" where
  "set_timer_for_contact i timer = upsert_policy i (\<lambda>p. p\<lparr>cp_ephemeral_secs := map_option (\<lambda>t. int (timer_to_u32 t)) timer\<rparr>)"

definition default_timer :: "ctx \<Rightarrow> timer" where
  "default_timer c = timer_from_secs (get_config_int c Config_EphemeralDefaultSeconds)"

definition set_default_timer :: "timer \<Rightarrow> (ctx, unit) eff" where
  "set_default_timer timer = set_config Config_EphemeralDefaultSeconds (Some (show_nat (timer_to_u32 timer)))"

fun shorter :: "timer \<Rightarrow> timer \<Rightarrow> timer" where
  "shorter Disabled other = other"
| "shorter other Disabled = other"
| "shorter (Enabled x) (Enabled y) = Enabled (min x y)"

definition effective_default_timer :: "ctx \<Rightarrow> contact_id list \<Rightarrow> timer" where
  "effective_default_timer c contacts =
    fold (\<lambda>i timer. if i = CONTACT_SELF then timer
                    else case timer_for_contact c i of None \<Rightarrow> timer | Some t \<Rightarrow> shorter timer t)
      contacts (default_timer c)"

definition get_ephemeral_timer :: "ctx \<Rightarrow> chat_id \<Rightarrow> timer result" where
  "get_ephemeral_timer c i =
    (case List.find (\<lambda>ch. ch_id ch = i) (tbl_chats c) of
       None \<Rightarrow> Err (ChatNotFound i)
     | Some ch \<Rightarrow> Ok (timer_from_u32 (case ch_ephemeral_timer ch of None \<Rightarrow> 0 | Some d \<Rightarrow> d)))"

definition inner_set_ephemeral_timer :: "chat_id \<Rightarrow> timer \<Rightarrow> (ctx, unit) eff" where
  "inner_set_ephemeral_timer i timer c =
    (if is_special_chat i then (Err (SpecialChat i), c)
     else (Ok (), c\<lparr>tbl_chats := update_where (\<lambda>ch. ch_id ch = i) (\<lambda>ch. ch\<lparr>ch_ephemeral_timer := Some (timer_to_u32 timer)\<rparr>) (tbl_chats c)\<rparr>))"

definition sent_before :: "ctx \<Rightarrow> chat_id \<Rightarrow> msg_id \<Rightarrow> bool" where
  "sent_before c i m = exists_where (\<lambda>r. m_chat_id r = i \<and> m_from_id r = CONTACT_SELF \<and> m_id r < m \<and> \<not> m_hidden r) (tbl_msgs c)"

definition apply_default_timer :: "chat_id \<Rightarrow> msg_id \<Rightarrow> contact_id list \<Rightarrow> (ctx, unit) eff" where
  "apply_default_timer i m contacts c =
    (case get_ephemeral_timer c i of
       Err e \<Rightarrow> (Err e, c)
     | Ok t \<Rightarrow>
         if t \<noteq> Disabled then (Ok (), c)
         else
           let timer = effective_default_timer c contacts in
           if timer = Disabled then (Ok (), c)
           else if sent_before c i m then (Ok (), c)
           else inner_set_ephemeral_timer i timer c)"

definition receipts_prune :: "ctx \<Rightarrow> ctx" where
  "receipts_prune c =
    c\<lparr>tbl_contact_policy := delete_where (\<lambda>p. cp_contact_id p \<notin> c_id ` set (tbl_contacts c)) (tbl_contact_policy c)\<rparr>"

section \<open>Lemmas\<close>

lemma mdn_policy_codec [simp]: "mdn_policy_from_i64 (mdn_policy_num p) = p"
  by (cases p) (simp_all add: mdn_policy_from_i64_def)

lemma timer_from_secs_to_u32: "wf_timer t \<Longrightarrow> timer_from_secs (int (timer_to_u32 t)) = t"
  by (cases t) (auto simp: timer_from_secs_def wf_timer_def)

interpretation tm: override_fold shorter
  "\<lambda>g ov ks. fold (\<lambda>i timer. case ov i of None \<Rightarrow> timer | Some t \<Rightarrow> shorter timer t) ks g"
proof unfold_locales
  show "shorter (shorter a b) c = shorter a (shorter b c)" for a b c by (cases a; cases b; cases c) simp_all
  show "shorter a b = shorter b a" for a b by (cases a; cases b) simp_all
  show "shorter a a = a" for a by (cases a) simp_all
qed (simp_all split: option.splits)

text \<open>How long a timer lets a message live; no timer is for ever.\<close>

fun lifetime :: "timer \<Rightarrow> enat" where
  "lifetime Disabled = \<infinity>"
| "lifetime (Enabled d) = enat d"

lemma lifetime_inj [simp]: "lifetime a = lifetime b \<longleftrightarrow> a = b"
  by (cases a; cases b) simp_all

lemma lifetime_shorter: "shorter a b = a \<longleftrightarrow> lifetime a \<le> lifetime b"
  by (cases a; cases b) (auto simp: min_def)

text \<open>The overrides that count for a conversation: those of everybody but the account itself.\<close>

definition timer_override :: "ctx \<Rightarrow> contact_id \<Rightarrow> timer option" where
  "timer_override c i = (if i = CONTACT_SELF then None else timer_for_contact c i)"

lemma effective_default_timer_fold:
  "effective_default_timer c ids =
     fold (\<lambda>i timer. case timer_override c i of None \<Rightarrow> timer | Some t \<Rightarrow> shorter timer t) ids (default_timer c)"
  unfolding effective_default_timer_def by (rule fold_cong) (auto simp: timer_override_def fun_eq_iff)

lemma default_timer_read_back:
  assumes "env_var c Config_EphemeralDefaultSeconds = None" "wf_timer t"
  shows "fst (set_default_timer t c) = Ok ()"
    "default_timer (snd (set_default_timer t c)) = (if timer_to_u32 t < 2 ^ 31 then t else Disabled)"
proof -
  have nat: "show_nat (timer_to_u32 t) = show_int (int (timer_to_u32 t))" by (simp add: show_int_def)
  show "fst (set_default_timer t c) = Ok ()" by (simp add: set_default_timer_def set_config_Ok)
  have "get_config_int (snd (set_default_timer t c)) Config_EphemeralDefaultSeconds =
      (if timer_to_u32 t < 2 ^ 31 then int (timer_to_u32 t) else 0)"
    using get_config_int_set [of Config_EphemeralDefaultSeconds "int (timer_to_u32 t)" c] assms(1)
    by (simp add: set_default_timer_def nat)
  moreover have "timer_from_secs 0 = Disabled" by (simp add: timer_from_secs_def)
  ultimately show "default_timer (snd (set_default_timer t c)) = (if timer_to_u32 t < 2 ^ 31 then t else Disabled)"
    using timer_from_secs_to_u32 [OF assms(2)] by (simp add: default_timer_def)
qed

lemma is_verified_total: "get_by_id c i = Ok r \<Longrightarrow> \<exists>v. is_verified c r = Ok v"
proof -
  assume g: "get_by_id c i = Ok r"
  then obtain x where "find_contact c i = Some x" by (auto simp: get_by_id_def get_by_id_optional_def split: option.splits)
  with get_by_id_c_id [OF g] show ?thesis by (auto simp: is_verified_def get_verifier_id_def)
qed

section \<open>Properties\<close>

text \<open>C23: The timer a conversation starts with is the one with the shortest life among the global default
  and the overrides of everybody but the account itself, where no timer is the longest: an
  override can only shorten the default, and neither the order nor repetitions matter.\<close>

theorem effective_timer_shortest:
  "lifetime (effective_default_timer c ids) =
     Min (insert (lifetime (default_timer c)) {lifetime t | t. \<exists>i. i \<in> set ids \<and> i \<noteq> CONTACT_SELF \<and> timer_for_contact c i = Some t})"
proof -
  let ?S = "{lifetime t | t. \<exists>i. i \<in> set ids \<and> i \<noteq> CONTACT_SELF \<and> timer_for_contact c i = Some t}"
  let ?e = "effective_default_timer c ids"
  have "?S \<subseteq> (\<lambda>i. lifetime (the (timer_for_contact c i))) ` set ids" by force
  then have fin: "finite (insert (lifetime (default_timer c)) ?S)" by (simp add: finite_subset)
  have "shorter ?e (default_timer c) = ?e"
    unfolding effective_default_timer_fold by (rule tm.eff_le_global [where ov = "timer_override c"])
  moreover have "shorter ?e t = ?e" if "i \<in> set ids" "timer_override c i = Some t" for i t
    unfolding effective_default_timer_fold by (rule tm.eff_le_override [where ov = "timer_override c", OF that])
  ultimately have le: "lifetime ?e \<le> x" if "x \<in> insert (lifetime (default_timer c)) ?S" for x
    using that unfolding lifetime_shorter by (auto simp: timer_override_def)
  let ?m = "Min (insert (lifetime (default_timer c)) ?S)"
  have "?m \<in> insert (lifetime (default_timer c)) ?S" using fin by (intro Min_in) auto
  then obtain z where z: "lifetime z = ?m" by auto
  have "shorter z ?e = z"
    unfolding effective_default_timer_fold
  proof (rule tm.eff_greatest [where ov = "timer_override c"])
    show "shorter z (default_timer c) = z" unfolding lifetime_shorter z using fin by simp
    show "shorter z t = z" if "i \<in> set ids" "timer_override c i = Some t" for i t
      unfolding lifetime_shorter z using fin that by (intro Min_le) (auto simp: timer_override_def split: if_splits)
  qed
  then have "?m \<le> lifetime ?e" unfolding lifetime_shorter z .
  moreover have "lifetime ?e \<le> ?m" using le \<open>?m \<in> _\<close> by blast
  ultimately show ?thesis by simp
qed

text \<open>Once a visible message was sent to a conversation, switching its timer off sticks: sending any
  later message leaves the conversation without one, whatever the defaults and overrides are.\<close>

lemma timer_off_sticks:
  assumes "inner_set_ephemeral_timer i Disabled c = (Ok (), c1)"
    and "r \<in> set (tbl_msgs c)" "m_chat_id r = i" "m_from_id r = CONTACT_SELF" "\<not> m_hidden r" "m_id r < m"
    and "i \<in> ch_id ` set (tbl_chats c)"
  shows "apply_default_timer i m contacts c1 = (Ok (), c1) \<and> get_ephemeral_timer c1 i = Ok Disabled"
proof -
  have c1: "c1 = c\<lparr>tbl_chats := update_where (\<lambda>ch. ch_id ch = i) (\<lambda>ch. ch\<lparr>ch_ephemeral_timer := Some 0\<rparr>) (tbl_chats c)\<rparr>"
    using assms(1) by (simp add: inner_set_ephemeral_timer_def split: if_splits)
  have "sent_before c1 i m" using assms(2-6) by (auto simp: c1 sent_before_def exists_where_def list_ex_iff)
  moreover obtain ch where ch: "List.find (\<lambda>ch. ch_id ch = i) (tbl_chats c) = Some ch"
    using assms(7) by (metis (mono_tags, lifting) find_None_iff imageE not_None_eq)
  have "get_ephemeral_timer c1 i = Ok Disabled"
    using ch by (simp add: get_ephemeral_timer_def c1 update_where_def timer_from_u32_def find_map_key)
  ultimately show ?thesis by (simp add: apply_default_timer_def Let_def)
qed

text \<open>What the override columns say of every contact.\<close>

definition overrides :: "ctx \<Rightarrow> (contact_id \<Rightarrow> encryption_mode option) \<times> (contact_id \<Rightarrow> bool option) \<times> (contact_id \<Rightarrow> timer option)" where
  "overrides c = (encryption_mode_for_contact c, mdn_for_contact c, timer_for_contact c)"

lemmas override_defs = overrides_def encryption_mode_for_contact_def mdn_for_contact_def timer_for_contact_def

lemma overrides_set_mdn: "overrides (set_mdn_for_contact i mdn c) = (encryption_mode_for_contact c, (mdn_for_contact c)(i := mdn), timer_for_contact c)"
  by (cases mdn) (auto simp: override_defs fun_eq_iff set_mdn_for_contact_def find_upsert_policy empty_policy_def split: option.splits)

lemma overrides_set_timer:
  assumes "\<And>t. timer = Some t \<Longrightarrow> wf_timer t"
  shows "overrides (set_timer_for_contact i timer c) = (encryption_mode_for_contact c, mdn_for_contact c, (timer_for_contact c)(i := timer))"
  using assms by (cases timer) (auto simp: override_defs fun_eq_iff set_timer_for_contact_def find_upsert_policy
      empty_policy_def timer_from_secs_to_u32 split: option.splits)

lemma find_clear_policy:
  "find_policy (encryption_mode_set_for_contact i None c) j =
     map_option (\<lambda>p. if j = i then p\<lparr>cp_encryption_mode := None\<rparr> else p) (find_policy c j)"
proof -
  have "List.find (\<lambda>p. cp_contact_id p = j) (update_where (\<lambda>p. cp_contact_id p = i) (\<lambda>p. p\<lparr>cp_encryption_mode := None\<rparr>) t) =
      map_option (\<lambda>p. if j = i then p\<lparr>cp_encryption_mode := None\<rparr> else p) (List.find (\<lambda>p. cp_contact_id p = j) t)"
    for t :: "contact_policy_row list"
    by (induction t) (auto simp: update_where_def)
  then show ?thesis by (simp add: find_policy_def encryption_mode_set_for_contact_def)
qed

lemma overrides_set_mode: "overrides (encryption_mode_set_for_contact i mode c) = ((encryption_mode_for_contact c)(i := mode), mdn_for_contact c, timer_for_contact c)"
proof (cases mode)
  case None
  show ?thesis
    unfolding None override_defs find_clear_policy prod.inject fun_eq_iff
    by (intro conjI allI; rename_tac j, case_tac "find_policy c j") (auto split: if_splits)
next
  case (Some m)
  then show ?thesis
    by (auto simp: override_defs fun_eq_iff encryption_mode_set_for_contact_def find_upsert_policy empty_policy_def split: option.splits)
qed

text \<open>C24: The three kinds of override share one row per contact and are still independent: setting or
  clearing one of them for one contact changes exactly that one, and no other contact's.\<close>

theorem contact_overrides_refine:
  assumes "\<And>t. timer = Some t \<Longrightarrow> wf_timer t"
  shows "overrides (encryption_mode_set_for_contact i mode c) = ((encryption_mode_for_contact c)(i := mode), mdn_for_contact c, timer_for_contact c) \<and>
    overrides (set_mdn_for_contact i mdn c) = (encryption_mode_for_contact c, (mdn_for_contact c)(i := mdn), timer_for_contact c) \<and>
    overrides (set_timer_for_contact i timer c) = (encryption_mode_for_contact c, mdn_for_contact c, (timer_for_contact c)(i := timer))"
  using overrides_set_mode overrides_set_mdn overrides_set_timer [of timer, OF assms] by blast

theorem contact_overrides_refine_witness:
  "overrides (set_timer_for_contact 10 (Some (Enabled 60)) fresh_db) =
     (encryption_mode_for_contact fresh_db, mdn_for_contact fresh_db, (timer_for_contact fresh_db)(10 := Some (Enabled 60)))"
  using contact_overrides_refine [of "Some (Enabled 60)" 10 None fresh_db None] by (simp add: wf_timer_def)

text \<open>A conversation with one message sent, whose timer is switched off.\<close>

definition chatty :: ctx where
  "chatty = fresh_db\<lparr>tbl_chats := [\<lparr>ch_id = 10, ch_type = Single, ch_name = [], ch_grpid = [], ch_blocked = 0, ch_ephemeral_timer = Some 60\<rparr>],
     tbl_config := (\<lambda>k. if k = Config_EphemeralDefaultSeconds then Some ''3600'' else None),
     tbl_msgs := [(default_msg 10)\<lparr>m_chat_id := 10, m_from_id := 1, m_state := OutDelivered\<rparr>]\<rparr>"

end
