(* ===== verification/Blocklist.thy ===== *)
theory Blocklist
  imports Gating
begin

text \<open>
  \<open>email/blocklist.rs\<close>: addresses and domains whose mail goes to the trash on arrival. A pattern is
  an address or a domain written with a leading at sign; matching is two exact look-ups that have
  to agree with the predicate \<open>pattern_covers\<close>.
\<close>

record entry =
  bl_id :: nat
  bl_pattern :: string
  bl_added :: int
  bl_reason :: string

definition blocklist_normalize :: "string \<Rightarrow> string" where
  "blocklist_normalize p = to_lowercase (trim p)"

definition validate :: "string \<Rightarrow> string result" where
  "validate pattern =
    (let norm = blocklist_normalize pattern in
     if norm = [] then Err (NotAPattern pattern)
     else case strip_prefix ''@'' norm of
         Some domain \<Rightarrow>
           if domain = [] \<or> CHR ''.'' \<notin> set domain \<or> CHR ''@'' \<in> set domain then Err (NotAPattern pattern) else Ok norm
       | None \<Rightarrow>
           let halves = split_char (CHR ''@'') norm;
               local = (case halves of x # _ \<Rightarrow> x | _ \<Rightarrow> []);
               domain = (case halves of _ # y # _ \<Rightarrow> y | _ \<Rightarrow> [])
           in if local = [] \<or> domain = [] \<or> length halves > 2 \<or> CHR ''.'' \<notin> set domain
              then Err (NotAPattern pattern) else Ok norm)"

definition blocklist_add :: "string \<Rightarrow> string \<Rightarrow> (ctx, unit) eff" where
  "blocklist_add pattern reason c =
    (case validate pattern of
       Err e \<Rightarrow> (Err e, c)
     | Ok norm \<Rightarrow>
         (Ok (), if list_ex (\<lambda>b. b_pattern_norm b = norm) (tbl_blocklist c) then c
                 else c\<lparr>tbl_blocklist := tbl_blocklist c @ [\<lparr>b_id = Suc (blocklist_seq c), b_pattern = trim pattern,
                          b_pattern_norm = norm, b_added = clock c, b_reason = reason\<rparr>],
                        blocklist_seq := Suc (blocklist_seq c)\<rparr>))"

definition pattern_covers :: "string \<Rightarrow> string \<Rightarrow> bool" where
  "pattern_covers pattern_norm addr_norm =
    (case strip_prefix ''@'' pattern_norm of
       Some domain \<Rightarrow> (case split_once (CHR ''@'') addr_norm of None \<Rightarrow> False | Some (_, addr_domain) \<Rightarrow> addr_domain = domain)
     | None \<Rightarrow> pattern_norm = addr_norm)"

fun unblock_covered :: "string \<Rightarrow> contact_id list \<Rightarrow> (ctx, unit) eff" where
  "unblock_covered norm [] c = (Ok (), c)"
| "unblock_covered norm (i # is) c =
    (case get_by_id c i of
       Err _ \<Rightarrow> unblock_covered norm is c
     | Ok contact \<Rightarrow>
         if pattern_covers norm (blocklist_normalize (c_addr contact))
         then (case unblock i c of (Err e, c1) \<Rightarrow> (Err e, c1) | (Ok _, c1) \<Rightarrow> unblock_covered norm is c1)
         else unblock_covered norm is c)"

definition blocklist_remove :: "string \<Rightarrow> (ctx, unit) eff" where
  "blocklist_remove pattern c =
    (let norm = blocklist_normalize pattern;
         c1 = c\<lparr>tbl_blocklist := delete_where (\<lambda>b. b_pattern_norm b = norm) (tbl_blocklist c)\<rparr>
     in case get_all_blocked c1 of (ids, c2) \<Rightarrow> unblock_covered norm ids c2)"

definition blocklist_list :: "ctx \<Rightarrow> entry list" where
  "blocklist_list c =
    map (\<lambda>b. \<lparr>bl_id = b_id b, bl_pattern = b_pattern b, bl_added = b_added b, bl_reason = b_reason b\<rparr>)
      (sort_key (\<lambda>b. (- b_added b, - int (b_id b))) (tbl_blocklist c))"

definition matches :: "ctx \<Rightarrow> string \<Rightarrow> bool" where
  "matches c addr =
    (let a = blocklist_normalize addr in
     case split_once (CHR ''@'') a of
       None \<Rightarrow> False
     | Some (_, domain) \<Rightarrow> list_ex (\<lambda>b. b_pattern_norm b = a \<or> b_pattern_norm b = ''@'' @ domain) (tbl_blocklist c))"

definition block_contact :: "contact_id \<Rightarrow> (ctx, unit) eff" where
  "block_contact i c =
    (case get_by_id c i of
       Err e \<Rightarrow> (Err e, c)
     | Ok contact \<Rightarrow>
         (case block i c of
            (Err e, c1) \<Rightarrow> (Err e, c1)
          | (Ok _, c1) \<Rightarrow> if c_addr contact \<noteq> [] then blocklist_add (c_addr contact) [] c1 else (Ok (), c1)))"

definition unblock_contact :: "contact_id \<Rightarrow> (ctx, unit) eff" where
  "unblock_contact i c =
    (case get_by_id c i of
       Err e \<Rightarrow> (Err e, c)
     | Ok contact \<Rightarrow>
         (case unblock i c of
            (Err e, c1) \<Rightarrow> (Err e, c1)
          | (Ok _, c1) \<Rightarrow> if c_addr contact \<noteq> [] then blocklist_remove (c_addr contact) c1 else (Ok (), c1)))"

definition blocklist_apply :: "msg_id \<Rightarrow> (ctx, bool) eff" where
  "blocklist_apply m c =
    (case find_msg c m of
       None \<Rightarrow> (Ok False, c)
     | Some r \<Rightarrow>
         if m_to_id r \<noteq> CONTACT_SELF \<or> m_from_id r = CONTACT_SELF then (Ok False, c)
         else case get_by_id c (m_from_id r) of
           Err _ \<Rightarrow> (Ok False, c)
         | Ok contact \<Rightarrow>
             if \<not> matches c (c_addr contact) then (Ok False, c)
             else case to_trash [m] Blocked (clock c) c of
                 (Err e, c1) \<Rightarrow> (Err e, c1)
               | (Ok _, c1) \<Rightarrow> (Ok True, c1))"

section \<open>Lemmas\<close>

lemma blocklist_normalize_idem [simp]: "blocklist_normalize (blocklist_normalize p) = blocklist_normalize p"
  by (simp add: blocklist_normalize_def trim_to_lowercase)

text \<open>A stored pattern: an at sign followed by a domain, or exactly one at sign inside.\<close>

definition wf_pattern :: "string \<Rightarrow> bool" where
  "wf_pattern p \<longleftrightarrow> (\<exists>l d. p = l @ CHR ''@'' # d \<and> CHR ''@'' \<notin> set l \<and> CHR ''@'' \<notin> set d \<and> d \<noteq> [])"

lemma split_char_two:
  "split_char c s = [a, b] \<Longrightarrow> s = a @ c # b \<and> c \<notin> set a \<and> c \<notin> set b"
proof (induction s arbitrary: a)
  case (Cons x s)
  show ?case
  proof (cases "x = c")
    case True
    with Cons.prems have "a = []" "split_char c s = [b]" by auto
    moreover from this(2) have "s = b" using join_split_char [of c s] by simp
    moreover have "c \<notin> set s"
    proof
      assume "c \<in> set s"
      then have "length (split_char c s) \<ge> 2"
      proof (induction s)
        case (Cons y ys)
        then show ?case
          by (cases "split_char c ys") (auto simp: Suc_le_eq)
      qed simp
      with \<open>split_char c s = [b]\<close> show False by simp
    qed
    ultimately show ?thesis using True by simp
  next
    case False
    with Cons.prems obtain y ys where "split_char c s = y # ys" "a = x # y" "ys = [b]"
      by (cases "split_char c s") auto
    with Cons.IH [of y] False show ?thesis by simp
  qed
qed simp

lemma validate_wf: "validate p = Ok n \<Longrightarrow> n = blocklist_normalize p \<and> wf_pattern n"
proof -
  assume v: "validate p = Ok n"
  let ?n = "blocklist_normalize p"
  have n: "n = ?n" using v by (auto simp: validate_def Let_def split: if_splits option.splits)
  show ?thesis
  proof (cases "strip_prefix ''@'' ?n")
    case (Some d)
    then have "?n = [] @ CHR ''@'' # d" by (simp add: strip_prefix_Some_iff)
    moreover have "CHR ''@'' \<notin> set d" "d \<noteq> []"
      using Some v by (auto simp: validate_def Let_def split: if_splits)
    ultimately have "wf_pattern ?n" unfolding wf_pattern_def by (metis empty_iff empty_set)
    with n show ?thesis by simp
  next
    case None
    let ?h = "split_char (CHR ''@'') ?n"
    from None v have len: "length ?h \<le> 2" and ne: "(case ?h of _ # y # _ \<Rightarrow> y | _ \<Rightarrow> []) \<noteq> []"
      by (auto simp: validate_def Let_def split: if_splits)
    obtain a b where h: "?h = [a, b]"
      using len ne by (cases ?h rule: list.exhaust; cases "tl ?h"; cases "tl (tl ?h)") auto
    with ne have "b \<noteq> []" by simp
    with split_char_two [OF h] n show ?thesis unfolding wf_pattern_def by blast
  qed
qed

text \<open>The predicate, as the two look-ups spell it.\<close>

lemma covers_iff:
  assumes "wf_pattern p"
  shows "pattern_covers p a \<longleftrightarrow>
    (case split_once (CHR ''@'') a of None \<Rightarrow> False | Some (_, d) \<Rightarrow> p = a \<or> p = ''@'' @ d)"
proof (cases "split_once (CHR ''@'') a")
  case None
  then have "CHR ''@'' \<notin> set a" by (simp add: split_once_None)
  with assms have "p \<noteq> a" by (auto simp: wf_pattern_def)
  with None show ?thesis by (simp add: pattern_covers_def split: option.splits)
next
  case (Some x)
  obtain l d where x: "x = (l, d)" by force
  from Some x have a: "a = l @ CHR ''@'' # d" "CHR ''@'' \<notin> set l" by (simp_all add: split_once_Some)
  show ?thesis
  proof (cases "strip_prefix ''@'' p")
    case None
    with Some x show ?thesis by (auto simp: pattern_covers_def strip_prefix_Some_iff)
  next
    case (Some q)
    then have "p = CHR ''@'' # q" by (simp add: strip_prefix_Some_iff)
    moreover from this a have "p = a \<Longrightarrow> d = q" by (cases l) auto
    ultimately show ?thesis using \<open>split_once (CHR ''@'') a = Some x\<close> x Some by (auto simp: pattern_covers_def)
  qed
qed

definition blocklist_inv :: "ctx \<Rightarrow> bool" where
  "blocklist_inv c \<longleftrightarrow> unique_key b_pattern_norm (tbl_blocklist c) \<and> (\<forall>b \<in> set (tbl_blocklist c). wf_pattern (b_pattern_norm b))"

definition covered :: "ctx \<Rightarrow> string \<Rightarrow> bool" where
  "covered c addr \<longleftrightarrow> list_ex (\<lambda>b. pattern_covers (b_pattern_norm b) (blocklist_normalize addr)) (tbl_blocklist c)"

lemma matches_covered: "blocklist_inv c \<Longrightarrow> matches c addr \<longleftrightarrow> covered c addr"
  by (auto simp: matches_def covered_def blocklist_inv_def list_ex_iff covers_iff Let_def split: option.splits)

text \<open>What blocking and unblocking a contact leaves of the other tables.\<close>

lemma set_blocked_frame [simp]:
  "tbl_blocklist (snd (set_blocked sy i new c)) = tbl_blocklist c"
  "configured_addr (snd (set_blocked sy i new c)) = configured_addr c"
  "clock (snd (set_blocked sy i new c)) = clock c"
  by (auto simp: set_blocked_def Let_def mark_noticed_def unblock_chat_def add_sync_item_def
      split: result.splits option.splits)

lemma set_blocked_contacts:
  assumes "i > CONTACT_LAST_SPECIAL"
  shows "tbl_contacts (snd (set_blocked sy i new c)) = update_where (\<lambda>r. c_id r = i \<and> find_contact c i \<noteq> None \<and> 
    c_blocked (the (find_contact c i)) \<noteq> new) (\<lambda>r. r\<lparr>c_blocked := new\<rparr>) (tbl_contacts c)"
proof -
  have [simp]: "is_special_contact i = False" using assms by (simp add: is_special_contact_def)
  show ?thesis
    by (auto simp: set_blocked_def Let_def mark_noticed_def unblock_chat_def add_sync_item_def
        get_by_id_ordinary [OF assms] update_where_def split: result.splits option.splits)
qed

lemma mailinglist_frame [simp]:
  "tbl_blocklist (update_blocked_mailinglist_contacts c) = tbl_blocklist c"
proof -
  have "tbl_blocklist (fold update_blocked_mailinglist chs c) = tbl_blocklist c" for chs
    by (induction chs arbitrary: c) (simp_all add: update_blocked_mailinglist_def Let_def)
  then show ?thesis by (simp add: update_blocked_mailinglist_contacts_def)
qed

lemma unblock_covered_frame [simp]: "tbl_blocklist (snd (unblock_covered norm ids c)) = tbl_blocklist c"
proof (induction norm ids c rule: unblock_covered.induct)
  case (2 norm i ids c)
  have "tbl_blocklist (snd (unblock i c)) = tbl_blocklist c" by (simp add: unblock_def)
  with 2 show ?case by (auto split: result.splits prod.splits)
qed simp

lemma blocklist_remove_tbl:
  "tbl_blocklist (snd (blocklist_remove p c)) = delete_where (\<lambda>b. b_pattern_norm b = blocklist_normalize p) (tbl_blocklist c)"
  by (simp add: blocklist_remove_def get_all_blocked_def Let_def)

lemma blocklist_inv_cong: "tbl_blocklist c' = tbl_blocklist c \<Longrightarrow> blocklist_inv c' = blocklist_inv c"
  by (simp add: blocklist_inv_def)

lemma blocklist_inv_remove: "blocklist_inv c \<Longrightarrow> blocklist_inv (snd (blocklist_remove p c))"
  by (simp add: blocklist_inv_def blocklist_remove_tbl unique_key_delete)

lemma blocklist_inv_add: "blocklist_inv c \<Longrightarrow> blocklist_inv (snd (blocklist_add p why c))"
  by (auto simp: blocklist_add_def blocklist_inv_def unique_key_def list_ex_iff dest: validate_wf split: result.splits)

definition contacts_inv :: "ctx \<Rightarrow> bool" where
  "contacts_inv c \<longleftrightarrow> wf_contacts c \<and> (\<forall>r \<in> set (tbl_contacts c). c_id r \<le> contacts_seq c)"

lemma contacts_inv_update:
  assumes "contacts_inv c" "\<And>r. c_id (f r) = c_id r"
  shows "contacts_inv (c\<lparr>tbl_contacts := update_where p f (tbl_contacts c)\<rparr>)"
  using assms by (auto simp: contacts_inv_def wf_contacts_def intro!: unique_key_update)

lemma contacts_inv_mailinglist: "contacts_inv c \<Longrightarrow> contacts_inv (update_blocked_mailinglist ch c)"
proof -
  assume inv: "contacts_inv c"
  define c1 where "c1 = (if list_ex (addr_eq (ch_grpid ch)) (tbl_contacts c) then c
    else c\<lparr>tbl_contacts := tbl_contacts c @ [\<lparr>c_id = Suc (contacts_seq c), c_name = [], c_authname = [],
             c_addr = ch_grpid ch, c_origin = Unknown, c_blocked = False, c_last_seen = 0, c_fingerprint = [], c_verifier = 0\<rparr>],
           contacts_seq := Suc (contacts_seq c)\<rparr>)"
  have "contacts_inv c1" using inv by (fastforce simp: c1_def contacts_inv_def wf_contacts_def unique_key_def)
  then show ?thesis unfolding update_blocked_mailinglist_def Let_def c1_def [symmetric] by (rule contacts_inv_update) simp
qed

lemma contacts_inv_get_all_blocked: "contacts_inv c \<Longrightarrow> contacts_inv (snd (get_all_blocked c))"
proof -
  have "contacts_inv c \<Longrightarrow> contacts_inv (fold update_blocked_mailinglist chs c)" for chs
    by (induction chs arbitrary: c) (simp_all add: contacts_inv_mailinglist)
  then show "contacts_inv c \<Longrightarrow> contacts_inv (snd (get_all_blocked c))"
    by (simp add: get_all_blocked_def update_blocked_mailinglist_contacts_def Let_def)
qed

lemma set_blocked_wf:
  assumes "wf_contacts c" "i > CONTACT_LAST_SPECIAL"
  shows "tbl_contacts (snd (set_blocked sy i new c)) = update_where (\<lambda>r. c_id r = i) (\<lambda>r. r\<lparr>c_blocked := new\<rparr>) (tbl_contacts c)"
proof -
  have "(if c_id r = i \<and> find_contact c i \<noteq> None \<and> c_blocked (the (find_contact c i)) \<noteq> new then r\<lparr>c_blocked := new\<rparr> else r) =
      (if c_id r = i then r\<lparr>c_blocked := new\<rparr> else r)" if "r \<in> set (tbl_contacts c)" for r :: contact_row
    using find_contact_row [OF assms(1) that] by auto
  then show ?thesis unfolding set_blocked_contacts [OF assms(2)] update_where_def by (intro map_cong refl) simp
qed

lemma unblock_covered_contacts:
  assumes "wf_contacts c" "\<forall>i \<in> set ids. i > CONTACT_LAST_SPECIAL" "fst (unblock_covered norm ids c) = Ok ()"
  shows "tbl_contacts (snd (unblock_covered norm ids c)) =
    update_where (\<lambda>r. c_id r \<in> set ids \<and> pattern_covers norm (blocklist_normalize (c_addr r))) (\<lambda>r. r\<lparr>c_blocked := False\<rparr>) (tbl_contacts c)"
  using assms
proof (induction norm ids c rule: unblock_covered.induct)
  case (1 norm c)
  then show ?case by (simp add: update_where_def)
next
  case (2 norm i ids c)
  from 2(5) have i: "i > CONTACT_LAST_SPECIAL" by simp
  define f where "f = (\<lambda>r::contact_row. r\<lparr>c_blocked := False\<rparr>)"
  define cov where "cov = (\<lambda>r::contact_row. pattern_covers norm (blocklist_normalize (c_addr r)))"
  have f: "cov (f r) = cov r" "c_id (f r) = c_id r" "f (f r) = f r" for r by (simp_all add: cov_def f_def)
  show ?case
  proof (cases "find_contact c i")
    case None
    then have "\<And>r. r \<in> set (tbl_contacts c) \<Longrightarrow> c_id r \<noteq> i" by (auto simp: find_contact_def find_None_iff)
    then have "update_where (\<lambda>r. c_id r \<in> set (i # ids) \<and> cov r) f (tbl_contacts c) = update_where (\<lambda>r. c_id r \<in> set ids \<and> cov r) f (tbl_contacts c)"
      by (auto simp: update_where_def)
    then show ?thesis using 2 None by (simp add: get_by_id_ordinary [OF i] cov_def f_def)
  next
    case (Some x)
    have g: "get_by_id c i = Ok x" using Some by (simp add: get_by_id_ordinary [OF i])
    have uniq: "\<And>r. r \<in> set (tbl_contacts c) \<Longrightarrow> c_id r = i \<Longrightarrow> r = x"
      using find_contact_row [OF 2(4)] Some by fastforce
    show ?thesis
    proof (cases "cov x")
      case False
      then have "update_where (\<lambda>r. c_id r \<in> set (i # ids) \<and> cov r) f (tbl_contacts c) = update_where (\<lambda>r. c_id r \<in> set ids \<and> cov r) f (tbl_contacts c)"
        using uniq by (auto simp: update_where_def)
      then show ?thesis using 2 False g by (simp add: cov_def f_def)
    next
      case True
      obtain u c1 where u: "unblock i c = (u, c1)" by force
      have uOk: "u = Ok ()" using 2(6) True g u by (cases u) (simp_all add: cov_def)
      have c1: "tbl_contacts c1 = update_where (\<lambda>r. c_id r = i) f (tbl_contacts c)"
        using set_blocked_wf [OF 2(4) i, of Sync False] u by (simp add: unblock_def f_def)
      then have wf1: "wf_contacts c1" using 2(4) f(2) by (simp add: wf_contacts_def unique_key_update)
      have step: "unblock_covered norm (i # ids) c = unblock_covered norm ids c1"
        using g True u uOk by (simp add: cov_def)
      have "tbl_contacts (snd (unblock_covered norm ids c1)) = update_where (\<lambda>r. c_id r \<in> set ids \<and> cov r) f (tbl_contacts c1)"
        unfolding cov_def f_def
        by (rule 2(1) [OF g True [unfolded cov_def] u [symmetric] uOk wf1]) (use 2(5,6) step in auto)
      also have "\<dots> = update_where (\<lambda>r. c_id r \<in> set (i # ids) \<and> cov r) f (tbl_contacts c)"
        using uniq True f by (auto simp: c1 update_where_def)
      finally show ?thesis unfolding step cov_def f_def by simp
    qed
  qed
qed

section \<open>Properties\<close>

datatype blocklist_op = BAdd string string | BRemove string | BBlock contact_id | BUnblock contact_id

fun blocklist_exec :: "blocklist_op \<Rightarrow> ctx \<Rightarrow> ctx" where
  "blocklist_exec (BAdd p why) c = snd (blocklist_add p why c)"
| "blocklist_exec (BRemove p) c = snd (blocklist_remove p c)"
| "blocklist_exec (BBlock i) c = snd (block_contact i c)"
| "blocklist_exec (BUnblock i) c = snd (unblock_contact i c)"

lemma block_frame [simp]: "tbl_blocklist (snd (block i c)) = tbl_blocklist c" "tbl_blocklist (snd (unblock i c)) = tbl_blocklist c"
  by (simp_all add: block_def unblock_def)

lemma blocklist_inv_exec: "blocklist_inv c \<Longrightarrow> blocklist_inv (blocklist_exec x c)"
proof (induction x c rule: blocklist_exec.induct)
  case (3 i c)
  have "blocklist_inv (snd (block i c))" using 3 blocklist_inv_cong [of "snd (block i c)" c] by simp
  then show ?case using 3
    by (auto simp: block_contact_def blocklist_inv_add split: result.splits prod.splits)
next
  case (4 i c)
  have "blocklist_inv (snd (unblock i c))" using 4 blocklist_inv_cong [of "snd (unblock i c)" c] by simp
  then show ?case using 4
    by (auto simp: unblock_contact_def blocklist_inv_remove split: result.splits prod.splits)
qed (simp_all add: blocklist_inv_add blocklist_inv_remove)

lemma blocklist_inv_run: "blocklist_inv c \<Longrightarrow> blocklist_inv (fold blocklist_exec xs c)"
  by (induction xs arbitrary: c) (simp_all add: blocklist_inv_exec)

text \<open>C13: Whatever entries were added and removed and whoever was blocked and unblocked, in any order
  and with any of the calls failing, the two exact look-ups of \<open>matches\<close> answer exactly what the
  matching rule \<open>pattern_covers\<close>, tried on every stored pattern, answers.\<close>

theorem query_and_predicate_agree:
  "let c' = fold blocklist_exec ops (c\<lparr>tbl_blocklist := []\<rparr>)
   in matches c' addr = list_ex (\<lambda>b. pattern_covers (b_pattern_norm b) (blocklist_normalize addr)) (tbl_blocklist c')"
proof -
  have "blocklist_inv (c\<lparr>tbl_blocklist := []\<rparr>)" by (simp add: blocklist_inv_def unique_key_def)
  from matches_covered [OF blocklist_inv_run [OF this], of ops addr] show ?thesis by (simp add: Let_def covered_def)
qed

text \<open>C14: Removing an entry, when it returns successfully, leaves an address matched exactly by the
  entries that remain, and no ordinary contact the removed pattern covers is blocked any more. An
  address a remaining entry covers is still matched although its contact was just unblocked.\<close>

theorem remove_exact:
  assumes inv: "blocklist_inv c" "contacts_inv c" and ok: "fst (blocklist_remove p c) = Ok ()"
  shows "(matches (snd (blocklist_remove p c)) addr \<longleftrightarrow>
      list_ex (\<lambda>b. b_pattern_norm b \<noteq> blocklist_normalize p \<and> pattern_covers (b_pattern_norm b) (blocklist_normalize addr)) (tbl_blocklist c)) \<and>
    (\<forall>r \<in> set (tbl_contacts (snd (blocklist_remove p c))). c_id r > CONTACT_LAST_SPECIAL \<longrightarrow>
       pattern_covers (blocklist_normalize p) (blocklist_normalize (c_addr r)) \<longrightarrow> \<not> c_blocked r)"
proof -
  let ?c1 = "c\<lparr>tbl_blocklist := delete_where (\<lambda>b. b_pattern_norm b = blocklist_normalize p) (tbl_blocklist c)\<rparr>"
  obtain ids c2 where g: "get_all_blocked ?c1 = (ids, c2)" by force
  have "contacts_inv ?c1" using inv(2) by (simp add: contacts_inv_def wf_contacts_def)
  from contacts_inv_get_all_blocked [OF this] g have wf: "wf_contacts c2" by (simp add: contacts_inv_def)
  have ids: "set ids = c_id ` {r \<in> set (tbl_contacts c2). c_id r > CONTACT_LAST_SPECIAL \<and> c_blocked r}"
    using g by (auto simp: get_all_blocked_def Let_def)
  have eq: "blocklist_remove p c = unblock_covered (blocklist_normalize p) ids c2"
    by (simp add: blocklist_remove_def Let_def g)
  have con: "tbl_contacts (snd (blocklist_remove p c)) = update_where
      (\<lambda>r. c_id r \<in> set ids \<and> pattern_covers (blocklist_normalize p) (blocklist_normalize (c_addr r)))
      (\<lambda>r. r\<lparr>c_blocked := False\<rparr>) (tbl_contacts c2)"
    unfolding eq by (rule unblock_covered_contacts [OF wf]) (use ids ok eq in auto)
  have "matches (snd (blocklist_remove p c)) addr = covered (snd (blocklist_remove p c)) addr"
    by (rule matches_covered [OF blocklist_inv_remove [OF inv(1)]])
  then have "matches (snd (blocklist_remove p c)) addr \<longleftrightarrow> list_ex (\<lambda>b. b_pattern_norm b \<noteq> blocklist_normalize p \<and>
      pattern_covers (b_pattern_norm b) (blocklist_normalize addr)) (tbl_blocklist c)"
    by (auto simp: covered_def blocklist_remove_tbl list_ex_iff)
  moreover have "\<not> c_blocked r" if r: "r \<in> set (tbl_contacts (snd (blocklist_remove p c)))" "c_id r > CONTACT_LAST_SPECIAL"
    "pattern_covers (blocklist_normalize p) (blocklist_normalize (c_addr r))" for r
    using r unfolding con ids by auto
  ultimately show ?thesis by blast
qed

text \<open>C15: Blocking an ordinary contact always blocks the contact, but succeeds only if the contact has
  no address or an address the blocklist accepts as a pattern; when it succeeds with an address,
  mail from that address is matched, and when it fails no entry was added.\<close>

theorem block_contact_exact:
  assumes inv: "blocklist_inv c" "wf_contacts c" and i: "i > CONTACT_LAST_SPECIAL" and r: "find_contact c i = Some r"
  shows "(fst (block_contact i c) = Ok () \<longleftrightarrow> c_addr r = [] \<or> is_ok (validate (c_addr r))) \<and>
    find_contact (snd (block_contact i c)) i = Some (r\<lparr>c_blocked := True\<rparr>) \<and>
    (fst (block_contact i c) = Ok () \<longrightarrow> c_addr r \<noteq> [] \<longrightarrow> matches (snd (block_contact i c)) (c_addr r)) \<and>
    (fst (block_contact i c) \<noteq> Ok () \<longrightarrow> tbl_blocklist (snd (block_contact i c)) = tbl_blocklist c)"
proof -
  have g: "get_by_id c i = Ok r" by (simp add: get_by_id_ordinary [OF i] r)
  have "is_special_contact i = False" using i by (simp add: is_special_contact_def)
  then have "fst (block i c) = Ok ()" by (auto simp: block_def set_blocked_def g Let_def split: result.splits)
  then obtain c1 where b: "block i c = (Ok (), c1)" by (metis prod.collapse)
  have con: "tbl_contacts c1 = update_where (\<lambda>r. c_id r = i) (\<lambda>r. r\<lparr>c_blocked := True\<rparr>) (tbl_contacts c)"
    using set_blocked_wf [OF inv(2) i, of Sync True] b by (simp add: block_def)
  have find: "find_contact c1 i = Some (r\<lparr>c_blocked := True\<rparr>)"
    using r by (simp add: find_contact_def con update_where_def find_map_key)
  have bl: "tbl_blocklist c1 = tbl_blocklist c" using block_frame(1) [of i c] b by simp
  have inv1: "blocklist_inv c1" using inv(1) blocklist_inv_cong [OF bl] by simp
  have eq: "block_contact i c = (if c_addr r \<noteq> [] then blocklist_add (c_addr r) [] c1 else (Ok (), c1))"
    by (simp add: block_contact_def g b)
  have find2: "find_contact (snd (blocklist_add a why c1)) i = find_contact c1 i" for a why
    by (simp add: find_contact_def blocklist_add_def split: result.splits)
  have m: "matches (snd (blocklist_add (c_addr r) [] c1)) (c_addr r)" if v: "validate (c_addr r) = Ok n" for n
  proof -
    have n: "n = blocklist_normalize (c_addr r)" "wf_pattern n" using validate_wf [OF v] by blast+
    have "pattern_covers n n"
      using n(2) by (auto simp: covers_iff [OF n(2)] split_once_None wf_pattern_def split: option.splits)
    then show ?thesis
      unfolding matches_covered [OF blocklist_inv_add [OF inv1]]
      by (auto simp: covered_def blocklist_add_def v list_ex_iff n(1) intro: rev_bexI)
  qed
  have res: "fst (blocklist_add a why c1) = (case validate a of Ok _ \<Rightarrow> Ok () | Err e \<Rightarrow> Err e)"
    "validate a = Err e \<Longrightarrow> snd (blocklist_add a why c1) = c1" for a why e
    by (simp_all add: blocklist_add_def split: result.splits)
  show ?thesis
    by (cases "validate (c_addr r)") (auto simp: eq find find2 bl m res)
qed

text \<open>When the hook trashes a message.\<close>

definition must_block :: "ctx \<Rightarrow> msg_id \<Rightarrow> bool" where
  "must_block c m \<longleftrightarrow> (\<exists>r x. find_msg c m = Some r \<and> m_to_id r = CONTACT_SELF \<and> m_from_id r \<noteq> CONTACT_SELF \<and>
     get_by_id c (m_from_id r) = Ok x \<and> matches c (c_addr x))"

lemma blocklist_apply_eq:
  assumes "labels_inv c"
  shows "blocklist_apply m c = (Ok (must_block c m), if must_block c m then snd (to_trash [m] Blocked (clock c) c) else c)"
proof -
  have "fst (to_trash [m] Blocked (clock c) c) = Ok ()" by (simp add: to_trash_eq [OF assms])
  then obtain c1 where "to_trash [m] Blocked (clock c) c = (Ok (), c1)" by (metis prod.collapse)
  then show ?thesis by (auto simp: blocklist_apply_def must_block_def split: option.splits result.splits)
qed

lemma to_trash_tags:
  assumes "labels_inv c" "n \<in> set RESERVED"
  shows "has_tag n (snd (to_trash ms why now c)) m \<longleftrightarrow> n = TRASH \<and> m \<in> set ms \<or> has_tag n c m"
proof -
  let ?sy = "if why = Deleted then Sync else Nosync"
  have "has_tag n (snd (to_trash ms why now c)) m = has_tag n (put_tag ?sy TRASH ms True c) m"
    using has_tag_cong [of "snd (to_trash ms why now c)" "put_tag ?sy TRASH ms True c" n]
    by (simp add: to_trash_eq [OF assms(1)] Let_def)
  then show ?thesis using assms by (auto simp: has_tag_put)
qed

lemma to_trash_held [simp]: "labels_inv c \<Longrightarrow> tbl_held_msgs (snd (to_trash ms why now c)) = tbl_held_msgs c"
  by (simp add: to_trash_eq Let_def)

text \<open>The hook never fails, and trashes a received message exactly if it is addressed to the
  account by someone else whose address is matched: then it carries Trash, the reason is recorded
  unless it was in the trash already, and nothing is queued for the other devices; otherwise
  nothing changes.\<close>

lemma blocklist_apply_exact:
  assumes inv: "labels_inv c"
  shows "fst (blocklist_apply m c) = Ok (must_block c m) \<and>
    (\<not> must_block c m \<longrightarrow> snd (blocklist_apply m c) = c) \<and>
    (must_block c m \<longrightarrow>
       (\<forall>m'. has_tag TRASH (snd (blocklist_apply m c)) m' \<longleftrightarrow> m' = m \<or> has_tag TRASH c m') \<and>
       deadline (snd (blocklist_apply m c)) m = (case deadline c m of Some d \<Rightarrow> Some d
         | None \<Rightarrow> Some \<lparr>t_msg_id = m, t_trashed_at = clock c, t_purge_at = saturating_add (clock c) (purge_secs c),
                         t_reason = reason_num Blocked\<rparr>) \<and>
       tbl_multi_device_sync (snd (blocklist_apply m c)) = tbl_multi_device_sync c)"
proof -
  have sync: "tbl_multi_device_sync (put_tag Nosync TRASH ms True c) = tbl_multi_device_sync c" for ms
    by (simp add: put_tag_def set_reserved_def set_ext_Nosync split: result.splits)
  have "tbl_multi_device_sync (snd (to_trash [m] Blocked (clock c) c)) = tbl_multi_device_sync c"
    by (simp add: to_trash_eq [OF inv] Let_def sync)
  moreover have "deadline (snd (to_trash [m] Blocked (clock c) c)) m = (case deadline c m of Some d \<Rightarrow> Some d
      | None \<Rightarrow> Some \<lparr>t_msg_id = m, t_trashed_at = clock c, t_purge_at = saturating_add (clock c) (purge_secs c), t_reason = reason_num Blocked\<rparr>)"
    by (simp add: to_trash_eq [OF inv] Let_def deadline_def find_fold_insert_trashed [where ms = "[m]", simplified] split: option.splits)
  ultimately show ?thesis
    by (auto simp: blocklist_apply_eq [OF inv] to_trash_tags [OF inv])
qed

text \<open>A message from a sender who is both untrusted and blocked is held by the gating hook and then
  trashed by this one: it ends up with Trash and with Unverified, and its hold is kept.\<close>

lemma blocked_stranger_in_both:
  assumes inv: "labels_inv c" and hold: "must_hold c m" and "must_block c m"
  shows "let c' = snd (blocklist_apply m (snd (gating_apply m c)))
    in has_tag TRASH c' m \<and> has_tag UNVERIFIED c' m \<and> m \<in> h_msg_id ` set (tbl_held_msgs c')"
proof -
  define c1 where "c1 = snd (gating_apply m c)"
  have c1: "c1 = (put_tag Nosync UNVERIFIED [m] True c)\<lparr>tbl_held_msgs :=
      insert_or_ignore h_msg_id \<lparr>h_msg_id = m, h_held_at = clock c\<rparr> (tbl_held_msgs c)\<rparr>"
    using hold by (simp add: c1_def gating_apply_eq [OF inv])
  have inv1: "labels_inv c1"
    unfolding c1 by (rule labels_inv_frame [OF labels_inv_put [OF inv, of Nosync UNVERIFIED "[m]" True]]) simp_all
  have fr: "tbl_contacts c1 = tbl_contacts c" "configured_addr c1 = configured_addr c" "tbl_msgs c1 = tbl_msgs c"
    "tbl_blocklist c1 = tbl_blocklist c" by (simp_all add: c1)
  have "must_block c1 m"
    using assms(3) unfolding must_block_def contact_lookup_frame(1) [OF fr(1,2)] find_msg_def matches_def fr(3,4) .
  moreover have "has_tag UNVERIFIED c1 m"
    using has_tag_cong [of c1 "put_tag Nosync UNVERIFIED [m] True c" UNVERIFIED] by (simp add: c1 has_tag_put [OF inv])
  moreover have "m \<in> h_msg_id ` set (tbl_held_msgs c1)"
    by (auto simp: c1 insert_or_ignore_def list_ex_iff)
  ultimately show ?thesis
    by (simp add: c1_def [symmetric] Let_def blocklist_apply_eq [OF inv1] to_trash_tags [OF inv1] inv1)
qed

text \<open>For a parsed address, the entry of its own domain covers it exactly if its local part holds no
  at sign: the parser splits at the last at sign and the blocklist at the first.\<close>

lemma domain_entry_covers:
  assumes "email_address_new s = Ok a"
  shows "pattern_covers (''@'' @ to_lowercase (ea_domain a)) (to_lowercase s) \<longleftrightarrow> CHR ''@'' \<notin> set (to_lowercase (ea_local a))"
proof -
  have "rsplit_once (CHR ''@'') s = Some (ea_local a, ea_domain a)"
    using assms by (auto simp: email_address_new_def split: if_splits option.splits)
  then have s: "s = ea_local a @ CHR ''@'' # ea_domain a" by (simp add: rsplit_once_Some)
  have at: "lower_char (CHR ''@'') = CHR ''@''" by code_simp
  let ?l = "to_lowercase (ea_local a)" and ?d = "to_lowercase (ea_domain a)"
  have ls: "to_lowercase s = ?l @ CHR ''@'' # ?d" by (subst s) (simp add: to_lowercase_def at)
  show ?thesis
  proof (cases "CHR ''@'' \<in> set ?l")
    case False
    then have "split_once (CHR ''@'') (to_lowercase s) = Some (?l, ?d)" unfolding ls by (simp add: split_once_Some)
    with False show ?thesis by (simp add: pattern_covers_def)
  next
    case True
    then obtain x y where xy: "?l = x @ CHR ''@'' # y" "CHR ''@'' \<notin> set x" by (meson split_list_first)
    then have "split_once (CHR ''@'') (to_lowercase s) = Some (x, y @ CHR ''@'' # ?d)" unfolding ls by (simp add: split_once_Some)
    moreover have "y @ CHR ''@'' # ?d \<noteq> ?d" by (metis append_Cons append_is_Nil_conv append_self_conv2 list.distinct(1) append_assoc)
    ultimately show ?thesis using True by (simp add: pattern_covers_def)
  qed
qed

subsection \<open>A blocked stranger\<close>

definition blocked_mail :: ctx where
  "blocked_mail = snd (blocklist_add ''@Example.org'' ''spam'' (cold_mail\<lparr>contacts_seq := 10\<rparr>))"

lemma blocked_mail_eq:
  "blocked_mail = cold_mail\<lparr>contacts_seq := 10, tbl_blocklist := [\<lparr>b_id = 1, b_pattern = ''@Example.org'',
     b_pattern_norm = ''@example.org'', b_added = 1000, b_reason = ''spam''\<rparr>], blocklist_seq := 1\<rparr>"
proof -
  have "validate ''@Example.org'' = Ok ''@example.org''" "trim ''@Example.org'' = ''@Example.org''" by code_simp+
  moreover have "blocklist_seq cold_mail = 0" "tbl_blocklist cold_mail = []" "clock cold_mail = 1000"
    by (simp_all add: cold_mail_def fresh_db_def)
  ultimately show ?thesis by (simp add: blocked_mail_def blocklist_add_def)
qed

lemma blocked_mail_inv: "labels_inv blocked_mail"
  by (rule labels_inv_frame [OF cold_mail_inv]) (simp_all add: blocked_mail_eq)

lemma blocked_mail_blocklist: "blocklist_inv blocked_mail"
  unfolding blocked_mail_def
  by (rule blocklist_inv_add) (simp add: blocklist_inv_def cold_mail_def fresh_db_def unique_key_def)

lemma blocked_mail_contacts: "contacts_inv blocked_mail"
  by (simp add: blocked_mail_eq cold_mail_def contacts_inv_def wf_contacts_def unique_key_def stranger_def)

lemma blocked_mail_must: "must_block blocked_mail 10" "must_hold blocked_mail 10"
proof -
  have f: "find_msg blocked_mail 10 = Some ((default_msg 10)\<lparr>m_chat_id := 10, m_state := InFresh, m_from_id := 10, m_to_id := 1\<rparr>)"
    by (simp add: blocked_mail_eq cold_mail_def find_msg_def default_msg_def)
  have g: "get_by_id blocked_mail 10 = Ok stranger" 
    by (simp add: get_by_id_ordinary CONTACT_LAST_SPECIAL_def find_contact_def) (simp add: blocked_mail_eq cold_mail_def stranger_def)
  have "matches blocked_mail ''mallory@example.org''" by code_simp
  with f g show "must_block blocked_mail 10" by (simp add: must_block_def CONTACT_SELF_def stranger_def)
  have "gating_is_enabled blocked_mail" "is_trusted blocked_mail 10 = Ok False" by code_simp+
  with f show "must_hold blocked_mail 10" by (simp add: must_hold_def CONTACT_SELF_def)
qed

text \<open>Two addresses of one domain: the second is parsed into it and evades its entry.\<close>

text \<open>With the domain and the address both listed, removing the domain unblocks the contact and leaves its mail blocked.\<close>

definition twice_blocked :: ctx where
  "twice_blocked = snd (blocklist_add ''mallory@example.org'' [] blocked_mail)"

theorem remove_exact_witness:
  "let c' = snd (blocklist_remove ''@example.org'' twice_blocked)
   in matches c' ''mallory@example.org'' \<and> (\<forall>r \<in> set (tbl_contacts c'). c_id r = 10 \<longrightarrow> c_addr r = ''mallory@example.org'' \<longrightarrow> \<not> c_blocked r)"
proof -
  have b: "blocklist_inv twice_blocked" unfolding twice_blocked_def by (rule blocklist_inv_add [OF blocked_mail_blocklist])
  have "tbl_contacts twice_blocked = tbl_contacts blocked_mail" "contacts_seq twice_blocked = contacts_seq blocked_mail"
    by (simp_all add: twice_blocked_def blocklist_add_def split: result.splits)
  then have con: "contacts_inv twice_blocked" using blocked_mail_contacts by (simp add: contacts_inv_def wf_contacts_def)
  have ok: "fst (blocklist_remove ''@example.org'' twice_blocked) = Ok ()" by code_simp
  have e: "list_ex (\<lambda>b. b_pattern_norm b \<noteq> blocklist_normalize ''@example.org'' \<and>
      pattern_covers (b_pattern_norm b) (blocklist_normalize ''mallory@example.org'')) (tbl_blocklist twice_blocked)" by code_simp
  have v: "pattern_covers (blocklist_normalize ''@example.org'') (blocklist_normalize ''mallory@example.org'')" by code_simp
  show ?thesis using remove_exact [OF b con ok, of "''mallory@example.org''"] e v
    by (auto simp: Let_def CONTACT_LAST_SPECIAL_def)
qed

text \<open>An address without a dot in its domain: the contact is blocked, the call fails, the mail is not blocked.\<close>

definition local_mail :: ctx where
  "local_mail = blocked_mail\<lparr>tbl_contacts := [stranger\<lparr>c_addr := ''bob@localhost''\<rparr>]\<rparr>"

theorem block_contact_exact_witness:
  "fst (block_contact 10 local_mail) \<noteq> Ok () \<and>
   find_contact (snd (block_contact 10 local_mail)) 10 = Some (stranger\<lparr>c_addr := ''bob@localhost'', c_blocked := True\<rparr>) \<and>
   tbl_blocklist (snd (block_contact 10 local_mail)) = tbl_blocklist local_mail"
proof -
  let ?r = "stranger\<lparr>c_addr := ''bob@localhost''\<rparr>"
  have b: "blocklist_inv local_mail" using blocked_mail_blocklist by (simp add: local_mail_def blocklist_inv_def)
  have w: "wf_contacts local_mail" by (simp add: local_mail_def wf_contacts_def unique_key_def)
  have f: "find_contact local_mail 10 = Some ?r" by (simp add: local_mail_def find_contact_def stranger_def)
  have v: "\<not> is_ok (validate ''bob@localhost'')" by code_simp
  show ?thesis using block_contact_exact [OF b w _ f] v by (simp add: CONTACT_LAST_SPECIAL_def)
qed

end
