(* ===== verification/Compose.thy ===== *)
theory Compose
  imports Policy Recipients Receipts Blocklist
begin

text \<open>
  \<open>email/compose.rs\<close>: the recipient set of a message, its resolution to contacts, and the addressees
  the chat of a message does not cover, with the padlock's questions of \<open>sendopts.rs\<close> about a
  recipient set, \<open>Contact::add_or_lookup\<close> of \<open>contact.rs\<close>, and the place of \<open>mimefactory.rs\<close> that
  extends header, envelope and keys. A public key is represented by its fingerprint. Persisting the
  draft and rendering the message are not modelled.
\<close>

section \<open>Contacts for addresses\<close>

text \<open>\<open>str::len\<close> counts the bytes of the UTF-8 encoding.\<close>

definition byte_len :: "string \<Rightarrow> nat" where
  "byte_len s = sum_list (map (\<lambda>c. if (of_char c :: nat) < 128 then 1 else 2) s)"

definition noreply_addr :: "string \<Rightarrow> bool" where
  "noreply_addr addr \<longleftrightarrow> contains ''noreply'' addr \<or> contains ''no-reply'' addr \<or> starts_with ''notifications@'' addr \<or>
     (byte_len addr > 50 \<and> CHR ''+'' \<in> set addr)"

definition update_chat_names :: "contact_id \<Rightarrow> ctx \<Rightarrow> ctx" where
  "update_chat_names i c =
    (case List.find (\<lambda>ch. ch_type ch = Single \<and> list_ex (\<lambda>j. cc_chat_id j = ch_id ch \<and> cc_contact_id j = i) (tbl_chats_contacts c)) (tbl_chats c) of
       None \<Rightarrow> c
     | Some ch \<Rightarrow>
         (case find_contact c i of
            None \<Rightarrow> c
          | Some r \<Rightarrow>
              c\<lparr>tbl_chats := update_where (\<lambda>x. ch_id x = ch_id ch) (\<lambda>x. x\<lparr>ch_name := get_display_name r\<rparr>) (tbl_chats c)\<rparr>))"

text \<open>\<open>add_or_lookup_ext\<close> with an empty fingerprint. First what it makes of a row that is found: the
  row after the update and whether a name changed, or nothing if there is nothing to update.\<close>

definition merge_contact :: "string \<Rightarrow> string \<Rightarrow> origin \<Rightarrow> bool \<Rightarrow> contact_row \<Rightarrow> (contact_row \<times> bool) option" where
  "merge_contact name addr orig manual r =
    (let update_name = (manual \<and> name \<noteq> c_name r);
         update_authname = (\<not> manual \<and> name \<noteq> c_authname r \<and> name \<noteq> [] \<and>
           (orig \<ge> c_origin r \<or> orig = IncomingUnknownFrom \<or> c_authname r = []));
         update_addr = (orig \<ge> c_origin r \<and> addr \<noteq> c_addr r)
     in if update_name \<or> update_authname \<or> update_addr \<or> orig > c_origin r
        then Some (r\<lparr>c_name := (if update_name then name else c_name r),
                     c_addr := (if update_addr then addr else c_addr r),
                     c_origin := (if orig > c_origin r then orig else c_origin r),
                     c_authname := (if update_authname then name else c_authname r)\<rparr>, update_name \<or> update_authname)
        else None)"

definition insert_contact :: "string \<Rightarrow> string \<Rightarrow> origin \<Rightarrow> bool \<Rightarrow> ctx \<Rightarrow> ctx" where
  "insert_contact name addr orig manual c =
    c\<lparr>tbl_contacts := tbl_contacts c @ [\<lparr>c_id = Suc (contacts_seq c), c_name = (if manual then name else []),
        c_authname = (if manual then [] else name), c_addr = addr, c_origin = orig, c_blocked = False,
        c_last_seen = 0, c_fingerprint = [], c_verifier = 0\<rparr>],
      contacts_seq := Suc (contacts_seq c)\<rparr>"

definition add_or_lookup :: "string \<Rightarrow> string \<Rightarrow> origin \<Rightarrow> (ctx, contact_id) eff" where
  "add_or_lookup name0 addr origin0 c =
    (if addr = [] then (Err EmptyAddress, c)
     else if origin0 = Unknown then (Err MissingOrigin, c)
     else if is_configured c \<and> is_self_addr c addr then (Ok CONTACT_SELF, c)
     else
       let hide = (origin0 \<le> OutgoingTo \<and> noreply_addr addr);
           name = (if hide then [] else sanitize_name name0);
           orig = (if hide then Hidden else origin0);
           manual = (orig \<in> {ManuallyCreated, AddressBook, UnhandledQrScan})
       in case List.find (\<lambda>r. c_fingerprint r = [] \<and> addr_eq addr r) (tbl_contacts c) of
            Some r \<Rightarrow>
              (Ok (c_id r),
               case merge_contact name addr orig manual r of
                 None \<Rightarrow> c
               | Some (r', named) \<Rightarrow>
                   let c1 = c\<lparr>tbl_contacts := update_where (\<lambda>x. c_id x = c_id r) (\<lambda>_. r') (tbl_contacts c)\<rparr>
                   in if named then update_chat_names (c_id r) c1 else c1)
          | None \<Rightarrow> (Ok (Suc (contacts_seq c)), insert_contact name addr orig manual c))"

section \<open>Recipient sets\<close>

record recipient_set =
  rs_to :: "string list"
  rs_cc :: "string list"
  rs_bcc :: "string list"

definition recipient_set_is_empty :: "recipient_set \<Rightarrow> bool" where
  "recipient_set_is_empty rs \<longleftrightarrow> rs_to rs = [] \<and> rs_cc rs = [] \<and> rs_bcc rs = []"

definition split_addr :: "string \<Rightarrow> string \<times> string" where
  "split_addr input =
    (case rsplit_once (CHR ''<'') input of
       Some (name, rest) \<Rightarrow>
         (case rsplit_once (CHR ''>'') rest of
            Some (addr, _) \<Rightarrow> (trim_matches (\<lambda>c. c = CHR 0x22) (trim name), trim addr)
          | None \<Rightarrow> ([], input))
     | None \<Rightarrow> ([], input))"

fun resolve_recipients :: "(recipient_kind \<times> string) list \<Rightarrow> recipient list \<Rightarrow> (ctx, recipient list) eff" where
  "resolve_recipients [] rows c = (Ok rows, c)"
| "resolve_recipients ((k, typed) # rest) rows c =
    (let a = trim typed in
     if a = [] then resolve_recipients rest rows c
     else
       case split_addr a of (name, addr) \<Rightarrow>
         (case contact_address_new addr of
            Err e \<Rightarrow> (Err e, c)
          | Ok contact_addr \<Rightarrow>
              (case add_or_lookup name contact_addr OutgoingCc c of
                 (Err e, c1) \<Rightarrow> (Err e, c1)
               | (Ok _, c1) \<Rightarrow>
                   resolve_recipients rest (rows @ [\<lparr>rc_kind = k, rc_addr = addr_normalize addr, rc_name = name\<rparr>]) c1)))"

definition typed_recipients :: "recipient_set \<Rightarrow> (recipient_kind \<times> string) list" where
  "typed_recipients rs = map (Pair To) (rs_to rs) @ map (Pair Cc) (rs_cc rs) @ map (Pair Bcc) (rs_bcc rs)"

definition set_recipients :: "msg_id \<Rightarrow> recipient_set \<Rightarrow> (ctx, unit) eff" where
  "set_recipients m rs c =
    (case resolve_recipients (typed_recipients rs) [] c of
       (Err e, c1) \<Rightarrow> (Err e, c1)
     | (Ok rows, c1) \<Rightarrow> (Ok (), recipients_store m rows c1))"

definition key_contact_for :: "ctx \<Rightarrow> string \<Rightarrow> contact_id option" where
  "key_contact_for c addr =
    (case sort_key (\<lambda>r. - c_last_seen r)
        (filter (\<lambda>r. addr_eq addr r \<and> c_fingerprint r \<noteq> [] \<and> c_id r > CONTACT_LAST_SPECIAL \<and> \<not> c_blocked r) (tbl_contacts c)) of
       [] \<Rightarrow> None | r # _ \<Rightarrow> Some (c_id r))"

definition lookup_key :: "ctx \<Rightarrow> string \<Rightarrow> string option" where
  "lookup_key c addr =
    (case List.find (\<lambda>r. addr_eq addr r \<and> c_fingerprint r \<noteq> []) (tbl_contacts c) of
       None \<Rightarrow> None
     | Some r \<Rightarrow> if c_fingerprint r \<in> set (tbl_public_keys c) then Some (c_fingerprint r) else None)"

section \<open>The padlock\<close>

definition contacts_for :: "ctx \<Rightarrow> string \<Rightarrow> contact_id list" where
  "contacts_for c addr = map c_id (filter (\<lambda>r. addr_eq addr r \<and> c_id r > CONTACT_LAST_SPECIAL) (tbl_contacts c))"

record readiness =
  rd_mode :: encryption_mode
  rd_missing :: "string list"
  rd_locked :: bool

definition typed_addrs :: "recipient_set \<Rightarrow> string list" where
  "typed_addrs rs = filter (\<lambda>a. a \<noteq> []) (map trim (rs_to rs @ rs_cc rs @ rs_bcc rs))"

definition readiness_of :: "ctx \<Rightarrow> recipient_set \<Rightarrow> readiness" where
  "readiness_of c rs =
    (let addr = (\<lambda>typed. addr_normalize (snd (split_addr typed)));
         ids = concat (map (\<lambda>typed. contacts_for c (addr typed)) (typed_addrs rs));
         missing = filter (\<lambda>typed. key_contact_for c (addr typed) = None) (typed_addrs rs);
         mode = effective c ids
     in \<lparr>rd_mode = mode, rd_missing = missing, rd_locked = (mode = Strict)\<rparr>)"

definition sendopts_check :: "ctx \<Rightarrow> recipient_set \<Rightarrow> send_options \<Rightarrow> unit result" where
  "sendopts_check c rs opts =
    (if opt_encryption opts = Auto then Ok ()
     else
       let ready = readiness_of c rs in
       if opt_encryption opts = Required \<and> rd_missing ready \<noteq> [] then Err (CannotSendEncrypted (rd_missing ready))
       else if opt_encryption opts = Plaintext \<and> rd_locked ready then Err CannotSendPlaintext
       else Ok ())"

text \<open>\<open>send\<close> up to the contact whose chat the message goes to, and the split of the body.\<close>

definition send_contact :: "recipient_set \<Rightarrow> send_options \<Rightarrow> (ctx, contact_id) eff" where
  "send_contact rs opts c =
    (if recipient_set_is_empty rs then (Err NoRecipient, c)
     else case rs_to rs of
       [] \<Rightarrow> (Err NoToAddress, c)
     | primary # _ \<Rightarrow>
         (case sendopts_check c rs opts of
            Err e \<Rightarrow> (Err e, c)
          | Ok _ \<Rightarrow>
              (case split_addr (trim primary) of (name, addr) \<Rightarrow>
                 (case key_contact_for c (addr_normalize addr) of
                    Some i \<Rightarrow> (Ok i, c)
                  | None \<Rightarrow>
                      (case contact_address_new addr of
                         Err e \<Rightarrow> (Err e, c)
                       | Ok contact_addr \<Rightarrow> add_or_lookup name contact_addr OutgoingTo c)))))"

definition send_body :: "send_options \<Rightarrow> string \<Rightarrow> string \<times> string option" where
  "send_body opts text = (if opt_signature_in_body opts then split_signature text else (text, None))"

section \<open>Addressees beyond the chat\<close>

record extra_recipient =
  er_name :: string
  er_addr :: string
  er_key :: "string option"

record extra_recipients =
  ex_cc :: "extra_recipient list"
  ex_bcc :: "extra_recipient list"

fun extra_loop :: "ctx \<Rightarrow> string set \<Rightarrow> string set \<Rightarrow> recipient list \<Rightarrow> extra_recipients \<Rightarrow> extra_recipients" where
  "extra_loop c already seen [] ex = ex"
| "extra_loop c already seen (r # rs) ex =
    (if rc_kind r = To then extra_loop c already seen rs ex
     else
       let addr = addr_normalize (rc_addr r) in
       if addr \<in> already then extra_loop c already seen rs ex
       else if addr \<in> seen then extra_loop c already seen rs ex
       else
         let entry = \<lparr>er_name = rc_name r, er_addr = addr, er_key = lookup_key c addr\<rparr> in
         extra_loop c already (insert addr seen) rs
           (if rc_kind r = Cc then ex\<lparr>ex_cc := ex_cc ex @ [entry]\<rparr> else ex\<lparr>ex_bcc := ex_bcc ex @ [entry]\<rparr>))"

definition extra_recipients_of :: "ctx \<Rightarrow> msg_id \<Rightarrow> string list \<Rightarrow> extra_recipients" where
  "extra_recipients_of c m already =
    (let stored = recipients_load c m in
     if stored = [] then \<lparr>ex_cc = [], ex_bcc = []\<rparr>
     else extra_loop c (set (map addr_normalize already)) {} stored \<lparr>ex_cc = [], ex_bcc = []\<rparr>)"

text \<open>What the renderer makes of them: the Cc header, the envelope, the keys and the addresses without one.\<close>

record rendering =
  mf_cc :: "(string \<times> string) list"
  mf_recipients :: "string list"
  mf_keys :: "(string \<times> string) list"
  mf_missing :: "string set"

definition extend_rendering :: "ctx \<Rightarrow> msg_id \<Rightarrow> rendering \<Rightarrow> rendering" where
  "extend_rendering c m mf =
    (let ex = extra_recipients_of c m (mf_recipients mf);
         all = ex_cc ex @ ex_bcc ex
     in mf\<lparr>mf_cc := mf_cc mf @ map (\<lambda>e. (er_name e, er_addr e)) (ex_cc ex),
           mf_recipients := mf_recipients mf @ map er_addr all,
           mf_keys := mf_keys mf @ List.map_filter (\<lambda>e. map_option (Pair (er_addr e)) (er_key e)) all,
           mf_missing := mf_missing mf \<union> er_addr ` {e \<in> set all. er_key e = None}\<rparr>)"

text \<open>An asymmetrically encrypted message is not sent to addresses without a key.\<close>

definition encrypted_envelope :: "rendering \<Rightarrow> string list" where
  "encrypted_envelope mf = filter (\<lambda>a. a \<notin> mf_missing mf) (mf_recipients mf)"

section \<open>Lemmas\<close>

lemma dedup_by_append: "dedup_by f (xs @ ys) = dedup_by f xs @ dedup_by f (filter (\<lambda>y. f y \<notin> f ` set xs) ys)"
proof (induction "length xs" arbitrary: xs ys rule: less_induct)
  case less
  show ?case
  proof (cases xs)
    case (Cons x zs)
    let ?zs = "filter (\<lambda>y. f y \<noteq> f x) zs" and ?ys = "filter (\<lambda>y. f y \<noteq> f x) ys"
    have "length ?zs < length xs" by (simp add: Cons le_imp_less_Suc)
    then have "dedup_by f (?zs @ ?ys) = dedup_by f ?zs @ dedup_by f (filter (\<lambda>y. f y \<notin> f ` set ?zs) ?ys)" by (rule less)
    moreover have "filter (\<lambda>y. f y \<notin> f ` set ?zs) ?ys = filter (\<lambda>y. f y \<notin> f ` set xs) ys"
      unfolding filter_filter by (rule filter_cong) (auto simp: Cons image_iff)
    ultimately show ?thesis by (simp add: Cons)
  qed simp
qed

definition rc_norm :: "recipient \<Rightarrow> string" where "rc_norm r = addr_normalize (rc_addr r)"

definition extra_entry :: "ctx \<Rightarrow> recipient \<Rightarrow> extra_recipient" where
  "extra_entry c r = \<lparr>er_name = rc_name r, er_addr = rc_norm r, er_key = lookup_key c (rc_norm r)\<rparr>"

lemma extra_loop_eq:
  "extra_loop c already seen rs ex =
    (let ds = dedup_by rc_norm (filter (\<lambda>r. rc_kind r \<noteq> To \<and> rc_norm r \<notin> already \<union> seen) rs)
     in ex\<lparr>ex_cc := ex_cc ex @ map (extra_entry c) (filter (\<lambda>r. rc_kind r = Cc) ds),
           ex_bcc := ex_bcc ex @ map (extra_entry c) (filter (\<lambda>r. rc_kind r = Bcc) ds)\<rparr>)"
proof (induction rs arbitrary: seen ex)
  case (Cons r rs)
  show ?case
  proof (cases "rc_kind r \<noteq> To \<and> rc_norm r \<notin> already \<union> seen")
    case True
    have "filter (\<lambda>x. rc_norm x \<noteq> rc_norm r) (filter (\<lambda>x. rc_kind x \<noteq> To \<and> rc_norm x \<notin> already \<union> seen) rs) =
        filter (\<lambda>x. rc_kind x \<noteq> To \<and> rc_norm x \<notin> already \<union> insert (rc_norm r) seen) rs"
      unfolding filter_filter by (rule filter_cong) auto
    then show ?thesis
      using True Cons.IH [of "insert (rc_norm r) seen"]
      by (cases "rc_kind r") (simp_all add: Let_def extra_entry_def rc_norm_def)
  next
    case False
    then show ?thesis using Cons.IH [of seen ex] by (auto simp: rc_norm_def Let_def)
  qed
qed simp

text \<open>The extra addressees of a message whose recipients were just stored.\<close>

lemma extra_recipients_stored:
  assumes "old = addr_normalize ` set already"
  shows "extra_recipients_of (recipients_store m rows c) m already =
    (let c' = recipients_store m rows c;
         cc = dedup_by rc_norm (filter (\<lambda>r. rc_norm r \<notin> old) (dedup_by rc_addr (filter (\<lambda>r. rc_kind r = Cc) rows)));
         bcc = dedup_by rc_norm (filter (\<lambda>r. rc_norm r \<notin> rc_norm ` set cc)
                 (filter (\<lambda>r. rc_norm r \<notin> old) (dedup_by rc_addr (filter (\<lambda>r. rc_kind r = Bcc) rows))))
     in \<lparr>ex_cc = map (extra_entry c') cc, ex_bcc = map (extra_entry c') bcc\<rparr>)"
proof -
  let ?c' = "recipients_store m rows c"
  define k where "k kind = dedup_by rc_addr (filter (\<lambda>r. rc_kind r = kind) rows)" for kind
  have kind: "r \<in> set (k kd) \<Longrightarrow> rc_kind r = kd" for r kd
    using set_dedup_by [of rc_addr "filter (\<lambda>r. rc_kind r = kd) rows"] by (auto simp: k_def)
  define cc where "cc = filter (\<lambda>r. rc_norm r \<notin> old) (k Cc)"
  define bcc where "bcc = filter (\<lambda>r. rc_norm r \<notin> old) (k Bcc)"
  have load: "recipients_load ?c' m = k To @ k Cc @ k Bcc" by (simp add: recipients_round_trip k_def)
  have "filter (\<lambda>r. rc_kind r \<noteq> To \<and> rc_norm r \<notin> old) (k kd) = (if kd = To then [] else filter (\<lambda>r. rc_norm r \<notin> old) (k kd))" for kd
    using kind [of _ kd] by (auto intro!: filter_False filter_cong)
  then have "filter (\<lambda>r. rc_kind r \<noteq> To \<and> rc_norm r \<notin> old \<union> {}) (k To @ k Cc @ k Bcc) = cc @ bcc"
    by (simp add: cc_def bcc_def)
  moreover have "dedup_by rc_norm (cc @ bcc) = dedup_by rc_norm cc @ dedup_by rc_norm (filter (\<lambda>r. rc_norm r \<notin> rc_norm ` set (dedup_by rc_norm cc)) bcc)"
    by (simp add: dedup_by_append dedup_by_keys)
  moreover have "filter (\<lambda>r. rc_kind r = Cc) (dedup_by rc_norm cc) = dedup_by rc_norm cc" "filter (\<lambda>r. rc_kind r = Bcc) (dedup_by rc_norm cc) = []"
    using set_dedup_by [of rc_norm cc] kind by (auto simp: cc_def intro!: filter_True filter_False)
  moreover have "filter (\<lambda>r. rc_kind r = Bcc) (dedup_by rc_norm (filter p bcc)) = dedup_by rc_norm (filter p bcc)"
      "filter (\<lambda>r. rc_kind r = Cc) (dedup_by rc_norm (filter p bcc)) = []" for p
    using set_dedup_by [of rc_norm "filter p bcc"] kind by (fastforce simp: bcc_def intro!: filter_True filter_False)+
  ultimately have "extra_loop ?c' (set (map addr_normalize already)) {} (recipients_load ?c' m) \<lparr>ex_cc = [], ex_bcc = []\<rparr> =
      \<lparr>ex_cc = map (extra_entry ?c') (dedup_by rc_norm cc),
       ex_bcc = map (extra_entry ?c') (dedup_by rc_norm (filter (\<lambda>r. rc_norm r \<notin> rc_norm ` set (dedup_by rc_norm cc)) bcc))\<rparr>"
    unfolding extra_loop_eq load set_map assms [symmetric] by (simp add: Let_def)
  moreover have "recipients_load ?c' m = [] \<Longrightarrow> cc = [] \<and> bcc = []" by (simp add: load cc_def bcc_def)
  ultimately show ?thesis
    unfolding extra_recipients_of_def Let_def by (auto simp: cc_def bcc_def k_def)
qed

section \<open>Properties\<close>

lemma norm_dedup_addr: "rc_norm ` set (dedup_by rc_addr xs) = rc_norm ` set xs"
  using dedup_by_keys [of rc_addr xs] unfolding rc_norm_def by (metis image_image)

text \<open>C18: What is added to a message's envelope beyond its chat are exactly the stored Cc and Bcc
  addresses that are not in it already, and to the Cc header exactly the stored Cc addresses: a
  blind copy never reaches the header unless it is a visible copy as well. A stored To address that
  is neither in the envelope already nor a copy is not added at all.\<close>

theorem envelope_exact:
  "let mf' = extend_rendering (recipients_store m rows c) m mf;
       addrs = (\<lambda>k. {addr_normalize (rc_addr r) | r. r \<in> set rows \<and> rc_kind r = k});
       old = addr_normalize ` set (mf_recipients mf)
   in set (mf_recipients mf') = set (mf_recipients mf) \<union> (addrs Cc \<union> addrs Bcc - old) \<and>
      snd ` set (mf_cc mf') = snd ` set (mf_cc mf) \<union> (addrs Cc - old)"
proof -
  let ?c' = "recipients_store m rows c"
  define old where "old = addr_normalize ` set (mf_recipients mf)"
  define cc where "cc = dedup_by rc_norm (filter (\<lambda>r. rc_norm r \<notin> old) (dedup_by rc_addr (filter (\<lambda>r. rc_kind r = Cc) rows)))"
  define bcc where "bcc = dedup_by rc_norm (filter (\<lambda>r. rc_norm r \<notin> rc_norm ` set cc)
    (filter (\<lambda>r. rc_norm r \<notin> old) (dedup_by rc_addr (filter (\<lambda>r. rc_kind r = Bcc) rows))))"
  have ex: "extra_recipients_of ?c' m (mf_recipients mf) = \<lparr>ex_cc = map (extra_entry ?c') cc, ex_bcc = map (extra_entry ?c') bcc\<rparr>"
    unfolding extra_recipients_stored [OF old_def] by (simp add: Let_def cc_def bcc_def)
  have flt: "rc_norm ` {r \<in> S. rc_norm r \<notin> X} = rc_norm ` S - X" for S X by auto
  have cc: "rc_norm ` set cc = rc_norm ` {r \<in> set rows. rc_kind r = Cc} - old"
    by (simp add: cc_def dedup_by_keys flt norm_dedup_addr)
  have bcc: "rc_norm ` set bcc = rc_norm ` {r \<in> set rows. rc_kind r = Bcc} - old - rc_norm ` set cc"
    unfolding bcc_def dedup_by_keys set_filter flt norm_dedup_addr by simp
  have addrs: "{addr_normalize (rc_addr r) | r. r \<in> set rows \<and> rc_kind r = k} = rc_norm ` {r \<in> set rows. rc_kind r = k}" for k
    by (auto simp: rc_norm_def)
  have er: "er_addr (extra_entry x r) = rc_norm r" for x r by (simp add: extra_entry_def)
  have rec: "set (mf_recipients (extend_rendering ?c' m mf)) = set (mf_recipients mf) \<union> (rc_norm ` set cc \<union> rc_norm ` set bcc)"
    by (auto simp: extend_rendering_def ex Let_def er)
  have hdr: "snd ` set (mf_cc (extend_rendering ?c' m mf)) = snd ` set (mf_cc mf) \<union> rc_norm ` set cc"
    by (simp add: extend_rendering_def ex Let_def er image_Un image_image)
  show ?thesis unfolding Let_def addrs old_def [symmetric] rec hdr cc bcc by auto
qed

text \<open>A message to two people with To and nobody else: the chat is with the first, and the second is lost.\<close>

definition two_to :: "recipient list" where
  "two_to = [\<lparr>rc_kind = To, rc_addr = ''bob@x.org'', rc_name = []\<rparr>, \<lparr>rc_kind = To, rc_addr = ''carol@x.org'', rc_name = []\<rparr>]"

theorem envelope_exact_witness:
  "set (mf_recipients (extend_rendering (recipients_store 10 two_to fresh_db) 10
     \<lparr>mf_cc = [], mf_recipients = [''bob@x.org''], mf_keys = [], mf_missing = {}\<rparr>)) = {''bob@x.org''}"
proof -
  have "{addr_normalize (rc_addr r) | r. r \<in> set two_to \<and> rc_kind r = k} = {}" if "k \<noteq> To" for k
    using that by (auto simp: two_to_def)
  then have none: "{addr_normalize (rc_addr r) | r. r \<in> set two_to \<and> rc_kind r = Cc} = {}"
    "{addr_normalize (rc_addr r) | r. r \<in> set two_to \<and> rc_kind r = Bcc} = {}" by blast+
  show ?thesis
    using envelope_exact [where m = 10 and c = fresh_db and rows = two_to
      and mf = "\<lparr>mf_cc = [], mf_recipients = [''bob@x.org''], mf_keys = [], mf_missing = {}\<rparr>"]
    unfolding Let_def none by simp
qed

lemma sort_key_Nil_iff: "sort_key f xs = [] \<longleftrightarrow> xs = []"
  by (cases xs) (simp_all add: insort_not_Nil)

lemma key_contact_for_None:
  "key_contact_for c addr = None \<longleftrightarrow>
     (\<forall>r \<in> set (tbl_contacts c). \<not> (addr_eq addr r \<and> c_fingerprint r \<noteq> [] \<and> c_id r > CONTACT_LAST_SPECIAL \<and> \<not> c_blocked r))"
proof -
  define xs where "xs = filter (\<lambda>r. addr_eq addr r \<and> c_fingerprint r \<noteq> [] \<and> c_id r > CONTACT_LAST_SPECIAL \<and> \<not> c_blocked r) (tbl_contacts c)"
  have "key_contact_for c addr = None \<longleftrightarrow> sort_key (\<lambda>r. - c_last_seen r) xs = []"
    unfolding key_contact_for_def xs_def [symmetric] by (cases "sort_key (\<lambda>r. - c_last_seen r) xs") simp_all
  then show ?thesis unfolding sort_key_Nil_iff xs_def filter_empty_conv .
qed

text \<open>The padlock in its closed position lets a message pass exactly if every address that was typed
  has an unblocked contact with a fingerprint; that the key behind the fingerprint is stored is not
  asked, so a passing message can still have an addressee it cannot be encrypted to.\<close>

lemma required_check_exact:
  assumes "opt_encryption opts = Required"
  shows "sendopts_check c rs opts = Ok () \<longleftrightarrow>
    (\<forall>typed \<in> set (typed_addrs rs). \<exists>r \<in> set (tbl_contacts c). addr_eq (addr_normalize (snd (split_addr typed))) r \<and>
       c_fingerprint r \<noteq> [] \<and> c_id r > CONTACT_LAST_SPECIAL \<and> \<not> c_blocked r)"
proof -
  have "sendopts_check c rs opts = Ok () \<longleftrightarrow>
      (\<forall>typed \<in> set (typed_addrs rs). key_contact_for c (addr_normalize (snd (split_addr typed))) \<noteq> None)"
    using assms by (auto simp: sendopts_check_def readiness_of_def Let_def filter_empty_conv)
  also have "\<dots> \<longleftrightarrow> (\<forall>typed \<in> set (typed_addrs rs). \<exists>r \<in> set (tbl_contacts c). addr_eq (addr_normalize (snd (split_addr typed))) r \<and>
       c_fingerprint r \<noteq> [] \<and> c_id r > CONTACT_LAST_SPECIAL \<and> \<not> c_blocked r)"
    unfolding key_contact_for_None by auto
  finally show ?thesis .
qed

definition keyless :: ctx where
  "keyless = cold_mail\<lparr>tbl_contacts := [stranger\<lparr>c_fingerprint := ''AB''\<rparr>]\<rparr>"

text \<open>The contact that is found or made for an address.\<close>

lemma addr_eq_sym_update: "addr_eq a (r\<lparr>c_addr := a\<rparr>)"
  by (simp add: addr_eq_def eq_ignore_ascii_case_def)

lemma update_chat_names_frame [simp]:
  "tbl_msg_recipients (update_chat_names i c) = tbl_msg_recipients c" "tbl_contacts (update_chat_names i c) = tbl_contacts c"
  "contacts_seq (update_chat_names i c) = contacts_seq c"
  by (simp_all add: update_chat_names_def split: option.split)

lemma add_or_lookup_frame: "tbl_msg_recipients (snd (add_or_lookup n a orig c)) = tbl_msg_recipients c"
  by (simp add: add_or_lookup_def Let_def insert_contact_def split: option.split)

lemma add_or_lookup_Ok: "a \<noteq> [] \<Longrightarrow> orig \<noteq> Unknown \<Longrightarrow> is_ok (fst (add_or_lookup n a orig c))"
  unfolding add_or_lookup_def Let_def by (simp split: option.split)

lemma contact_address_new_Ok: "contact_address_new s = Ok a \<Longrightarrow> a = addr_normalize s \<and> a \<noteq> []"
  by (auto simp: contact_address_new_def may_be_valid_addr_def email_address_new_def Let_def split: if_splits)

definition typed_rows :: "(recipient_kind \<times> string) list \<Rightarrow> recipient list" where
  "typed_rows ts = map (\<lambda>(k, a). \<lparr>rc_kind = k, rc_addr = addr_normalize (snd (split_addr a)), rc_name = fst (split_addr a)\<rparr>)
     (filter (\<lambda>(k, a). a \<noteq> []) (map (map_prod id trim) ts))"

definition typed_valid :: "(recipient_kind \<times> string) list \<Rightarrow> bool" where
  "typed_valid ts = list_all (\<lambda>(k, a). trim a = [] \<or> is_ok (contact_address_new (snd (split_addr (trim a))))) ts"

lemma resolve_recipients_eq:
  "tbl_msg_recipients (snd (resolve_recipients ts rows c)) = tbl_msg_recipients c \<and>
   (if typed_valid ts then fst (resolve_recipients ts rows c) = Ok (rows @ typed_rows ts)
    else \<not> is_ok (fst (resolve_recipients ts rows c)))"
proof (induction ts rows c rule: resolve_recipients.induct)
  case (1 rows c)
  then show ?case by (simp add: typed_valid_def typed_rows_def)
next
  case (2 k typed rest rows c)
  show ?case
  proof (cases "trim typed = []")
    case True
    with 2(1) show ?thesis by (simp add: typed_valid_def typed_rows_def)
  next
    case False
    obtain name addr where sp: "split_addr (trim typed) = (name, addr)" by force
    show ?thesis
    proof (cases "contact_address_new addr")
      case (Err e)
      with False sp show ?thesis by (simp add: typed_valid_def)
    next
      case (Ok a)
      have "a \<noteq> []" using contact_address_new_Ok [OF Ok] by blast
      then obtain i c1 where add: "add_or_lookup name a OutgoingCc c = (result.Ok i, c1)"
        using add_or_lookup_Ok [of a OutgoingCc name c]
        by (cases "add_or_lookup name a OutgoingCc c"; cases "fst (add_or_lookup name a OutgoingCc c)") auto
      have fr: "tbl_msg_recipients c1 = tbl_msg_recipients c" using add_or_lookup_frame [of name a OutgoingCc c] add by simp
      let ?row = "\<lparr>rc_kind = k, rc_addr = addr_normalize addr, rc_name = name\<rparr>"
      have step: "resolve_recipients ((k, typed) # rest) rows c = resolve_recipients rest (rows @ [?row]) c1"
        using False sp Ok add by simp
      have v: "typed_valid ((k, typed) # rest) = typed_valid rest" "typed_rows ((k, typed) # rest) = ?row # typed_rows rest"
        using False sp Ok by (simp_all add: typed_valid_def typed_rows_def)
      show ?thesis unfolding step v using 2(2) [OF refl False sp [symmetric] Ok add [symmetric] refl] fr by simp
    qed
  qed
qed

text \<open>C19: Recording the recipients of a draft succeeds exactly if every address that is not blank is
  valid. Then the set reads back as it was typed: To, then Cc, then Bcc, each in order and without
  repetition, with the names split off and the addresses normalised. If it fails, the stored
  recipients of every message are what they were.\<close>

theorem set_recipients_exact:
  "(if typed_valid (typed_recipients rs)
    then fst (set_recipients m rs c) = Ok () \<and>
      recipients_load (snd (set_recipients m rs c)) m =
        concat (map (\<lambda>k. dedup_by rc_addr (filter (\<lambda>r. rc_kind r = k) (typed_rows (typed_recipients rs)))) [To, Cc, Bcc])
    else \<not> is_ok (fst (set_recipients m rs c)) \<and>
      tbl_msg_recipients (snd (set_recipients m rs c)) = tbl_msg_recipients c)"
proof -
  obtain r c1 where run: "resolve_recipients (typed_recipients rs) [] c = (r, c1)" by force
  have eq: "tbl_msg_recipients c1 = tbl_msg_recipients c" "typed_valid (typed_recipients rs) \<Longrightarrow> r = Ok (typed_rows (typed_recipients rs))"
    "\<not> typed_valid (typed_recipients rs) \<Longrightarrow> \<not> is_ok r"
    using resolve_recipients_eq [of "typed_recipients rs" "[]" c] run by (simp_all split: if_splits)
  show ?thesis
  proof (cases "typed_valid (typed_recipients rs)")
    case True
    then show ?thesis using eq(2) by (simp add: set_recipients_def run recipients_round_trip)
  next
    case False
    with eq(3) obtain e where "r = Err e" by (cases r) auto
    with False eq(1) show ?thesis by (simp add: set_recipients_def run)
  qed
qed

lemma if_Some_eq: "(if p then Some x else None) = Some y \<Longrightarrow> y = x"
  by (cases p) simp_all

lemma merge_contact_key:
  assumes "merge_contact n a orig manual r = Some (r', b)"
  shows "c_id r' = c_id r" "c_fingerprint r' = c_fingerprint r" "addr_eq a r \<Longrightarrow> addr_eq a r'"
    "c_blocked r' = c_blocked r" "c_origin r \<le> c_origin r'"
proof -
  obtain u v w where r': "r' = r\<lparr>c_name := u, c_addr := (if v then a else c_addr r), c_origin := (if orig > c_origin r then orig else c_origin r), c_authname := w\<rparr>"
    using if_Some_eq [OF assms [unfolded merge_contact_def Let_def]] by blast
  show "c_id r' = c_id r" "c_fingerprint r' = c_fingerprint r" "c_blocked r' = c_blocked r" "c_origin r \<le> c_origin r'"
    unfolding r' by (simp_all add: less_imp_le)
  show "addr_eq a r \<Longrightarrow> addr_eq a r'" unfolding r' addr_eq_def eq_ignore_ascii_case_def by simp
qed

lemma find_map_pred: "(\<And>x. x \<in> set xs \<Longrightarrow> p (f x) = p x) \<Longrightarrow> List.find p (map f xs) = map_option f (List.find p xs)"
  by (induction xs) auto

definition address_contact :: "string \<Rightarrow> ctx \<Rightarrow> contact_row option" where
  "address_contact addr c = List.find (\<lambda>r. c_fingerprint r = [] \<and> addr_eq addr r) (tbl_contacts c)"

text \<open>Merging the same values a second time changes nothing.\<close>

lemma merge_contact_None:
  "merge_contact n a orig manual r = None \<Longrightarrow> orig \<le> c_origin r"
  by (auto simp: merge_contact_def Let_def split: if_splits)

lemma merge_contact_idem:
  assumes "merge_contact n a orig manual r = Some (r', b)"
  shows "merge_contact n a orig manual r' = None" "c_origin r' = max (c_origin r) orig"
proof -
  have r': "r' = r\<lparr>c_name := (if manual \<and> n \<noteq> c_name r then n else c_name r),
      c_addr := (if orig \<ge> c_origin r \<and> a \<noteq> c_addr r then a else c_addr r),
      c_origin := (if orig > c_origin r then orig else c_origin r),
      c_authname := (if \<not> manual \<and> n \<noteq> c_authname r \<and> n \<noteq> [] \<and>
        (orig \<ge> c_origin r \<or> orig = IncomingUnknownFrom \<or> c_authname r = []) then n else c_authname r)\<rparr>"
    using if_Some_eq [OF assms [unfolded merge_contact_def Let_def]] by blast
  show "c_origin r' = max (c_origin r) orig" by (auto simp: r' max_def)
  show "merge_contact n a orig manual r' = None"
    unfolding merge_contact_def Let_def r' by (auto simp: not_le not_less)
qed

text \<open>The state adding a contact leaves, and that the account's own addresses do not depend on it.\<close>

lemma own_addr_cong:
  assumes "tbl_transports c' = tbl_transports c" "configured_addr c' = configured_addr c"
  shows "is_configured c' = is_configured c" "is_self_addr c' a = is_self_addr c a"
  using assms by (simp_all add: is_configured_def is_self_addr_def get_all_self_addrs_def)

lemma update_chat_names_own [simp]:
  "tbl_transports (update_chat_names i c) = tbl_transports c" "configured_addr (update_chat_names i c) = configured_addr c"
  by (simp_all add: update_chat_names_def split: option.split)

text \<open>The origin and the name a contact is added with: up to \<open>OutgoingTo\<close>, an address that looks automatic is hidden and
  gets no name.\<close>

definition contact_origin_for :: "string \<Rightarrow> origin \<Rightarrow> origin" where
  "contact_origin_for addr orig = (if orig \<le> OutgoingTo \<and> noreply_addr addr then Hidden else orig)"

definition contact_name_for :: "string \<Rightarrow> string \<Rightarrow> origin \<Rightarrow> string" where
  "contact_name_for name addr orig = (if orig \<le> OutgoingTo \<and> noreply_addr addr then [] else sanitize_name name)"

definition by_hand :: "origin \<Rightarrow> bool" where
  "by_hand orig \<longleftrightarrow> orig \<in> {ManuallyCreated, AddressBook, UnhandledQrScan}"

lemma add_or_lookup_run:
  assumes "addr \<noteq> []" "orig \<noteq> Unknown" "\<not> (is_configured c \<and> is_self_addr c addr)"
  defines "og \<equiv> contact_origin_for addr orig"
  shows "add_or_lookup name addr orig c = (case address_contact addr c of
      Some r \<Rightarrow> (Ok (c_id r), case merge_contact (contact_name_for name addr orig) addr og (by_hand og) r of None \<Rightarrow> c
        | Some (r', named) \<Rightarrow> let c1 = c\<lparr>tbl_contacts := update_where (\<lambda>x. c_id x = c_id r) (\<lambda>_. r') (tbl_contacts c)\<rparr>
            in if named then update_chat_names (c_id r) c1 else c1)
    | None \<Rightarrow> (Ok (Suc (contacts_seq c)), insert_contact (contact_name_for name addr orig) addr og (by_hand og) c))"
  using assms(1-3) unfolding add_or_lookup_def address_contact_def Let_def og_def contact_origin_for_def contact_name_for_def by_hand_def
  by (simp only: if_False)

lemma add_or_lookup_again:
  assumes "addr \<noteq> []" "orig \<noteq> Unknown" "\<not> (is_configured c \<and> is_self_addr c addr)" "address_contact addr c = Some r"
    "merge_contact (contact_name_for name addr orig) addr (contact_origin_for addr orig) (by_hand (contact_origin_for addr orig)) r = None"
  shows "add_or_lookup name addr orig c = (Ok (c_id r), c)"
  using assms(4,5) by (simp add: add_or_lookup_run [OF assms(1-3)])

text \<open>Writing the merged row back changes the contact of the address and no other.\<close>

lemma merged_contacts:
  assumes inv: "contacts_inv c" and r: "address_contact addr c = Some r" and m: "merge_contact n addr orig manual r = Some (r', b)"
    and con: "tbl_contacts c' = update_where (\<lambda>x. c_id x = c_id r) (\<lambda>_. r') (tbl_contacts c)" "contacts_seq c' = contacts_seq c"
  shows "contacts_inv c'" "address_contact addr c' = Some r'" "length (tbl_contacts c') = length (tbl_contacts c)"
    "c_id x \<noteq> c_id r \<Longrightarrow> x \<in> set (tbl_contacts c') \<longleftrightarrow> x \<in> set (tbl_contacts c)"
proof -
  have rin: "r \<in> set (tbl_contacts c)" "c_fingerprint r = []" "addr_eq addr r" using r unfolding address_contact_def find_Some_iff by auto
  note k = merge_contact_key [OF m]
  define f where "f x = (if c_id x = c_id r then r' else x)" for x
  have map: "tbl_contacts c' = map f (tbl_contacts c)" unfolding con by (simp add: update_where_def f_def)
  have id: "c_id (f x) = c_id x" for x using k by (simp add: f_def)
  have uniq: "x \<in> set (tbl_contacts c) \<Longrightarrow> c_id x = c_id r \<Longrightarrow> x = r" for x
    using inv rin(1) unfolding contacts_inv_def wf_contacts_def by (metis unique_key_inj)
  show "contacts_inv c'" using inv by (simp add: contacts_inv_def wf_contacts_def unique_key_def map con(2) comp_def id)
  have "(c_fingerprint (f x) = [] \<and> addr_eq addr (f x)) = (c_fingerprint x = [] \<and> addr_eq addr x)" if "x \<in> set (tbl_contacts c)" for x
    using uniq [OF that] k rin by (auto simp: f_def)
  then have "address_contact addr c' = map_option f (address_contact addr c)"
    unfolding address_contact_def map by (intro find_map_pred)
  then show "address_contact addr c' = Some r'" by (simp add: r f_def)
  show "length (tbl_contacts c') = length (tbl_contacts c)" by (simp add: map)
  show "c_id x \<noteq> c_id r \<Longrightarrow> x \<in> set (tbl_contacts c') \<longleftrightarrow> x \<in> set (tbl_contacts c)"
    using k(1) by (auto simp: map f_def)
qed

lemma inserted_contacts:
  fixes n :: string and orig :: origin and manual :: bool
  assumes inv: "contacts_inv c" and r: "address_contact addr c = None"
  defines "c' \<equiv> insert_contact n addr orig manual c"
  obtains r' where "contacts_inv c'" "address_contact addr c' = Some r'" "c_id r' = Suc (contacts_seq c)" "c_origin r' = orig"
    "Suc (contacts_seq c) \<notin> c_id ` set (tbl_contacts c)" "merge_contact n addr orig manual r' = None"
    "\<And>x. c_id x \<noteq> Suc (contacts_seq c) \<Longrightarrow> x \<in> set (tbl_contacts c') \<longleftrightarrow> x \<in> set (tbl_contacts c)"
proof -
  let ?r = "\<lparr>c_id = Suc (contacts_seq c), c_name = (if manual then n else []), c_authname = (if manual then [] else n), c_addr = addr,
    c_origin = orig, c_blocked = False, c_last_seen = 0, c_fingerprint = [], c_verifier = 0\<rparr>"
  have new: "Suc (contacts_seq c) \<notin> c_id ` set (tbl_contacts c)" using inv by (auto simp: contacts_inv_def)
  then have "contacts_inv c'" using inv by (auto simp: c'_def contacts_inv_def wf_contacts_def unique_key_def insert_contact_def)
  moreover have "address_contact addr c' = Some ?r"
    using r by (simp add: c'_def address_contact_def insert_contact_def find_append addr_eq_def eq_ignore_ascii_case_def)
  moreover have "merge_contact n addr orig manual ?r = None" by (simp add: merge_contact_def)
  moreover have "x \<in> set (tbl_contacts c') \<longleftrightarrow> x \<in> set (tbl_contacts c)" if "c_id x \<noteq> Suc (contacts_seq c)" for x
    using that by (auto simp: c'_def insert_contact_def)
  ultimately show thesis by (intro that [of ?r] new) simp_all
qed

text \<open>C20: Adding a contact for an address never fails for a real origin. On a configured account it answers with the account
  itself for an own address, and only then, and changes nothing. Otherwise it answers with a contact of that
  address without a fingerprint: the one there was, whose id and block are kept and whose origin becomes the
  higher of its own and the one given, or else a new one with that origin; all other contacts stay as they are. Asking
  again gives the same contact and changes nothing.\<close>

theorem add_or_lookup_stable:
  assumes inv: "contacts_inv c" and real: "addr \<noteq> []" "orig \<noteq> Unknown"
  shows "\<exists>i c'. add_or_lookup name addr orig c = (Ok i, c') \<and> contacts_inv c' \<and> add_or_lookup name addr orig c' = (Ok i, c') \<and>
    (if is_configured c \<and> is_self_addr c addr then i = CONTACT_SELF \<and> c' = c
     else (\<forall>x. c_id x \<noteq> i \<longrightarrow> (x \<in> set (tbl_contacts c') \<longleftrightarrow> x \<in> set (tbl_contacts c))) \<and>
       (\<exists>r'. address_contact addr c' = Some r' \<and> c_id r' = i \<and>
         (case address_contact addr c of
            None \<Rightarrow> i \<notin> c_id ` set (tbl_contacts c) \<and> c_origin r' = contact_origin_for addr orig
          | Some r \<Rightarrow> c_id r = i \<and> c_blocked r' = c_blocked r \<and> c_origin r' = max (c_origin r) (contact_origin_for addr orig) \<and>
              length (tbl_contacts c') = length (tbl_contacts c))))"
proof (cases "is_configured c \<and> is_self_addr c addr")
  case True
  then show ?thesis using inv real by (simp add: add_or_lookup_def)
next
  case False
  note run = add_or_lookup_run [OF real False, of name]
  show ?thesis
  proof (cases "address_contact addr c")
    case None
    let ?og = "contact_origin_for addr orig"
    define c' where "c' = insert_contact (contact_name_for name addr orig) addr ?og (by_hand ?og) c"
    obtain r' where r': "contacts_inv c'" "address_contact addr c' = Some r'" "c_id r' = Suc (contacts_seq c)" "c_origin r' = ?og"
      "Suc (contacts_seq c) \<notin> c_id ` set (tbl_contacts c)" "merge_contact (contact_name_for name addr orig) addr ?og (by_hand ?og) r' = None"
      "\<And>x. c_id x \<noteq> Suc (contacts_seq c) \<Longrightarrow> x \<in> set (tbl_contacts c') \<longleftrightarrow> x \<in> set (tbl_contacts c)"
      unfolding c'_def by (rule inserted_contacts [OF inv None, of "contact_name_for name addr orig" ?og "by_hand ?og"]) blast
    have "tbl_transports c' = tbl_transports c" "configured_addr c' = configured_addr c" by (simp_all add: c'_def insert_contact_def)
    from own_addr_cong [OF this] have own: "\<not> (is_configured c' \<and> is_self_addr c' addr)" using False by simp
    have "add_or_lookup name addr orig c = (Ok (c_id r'), c')" by (simp add: run None r'(3) c'_def)
    then show ?thesis
      using r'(1-5,7) add_or_lookup_again [OF real own r'(2,6)] by (intro exI [of _ "c_id r'"] exI [of _ c']) (simp add: False None)
  next
    case (Some r)
    show ?thesis
    proof (cases "merge_contact (contact_name_for name addr orig) addr (contact_origin_for addr orig) (by_hand (contact_origin_for addr orig)) r")
      case None
      then show ?thesis
        using add_or_lookup_again [OF real False Some None] inv False Some merge_contact_None [OF None] by (auto simp: max_def)
    next
      case m: (Some p)
      obtain r' named where p: "p = (r', named)" by force
      define c' where "c' = snd (add_or_lookup name addr orig c)"
      have c': "add_or_lookup name addr orig c = (Ok (c_id r), c')" by (simp add: c'_def run Some)
      have con: "tbl_contacts c' = update_where (\<lambda>x. c_id x = c_id r) (\<lambda>_. r') (tbl_contacts c)" "contacts_seq c' = contacts_seq c"
        "tbl_transports c' = tbl_transports c" "configured_addr c' = configured_addr c"
        unfolding c'_def run Some by (simp_all add: m p Let_def)
      note k = merge_contact_key [OF m [unfolded p]] and again = merge_contact_idem [OF m [unfolded p]]
        and new = merged_contacts [OF inv Some m [unfolded p] con(1,2)]
      have own: "\<not> (is_configured c' \<and> is_self_addr c' addr)" using False own_addr_cong [OF con(3,4)] by simp
      show ?thesis using add_or_lookup_again [OF real own new(2) again(1)] c' new k(1,4) again(2)
        by (intro exI [of _ "c_id r"] exI [of _ c']) (simp add: False Some)
    qed
  qed
qed

theorem add_or_lookup_stable_witness:
  "let c' = snd (add_or_lookup ''Mal'' ''mallory@example.org'' OutgoingTo blocked_mail)
   in contacts_inv c' \<and> add_or_lookup ''Mal'' ''mallory@example.org'' OutgoingTo c' = (Ok 10, c')"
proof -
  have "\<not> is_configured blocked_mail" by (simp add: blocked_mail_eq is_configured_def cold_mail_def fresh_db_def)
  moreover obtain r where "address_contact ''mallory@example.org'' blocked_mail = Some r" "c_id r = 10"
    by (simp add: address_contact_def blocked_mail_eq cold_mail_def stranger_def addr_eq_def eq_ignore_ascii_case_def)
  ultimately show ?thesis
    using add_or_lookup_stable [OF blocked_mail_contacts, of "''mallory@example.org''" OutgoingTo "''Mal''"] by (auto simp: Let_def)
qed

end
