(* ===== verification/Threading.thy ===== *)
theory Threading
  imports Recipients
begin

text \<open>
  \<open>email/threading.rs\<close>: grouping messages into conversations by the Message-IDs they carry and
  reference, and the reply tree of one conversation. The loop that builds a subtree is a partial
  function: that it returns is a theorem.
\<close>

section \<open>Headers\<close>

definition parse_message_ids :: "string \<Rightarrow> string list" where
  "parse_message_ids ids =
    filter (\<lambda>i. i \<noteq> [])
      (map (\<lambda>i. let i1 = (case strip_prefix ''<'' i of Some x \<Rightarrow> x | None \<Rightarrow> i)
                 in (case strip_suffix ''>'' i1 of Some x \<Rightarrow> x | None \<Rightarrow> i1))
           (split_whitespace ids))"

definition remove_subject_prefix :: "string \<Rightarrow> string" where
  "remove_subject_prefix s =
    (let start = (if starts_with ''Chat:'' s then 0
                  else let p = takeWhile (\<lambda>c. c \<noteq> CHR '':'') (take 5 s)
                       in if length p < length (take 5 s) then Suc (length p) else 0)
     in trim (drop start s))"

record thread_headers =
  hd_rfc724_mid :: string
  hd_in_reply_to :: string
  hd_references :: string
  hd_subject :: string
  hd_timestamp :: int

definition linked_ids :: "thread_headers \<Rightarrow> string list" where
  "linked_ids h =
    dedup_by id (filter (\<lambda>i. i \<noteq> [])
      (hd_rfc724_mid h # parse_message_ids (hd_references h) @ parse_message_ids (hd_in_reply_to h)))"

section \<open>Grouping\<close>

definition thread_ref :: "ctx \<Rightarrow> string \<Rightarrow> nat option" where
  "thread_ref c i = map_option snd (List.find (\<lambda>r. fst r = i) (tbl_thread_refs c))"

definition thread_of :: "ctx \<Rightarrow> msg_id \<Rightarrow> nat option" where
  "thread_of c m = map_option snd (List.find (\<lambda>r. fst r = m) (tbl_msg_threads c))"

definition find_thread :: "ctx \<Rightarrow> nat \<Rightarrow> thread_row option" where
  "find_thread c t = List.find (\<lambda>r. th_id r = t) (tbl_threads c)"

text \<open>One step of the merge. The label of a thread is not null, so filling a blank one from a thread
  that does not exist fails the transaction.\<close>

definition absorb_thread :: "thread_row option \<Rightarrow> thread_row \<Rightarrow> thread_row" where
  "absorb_thread l r =
    r\<lparr>th_subject_norm := (case l of Some x \<Rightarrow> if th_subject_norm r = [] then th_subject_norm x else th_subject_norm r
                                  | None \<Rightarrow> th_subject_norm r),
      th_last_activity := max (th_last_activity r) (case l of Some x \<Rightarrow> th_last_activity x | None \<Rightarrow> 0)\<rparr>"

definition merge_thread :: "nat \<Rightarrow> nat \<Rightarrow> (ctx, unit) eff" where
  "merge_thread survivor loser c =
    (if find_thread c loser = None
        \<and> exists_where (\<lambda>r. th_id r = survivor \<and> th_subject_norm r = []) (tbl_threads c)
     then (Err (ThreadMissing loser), c)
     else (Ok (), c\<lparr>
       tbl_msg_threads := update_where (\<lambda>r. snd r = loser) (\<lambda>r. (fst r, survivor)) (tbl_msg_threads c),
       tbl_thread_refs := update_where (\<lambda>r. snd r = loser) (\<lambda>r. (fst r, survivor)) (tbl_thread_refs c),
       tbl_threads := delete_where (\<lambda>r. th_id r = loser)
         (update_where (\<lambda>r. th_id r = survivor) (absorb_thread (find_thread c loser)) (tbl_threads c))\<rparr>))"

fun merge_all :: "nat \<Rightarrow> nat list \<Rightarrow> (ctx, unit) eff" where
  "merge_all survivor [] c = (Ok (), c)"
| "merge_all survivor (l # ls) c =
    (case merge_thread survivor l c of (Err e, c1) \<Rightarrow> (Err e, c1) | (Ok _, c1) \<Rightarrow> merge_all survivor ls c1)"

definition existing_threads :: "ctx \<Rightarrow> string list \<Rightarrow> nat list" where
  "existing_threads c ids = sort (dedup_by id (List.map_filter (thread_ref c) ids))"

definition place :: "msg_id \<Rightarrow> string list \<Rightarrow> string \<Rightarrow> int \<Rightarrow> nat \<Rightarrow> ctx \<Rightarrow> ctx" where
  "place m ids subject_norm timestamp t c =
    c\<lparr>tbl_thread_refs := fold (\<lambda>i. upsert fst (\<lambda>_. (i, t)) (i, t)) ids (tbl_thread_refs c),
      tbl_msg_threads := upsert fst (\<lambda>_. (m, t)) (m, t) (tbl_msg_threads c),
      tbl_threads := update_where (\<lambda>r. th_id r = t)
        (\<lambda>r. r\<lparr>th_subject_norm := (if th_subject_norm r = [] then subject_norm else th_subject_norm r),
               th_last_activity := max (th_last_activity r) timestamp\<rparr>) (tbl_threads c)\<rparr>"

text \<open>A transaction: an error leaves the database as it was.\<close>

definition assign :: "msg_id \<Rightarrow> thread_headers \<Rightarrow> (ctx, nat) eff" where
  "assign m h c =
    (let ids = linked_ids h;
         subject_norm = remove_subject_prefix (hd_subject h)
     in case existing_threads c ids of
          survivor # losers \<Rightarrow>
            (case merge_all survivor losers c of
               (Err e, _) \<Rightarrow> (Err e, c)
             | (Ok _, c1) \<Rightarrow> (Ok survivor, place m ids subject_norm (hd_timestamp h) survivor c1))
        | [] \<Rightarrow>
            let t = Suc (threads_seq c);
                c1 = c\<lparr>tbl_threads := tbl_threads c @ [\<lparr>th_id = t, th_subject_norm = subject_norm, th_last_activity = hd_timestamp h\<rparr>],
                       threads_seq := t\<rparr>
            in (Ok t, place m ids subject_norm (hd_timestamp h) t c1))"

definition headers_of :: "msg_row \<Rightarrow> thread_headers" where
  "headers_of r =
    (let text = (\<lambda>x. case x of Some s \<Rightarrow> s | None \<Rightarrow> [])
     in \<lparr>hd_rfc724_mid = text (m_rfc724_mid r), hd_in_reply_to = text (m_in_reply_to r),
         hd_references = text (m_references r), hd_subject = text (m_subject r), hd_timestamp = m_timestamp r\<rparr>)"

definition assign_stored :: "msg_id \<Rightarrow> (ctx, nat option) eff" where
  "assign_stored m c =
    (case find_msg c m of
       None \<Rightarrow> (Ok None, c)
     | Some r \<Rightarrow> (case assign m (headers_of r) c of (Err e, c1) \<Rightarrow> (Err e, c1) | (Ok t, c1) \<Rightarrow> (Ok (Some t), c1)))"

definition thread_rows :: "ctx \<Rightarrow> nat \<Rightarrow> msg_row list" where
  "thread_rows c t =
    sort_key (\<lambda>r. (m_timestamp r, m_id r))
      (filter (\<lambda>r. thread_of c (m_id r) = Some t \<and> m_chat_id r \<noteq> DC_CHAT_ID_TRASH) (tbl_msgs c))"

definition thread_messages :: "ctx \<Rightarrow> nat \<Rightarrow> msg_id list" where
  "thread_messages c t = map m_id (thread_rows c t)"

section \<open>The reply tree\<close>

datatype thread_node = Node (node_msg: msg_id) (node_children: "thread_node list")

datatype build_step = Enter msg_id | Exit msg_id nat

text \<open>The stack has its top at the head, \<open>done\<close> its newest node at the end.\<close>

partial_function (option) build_loop :: "(msg_id \<Rightarrow> msg_id list) \<Rightarrow> build_step list \<Rightarrow> thread_node list \<Rightarrow> thread_node list option" where
  "build_loop children stack done =
    (case stack of
       [] \<Rightarrow> Some done
     | Enter m # rest \<Rightarrow> build_loop children (map Enter (children m) @ Exit m (length (children m)) # rest) done
     | Exit m kids # rest \<Rightarrow>
         build_loop children rest
           (take (length done - kids) done @ [Node m (drop (length done - kids) done)]))"

definition build_node :: "msg_id \<Rightarrow> (msg_id \<Rightarrow> msg_id list) \<Rightarrow> thread_node option" where
  "build_node root children =
    map_option (\<lambda>done. if done = [] then Node root [] else last done) (build_loop children [Enter root] [])"

definition by_mid :: "msg_row list \<Rightarrow> string \<Rightarrow> msg_row option" where
  "by_mid rows i = (if i = [] then None else List.find (\<lambda>r. hd_rfc724_mid (headers_of r) = i) rows)"

fun order_of :: "msg_row list \<Rightarrow> msg_id \<Rightarrow> nat" where
  "order_of [] m = 0"
| "order_of (r # rs) m = (if m_id r = m then 0 else Suc (order_of rs m))"

definition parent_of :: "msg_row list \<Rightarrow> msg_row \<Rightarrow> msg_id option" where
  "parent_of rows r =
    (let candidates = parse_message_ids (hd_references (headers_of r)) @ parse_message_ids (hd_in_reply_to (headers_of r));
         held = List.map_filter (by_mid rows) (rev candidates)
     in map_option m_id (List.find (\<lambda>x. m_id x \<noteq> m_id r \<and> order_of rows (m_id x) < order_of rows (m_id r)) held))"

definition children_of :: "msg_row list \<Rightarrow> msg_id \<Rightarrow> msg_id list" where
  "children_of rows m = map m_id (filter (\<lambda>r. parent_of rows r = Some m) rows)"

fun build_all :: "msg_id list \<Rightarrow> (msg_id \<Rightarrow> msg_id list) \<Rightarrow> thread_node list option" where
  "build_all [] children = Some []"
| "build_all (r # rs) children =
    (case build_node r children of
       None \<Rightarrow> None
     | Some n \<Rightarrow> (case build_all rs children of None \<Rightarrow> None | Some ns \<Rightarrow> Some (n # ns)))"

definition tree :: "ctx \<Rightarrow> nat \<Rightarrow> thread_node list option" where
  "tree c t =
    (let rows = thread_rows c t
     in build_all (map m_id (filter (\<lambda>r. parent_of rows r = None) rows)) (children_of rows))"

definition threading_prune :: "ctx \<Rightarrow> ctx" where
  "threading_prune c =
    (let c1 = c\<lparr>tbl_msg_threads := delete_where (\<lambda>r. fst r \<notin> set (live_ids c)) (tbl_msg_threads c)\<rparr>;
         c2 = c1\<lparr>tbl_threads := delete_where (\<lambda>r. th_id r \<notin> snd ` set (tbl_msg_threads c1)) (tbl_threads c1)\<rparr>
     in c2\<lparr>tbl_thread_refs := delete_where (\<lambda>r. snd r \<notin> th_id ` set (tbl_threads c2)) (tbl_thread_refs c2)\<rparr>)"

section \<open>The tree is built\<close>

text \<open>The reference: the subtree below a message, by recursion over replies.\<close>

inductive subtree :: "(msg_id \<Rightarrow> msg_id list) \<Rightarrow> msg_id \<Rightarrow> thread_node \<Rightarrow> bool" for children where
  subtree: "list_all2 (subtree children) (children m) ts \<Longrightarrow> subtree children m (Node m ts)"

inductive_cases subtreeE: "subtree children m t"

fun thread_nodes :: "thread_node \<Rightarrow> msg_id list" where
  "thread_nodes (Node m ts) = m # concat (map thread_nodes ts)"

lemma build_loop_subtree: "subtree children m t \<Longrightarrow> build_loop children (Enter m # stack) done = build_loop children stack (done @ [t])"
proof (induction arbitrary: stack "done" rule: subtree.induct)
  case (subtree m ts)
  have kids: "list_all2 (\<lambda>m t. \<forall>stack done. build_loop children (Enter m # stack) done = build_loop children stack (done @ [t])) ms us \<Longrightarrow>
      build_loop children (map Enter ms @ stack) done = build_loop children stack (done @ us)" for ms us stack "done"
    by (induction ms us arbitrary: "done" rule: list_all2_induct) simp_all
  have len: "length (children m) = length ts" using subtree.IH by (rule list_all2_lengthD)
  have "build_loop children (Enter m # stack) done = build_loop children (Exit m (length (children m)) # stack) (done @ ts)"
    using subtree.IH by (subst build_loop.simps, simp) (rule kids, auto elim: list.rel_mono_strong)
  also have "\<dots> = build_loop children stack (done @ [Node m ts])"
    by (subst build_loop.simps) (simp add: len)
  finally show ?case .
qed

lemma build_node_subtree: "subtree children m t \<Longrightarrow> build_node m children = Some t"
  by (simp add: build_node_def build_loop_subtree build_loop.simps [of children "[]"])

lemma subtree_exists:
  assumes "\<And>m x. x \<in> set (children m) \<Longrightarrow> rank m < rank x \<and> rank x < (n :: nat)"
  shows "\<exists>t. subtree children m t"
proof (induction "n - rank m" arbitrary: m rule: less_induct)
  case less
  have "\<exists>t. subtree children x t" if "x \<in> set (children m)" for x
    using assms [OF that] by (intro less) linarith
  then have "subtree children x (SOME t. subtree children x t)" if "x \<in> set (children m)" for x
    by (rule someI_ex) (rule that)
  then have "list_all2 (subtree children) (children m) (map (\<lambda>x. SOME t. subtree children x t) (children m))"
    by (simp add: list_all2_conv_all_nth)
  then show ?case by (blast intro: subtree.subtree)
qed

lemma subtree_nodes: "subtree children m t \<Longrightarrow> node_msg t = m \<and> list_all2 (subtree children) (children m) (node_children t)"
  by (auto elim: subtreeE)

text \<open>Every message whose parent is an older message of the thread is below exactly one root.\<close>

lemma forest_complete:
  fixes parent :: "msg_id \<Rightarrow> msg_id option"
  assumes dist: "distinct R" and par: "\<And>x p. x \<in> set R \<Longrightarrow> parent x = Some p \<Longrightarrow> p \<in> set R"
    and kids: "\<And>m. children m = filter (\<lambda>x. parent x = Some m) R"
    and sub: "\<And>m. subtree children m (t m)"
  shows "mset (concat (map (thread_nodes \<circ> t) (filter (\<lambda>x. parent x = None) R))) = mset R"
proof -
  define N where "N x = mset (thread_nodes (t x))" for x
  have unique: "subtree children x u \<Longrightarrow> u = t x" for x u
    using build_node_subtree sub by (metis option.inject)
  have forest: "mset (concat (map (thread_nodes \<circ> t) (filter q R))) = (\<Sum>x \<in> {x \<in> set R. q x}. N x)" for q
  proof -
    have "map mset (map (thread_nodes \<circ> t) xs) = map N xs" for xs by (simp add: N_def)
    then show ?thesis using sum_list_distinct_conv_sum_set [of "filter q R" N] dist by (simp only: mset_concat distinct_filter set_filter)
  qed
  have split: "N x = {#x#} + (\<Sum>y \<in> {y \<in> set R. parent y = Some x}. N y)" for x
  proof -
    obtain us where t: "t x = Node x us" and us: "list_all2 (subtree children) (children x) us"
      using sub [of x] by (auto elim: subtreeE)
    from us have "us = map t (children x)" by (induction rule: list_all2_induct) (auto dest: unique)
    then have "N x = {#x#} + mset (concat (map (thread_nodes \<circ> t) (filter (\<lambda>y. parent y = Some x) R)))"
      by (simp add: N_def t kids)
    then show ?thesis by (simp only: forest)
  qed
  have "(\<Sum>x \<in> set R. \<Sum>y \<in> {y \<in> set R. parent y = Some x}. N y) = (\<Sum>y \<in> {y \<in> set R. parent y \<noteq> None}. N y)"
  proof -
    have "(\<Sum>y \<in> (\<Union>x \<in> set R. {y \<in> set R. parent y = Some x}). N y) = (\<Sum>x \<in> set R. \<Sum>y \<in> {y \<in> set R. parent y = Some x}. N y)"
      by (rule sum.UNION_disjoint) auto
    moreover have "(\<Union>x \<in> set R. {y \<in> set R. parent y = Some x}) = {y \<in> set R. parent y \<noteq> None}" using par by auto
    ultimately show ?thesis by simp
  qed
  moreover have "(\<Sum>x \<in> set R. N x) = mset R + (\<Sum>x \<in> set R. \<Sum>y \<in> {y \<in> set R. parent y = Some x}. N y)"
  proof -
    have "(\<Sum>x \<in> set R. N x) = (\<Sum>x \<in> set R. {#x#} + (\<Sum>y \<in> {y \<in> set R. parent y = Some x}. N y))"
      by (rule sum.cong [OF refl split])
    then show ?thesis using dist by (simp only: sum.distrib sum_multiset_singleton mset_set_set)
  qed
  moreover have "(\<Sum>x \<in> set R. N x) = (\<Sum>x \<in> {x \<in> set R. parent x = None}. N x) + (\<Sum>x \<in> {x \<in> set R. parent x \<noteq> None}. N x)"
  proof -
    have "(\<Sum>x \<in> {x \<in> set R. parent x = None} \<union> {x \<in> set R. parent x \<noteq> None}. N x) =
        (\<Sum>x \<in> {x \<in> set R. parent x = None}. N x) + (\<Sum>x \<in> {x \<in> set R. parent x \<noteq> None}. N x)"
      by (rule sum.union_disjoint) auto
    moreover have "{x \<in> set R. parent x = None} \<union> {x \<in> set R. parent x \<noteq> None} = set R" by auto
    ultimately show ?thesis by (simp only:)
  qed
  ultimately show ?thesis by (simp add: forest)
qed

lemma order_of_less: "m \<in> m_id ` set rows \<Longrightarrow> order_of rows m < length rows"
  by (induction rows) auto

lemma by_mid_Some: "by_mid rows i = Some x \<Longrightarrow> x \<in> set rows \<and> hd_rfc724_mid (headers_of x) = i"
  by (auto simp: by_mid_def dest: find_Some_set split: if_splits)

lemma map_filter_Some: "y \<in> set (List.map_filter f xs) \<Longrightarrow> \<exists>x \<in> set xs. f x = Some y"
  by (force simp: List.map_filter_def)

lemma parent_of_Some:
  "parent_of rows r = Some p \<Longrightarrow> p \<in> m_id ` set rows \<and> order_of rows p < order_of rows (m_id r)"
  by (auto simp: parent_of_def Let_def dest!: find_Some_set map_filter_Some by_mid_Some)

lemma build_all_subtrees: "(\<And>m. m \<in> set ms \<Longrightarrow> subtree children m (t m)) \<Longrightarrow> build_all ms children = Some (map t ms)"
proof (induction ms)
  case (Cons a ms)
  then show ?case using build_node_subtree [of children a "t a"] by simp
qed simp

lemma build_rows_complete:
  assumes "distinct (map m_id rows)"
  shows "\<exists>ts. build_all (map m_id (filter (\<lambda>r. parent_of rows r = None) rows)) (children_of rows) = Some ts \<and>
    list_all2 (subtree (children_of rows)) (map m_id (filter (\<lambda>r. parent_of rows r = None) rows)) ts \<and>
    mset (concat (map thread_nodes ts)) = mset (map m_id rows)"
proof -
  define parent where "parent m = (case List.find (\<lambda>r. m_id r = m) rows of None \<Rightarrow> None | Some r \<Rightarrow> parent_of rows r)" for m
  have parent: "parent (m_id r) = parent_of rows r" if "r \<in> set rows" for r
    using find_unique [of m_id rows r] assms that by (simp add: parent_def unique_key_def)
  have row: "map m_id (filter (\<lambda>r. q (parent_of rows r)) rows) = filter (\<lambda>m. q (parent m)) (map m_id rows)" for q
    unfolding filter_map comp_def by (rule arg_cong [of _ _ "map m_id"], rule filter_cong) (simp_all add: parent)
  have kids: "children_of rows m = filter (\<lambda>x. parent x = Some m) (map m_id rows)" for m
    using row [of "\<lambda>p. p = Some m"] by (simp only: children_of_def)
  have par: "p \<in> set (map m_id rows) \<and> order_of rows p < order_of rows x" if "x \<in> set (map m_id rows)" "parent x = Some p" for x p
    using that parent parent_of_Some by auto
  define t where "t m = (SOME t. subtree (children_of rows) m t)" for m
  have "\<exists>t. subtree (children_of rows) m t" for m
    by (rule subtree_exists [where rank = "order_of rows" and n = "length rows"])
       (use par order_of_less in \<open>auto simp: kids\<close>)
  then have sub: "subtree (children_of rows) m (t m)" for m unfolding t_def by (rule someI_ex)
  let ?roots = "filter (\<lambda>m. parent m = None) (map m_id rows)"
  have "mset (concat (map (thread_nodes \<circ> t) ?roots)) = mset (map m_id rows)"
    by (rule forest_complete [OF assms _ kids sub]) (use par in blast)
  then show ?thesis
    by (intro exI [of _ "map t ?roots"]) (simp add: row [of "\<lambda>p. p = None"] build_all_subtrees sub list_all2_conv_all_nth)
qed

text \<open>C27: Building the reply tree of a thread always ends, however its references loop, and shows every
  message of the thread exactly once: the roots are the messages without a held older ancestor, and
  below every message hang exactly the replies to it, in the order of the thread.\<close>

theorem tree_complete:
  assumes "wf_msgs c"
  shows "\<exists>ts. tree c t = Some ts \<and>
    list_all2 (subtree (children_of (thread_rows c t))) (map m_id (filter (\<lambda>r. parent_of (thread_rows c t) r = None) (thread_rows c t))) ts \<and>
    mset (concat (map thread_nodes ts)) = mset (thread_messages c t)"
proof -
  have "distinct (map m_id (thread_rows c t))"
    using assms by (auto simp: thread_rows_def wf_msgs_def unique_key_def distinct_map intro: inj_on_subset)
  then show ?thesis unfolding tree_def Let_def thread_messages_def by (rule build_rows_complete)
qed

section \<open>The effect of assigning\<close>

definition thread_ids :: "ctx \<Rightarrow> nat set" where "thread_ids c = th_id ` set (tbl_threads c)"

definition threads_inv :: "ctx \<Rightarrow> bool" where
  "threads_inv c \<longleftrightarrow>
    unique_key th_id (tbl_threads c) \<and> unique_key fst (tbl_msg_threads c) \<and> unique_key fst (tbl_thread_refs c) \<and>
    snd ` set (tbl_msg_threads c) \<subseteq> thread_ids c \<and> snd ` set (tbl_thread_refs c) \<subseteq> thread_ids c \<and>
    (\<forall>t \<in> thread_ids c. t \<le> threads_seq c)"

lemma find_relabel:
  "map_option snd (List.find (\<lambda>r. fst r = i) (update_where (\<lambda>r. snd r = l) (\<lambda>r. (fst r, s)) t)) =
    map_option (\<lambda>x. if x = l then s else x) (map_option snd (List.find (\<lambda>r. fst r = i) t))"
  by (induction t) (auto simp: update_where_def)

lemma map_fst_relabel: "map fst (update_where (\<lambda>r. snd r = l) (\<lambda>r. (fst r, s)) t) = map fst t"
  by (induction t) (auto simp: update_where_def)

lemma map_th_id_absorb: "map th_id (update_where p (absorb_thread l) t) = map th_id t"
  by (induction t) (auto simp: update_where_def absorb_thread_def)

lemma thread_ids_find: "t \<in> thread_ids c \<longleftrightarrow> find_thread c t \<noteq> None"
  using find_None_key [of th_id t "tbl_threads c"] by (simp add: thread_ids_def find_thread_def)

lemma merge_thread_effect:
  assumes "threads_inv c" "survivor \<in> thread_ids c" "loser \<in> thread_ids c" "survivor \<noteq> loser"
  shows "\<exists>c'. merge_thread survivor loser c = (Ok (), c') \<and> threads_inv c' \<and>
    thread_ids c' = thread_ids c - {loser} \<and> threads_seq c' = threads_seq c \<and>
    (\<forall>i. thread_ref c' i = map_option (\<lambda>x. if x = loser then survivor else x) (thread_ref c i)) \<and>
    (\<forall>m. thread_of c' m = map_option (\<lambda>x. if x = loser then survivor else x) (thread_of c m))"
proof -
  let ?c' = "snd (merge_thread survivor loser c)"
  obtain l where ok: "find_thread c loser = Some l" using assms(3) by (auto simp: thread_ids_find)
  then have c': "?c' = c\<lparr>
       tbl_msg_threads := update_where (\<lambda>r. snd r = loser) (\<lambda>r. (fst r, survivor)) (tbl_msg_threads c),
       tbl_thread_refs := update_where (\<lambda>r. snd r = loser) (\<lambda>r. (fst r, survivor)) (tbl_thread_refs c),
       tbl_threads := delete_where (\<lambda>r. th_id r = loser)
         (update_where (\<lambda>r. th_id r = survivor) (absorb_thread (find_thread c loser)) (tbl_threads c))\<rparr>"
    by (simp add: merge_thread_def)
  have "th_id ` set (update_where (\<lambda>r. th_id r = survivor) (absorb_thread l) (tbl_threads c)) = thread_ids c" for l
    unfolding thread_ids_def using map_th_id_absorb by (metis set_map)
  moreover have "thread_ids ?c' = th_id ` set (update_where (\<lambda>r. th_id r = survivor) (absorb_thread (find_thread c loser)) (tbl_threads c)) - {loser}"
    unfolding thread_ids_def c' by (auto simp del: set_update_where)
  ultimately have ids: "thread_ids ?c' = thread_ids c - {loser}" by (simp only:)
  have "unique_key th_id (tbl_threads ?c')"
    using assms(1) by (auto simp: c' threads_inv_def unique_key_def map_th_id_absorb intro!: unique_key_delete [unfolded unique_key_def])
  moreover have "unique_key fst (tbl_msg_threads ?c')" "unique_key fst (tbl_thread_refs ?c')"
    using assms(1) by (simp_all add: c' threads_inv_def unique_key_def map_fst_relabel)
  moreover have "snd ` set (tbl_msg_threads ?c') \<subseteq> thread_ids ?c'" "snd ` set (tbl_thread_refs ?c') \<subseteq> thread_ids ?c'"
    using assms unfolding ids by (auto simp: c' threads_inv_def)
  ultimately have "threads_inv ?c'"
    using assms(1) unfolding threads_inv_def ids by (simp add: c')
  moreover have "thread_ref ?c' i = map_option (\<lambda>x. if x = loser then survivor else x) (thread_ref c i)"
      "thread_of ?c' m = map_option (\<lambda>x. if x = loser then survivor else x) (thread_of c m)" for i m
    by (simp_all add: thread_ref_def thread_of_def c' find_relabel)
  ultimately show ?thesis
    using ok ids by (intro exI [of _ ?c']) (simp add: c' merge_thread_def)
qed

lemma merge_all_effect:
  assumes "threads_inv c" "survivor \<in> thread_ids c" "set ls \<subseteq> thread_ids c" "distinct (survivor # ls)"
  shows "\<exists>c'. merge_all survivor ls c = (Ok (), c') \<and> threads_inv c' \<and>
    thread_ids c' = thread_ids c - set ls \<and> threads_seq c' = threads_seq c \<and>
    (\<forall>i. thread_ref c' i = map_option (\<lambda>x. if x \<in> set ls then survivor else x) (thread_ref c i)) \<and>
    (\<forall>m. thread_of c' m = map_option (\<lambda>x. if x \<in> set ls then survivor else x) (thread_of c m))"
  using assms
proof (induction ls arbitrary: c)
  case (Cons l ls)
  obtain c1 where c1: "merge_thread survivor l c = (Ok (), c1)" "threads_inv c1" "thread_ids c1 = thread_ids c - {l}"
      "threads_seq c1 = threads_seq c"
      "\<And>i. thread_ref c1 i = map_option (\<lambda>x. if x = l then survivor else x) (thread_ref c i)"
      "\<And>m. thread_of c1 m = map_option (\<lambda>x. if x = l then survivor else x) (thread_of c m)"
    using merge_thread_effect [of c survivor l] Cons.prems by auto
  have "survivor \<in> thread_ids c1" "set ls \<subseteq> thread_ids c1" "distinct (survivor # ls)"
    using Cons.prems c1(3) by auto
  from Cons.IH [OF c1(2) this] obtain c2 where c2: "merge_all survivor ls c1 = (Ok (), c2)" "threads_inv c2"
      "thread_ids c2 = thread_ids c1 - set ls" "threads_seq c2 = threads_seq c1"
      "\<And>i. thread_ref c2 i = map_option (\<lambda>x. if x \<in> set ls then survivor else x) (thread_ref c1 i)"
      "\<And>m. thread_of c2 m = map_option (\<lambda>x. if x \<in> set ls then survivor else x) (thread_of c1 m)"
    by blast
  have "(\<lambda>x. if x \<in> set ls then survivor else x) \<circ> (\<lambda>x. if x = l then survivor else x) = (\<lambda>x. if x \<in> set (l # ls) then survivor else x)"
    by auto
  then show ?case
    using c1(1,3,4) c2(1-4) by (intro exI [of _ c2]) (auto simp: c2(5,6) c1(5,6) option.map_comp)
qed (simp add: option.map_ident)

lemma find_fold_upsert_fst:
  "List.find (\<lambda>r. fst r = i) (fold (\<lambda>i. upsert fst (\<lambda>_. (i, t)) (i, t)) ids rows) =
    (if i \<in> set ids then Some (i, t) else List.find (\<lambda>r. fst r = i) rows)"
  by (induction ids arbitrary: rows) (auto simp: find_upsert split: option.splits)

lemma unique_fold_upsert_fst:
  "unique_key fst rows \<Longrightarrow> unique_key fst (fold (\<lambda>i. upsert fst (\<lambda>_. (i, t)) (i, t)) ids rows)"
  by (induction ids arbitrary: rows) (simp_all add: unique_key_upsert)

lemma snd_fold_upsert_fst:
  "snd ` set (fold (\<lambda>i. upsert fst (\<lambda>_. (i, t)) (i, t)) ids rows) \<subseteq> insert t (snd ` set rows)"
proof (induction ids arbitrary: rows)
  case (Cons i ids)
  have "snd ` set (upsert fst (\<lambda>_. (i, t)) (i, t) rows) \<subseteq> insert t (snd ` set rows)" by (auto simp: set_upsert)
  with Cons [of "upsert fst (\<lambda>_. (i, t)) (i, t) rows"] show ?case by auto
qed auto

lemma place_effect:
  assumes "threads_inv c" "t \<in> thread_ids c"
  shows "threads_inv (place m ids subj ts t c) \<and> thread_ids (place m ids subj ts t c) = thread_ids c \<and>
    threads_seq (place m ids subj ts t c) = threads_seq c \<and>
    thread_ref (place m ids subj ts t c) i = (if i \<in> set ids then Some t else thread_ref c i) \<and>
    thread_of (place m ids subj ts t c) x = (if x = m then Some t else thread_of c x)"
proof -
  let ?c' = "place m ids subj ts t c"
  have ids: "map th_id (tbl_threads ?c') = map th_id (tbl_threads c)" by (simp add: place_def update_where_def)
  then have tids: "thread_ids ?c' = thread_ids c" unfolding thread_ids_def by (metis set_map)
  have refs: "snd ` set (tbl_thread_refs ?c') \<subseteq> thread_ids c"
  proof -
    have "snd ` set (tbl_thread_refs ?c') \<subseteq> insert t (snd ` set (tbl_thread_refs c))"
      using snd_fold_upsert_fst [of t ids "tbl_thread_refs c"] by (simp add: place_def)
    then show ?thesis using assms unfolding threads_inv_def by blast
  qed
  have msgs: "snd ` set (tbl_msg_threads ?c') \<subseteq> thread_ids c"
    using assms by (auto simp: place_def threads_inv_def set_upsert split: if_splits)
  have "unique_key fst (tbl_thread_refs ?c')" "unique_key fst (tbl_msg_threads ?c')" "unique_key th_id (tbl_threads ?c')"
    using assms(1) ids unfolding threads_inv_def unique_key_def [of th_id]
    by (simp_all add: place_def unique_fold_upsert_fst unique_key_upsert)
  then have "threads_inv ?c'"
    using assms refs msgs unfolding threads_inv_def tids by (simp add: place_def)
  moreover have "thread_ref ?c' i = (if i \<in> set ids then Some t else thread_ref c i)"
    by (simp add: place_def thread_ref_def find_fold_upsert_fst)
  moreover have "thread_of ?c' x = (if x = m then Some t else thread_of c x)"
    by (simp add: place_def thread_of_def find_upsert split: option.split)
  moreover have "threads_seq ?c' = threads_seq c" by (simp add: place_def)
  ultimately show ?thesis using tids by blast
qed

lemma set_map_filter: "set (List.map_filter f xs) = {y. \<exists>x \<in> set xs. f x = Some y}"
  by (force simp: List.map_filter_def)

lemma existing_threads_set:
  "set (existing_threads c ids) = {t. \<exists>i \<in> set ids. thread_ref c i = Some t} \<and>
   sorted (existing_threads c ids) \<and> distinct (existing_threads c ids)"
  using dedup_by_keys [of id "List.map_filter (thread_ref c) ids"] distinct_dedup_by [of id "List.map_filter (thread_ref c) ids"]
  by (simp add: existing_threads_def set_map_filter)

lemma thread_ref_ids: "threads_inv c \<Longrightarrow> thread_ref c i = Some t \<Longrightarrow> t \<in> thread_ids c"
  by (auto simp: threads_inv_def thread_ref_def dest!: find_Some_set)

lemma thread_of_ids: "threads_inv c \<Longrightarrow> thread_of c m = Some t \<Longrightarrow> t \<in> thread_ids c"
  by (auto simp: threads_inv_def thread_of_def dest!: find_Some_set)

text \<open>The threads a message joins, the thread it is placed in, and what becomes of the others.\<close>

definition joined :: "ctx \<Rightarrow> string list \<Rightarrow> nat set" where
  "joined c ids = {t. \<exists>i \<in> set ids. thread_ref c i = Some t}"

definition target_thread :: "ctx \<Rightarrow> string list \<Rightarrow> nat" where
  "target_thread c ids = (if joined c ids = {} then Suc (threads_seq c) else Min (joined c ids))"

definition moved :: "ctx \<Rightarrow> string list \<Rightarrow> nat \<Rightarrow> nat" where
  "moved c ids t = (if t \<in> joined c ids then target_thread c ids else t)"

lemma finite_joined: "finite (joined c ids)"
  using existing_threads_set [of c ids] by (metis joined_def List.finite_set)

lemma assign_effect:
  assumes "threads_inv c"
    and ids_def: "ids = linked_ids h"
  shows "\<exists>c'. assign m h c = (Ok (target_thread c ids), c') \<and> threads_inv c' \<and>
    thread_ids c' = moved c ids ` thread_ids c \<union> {target_thread c ids} \<and>
    (\<forall>i. thread_ref c' i = (if i \<in> set ids then Some (target_thread c ids) else map_option (moved c ids) (thread_ref c i))) \<and>
    (\<forall>x. thread_of c' x = (if x = m then Some (target_thread c ids) else map_option (moved c ids) (thread_of c x))) \<and>
    (\<exists>c0. threads_inv c0 \<and> target_thread c ids \<in> thread_ids c0 \<and>
      c' = place m ids (remove_subject_prefix (hd_subject h)) (hd_timestamp h) (target_thread c ids) c0)"
proof (cases "existing_threads c ids")
  case Nil
  then have j: "joined c ids = {}" using existing_threads_set [of c ids] by (simp add: joined_def)
  then have t: "target_thread c ids = Suc (threads_seq c)" "moved c ids = (\<lambda>t. t)" by (auto simp: target_thread_def moved_def)
  define c1 where "c1 = c\<lparr>tbl_threads := tbl_threads c @ [\<lparr>th_id = Suc (threads_seq c), th_subject_norm = remove_subject_prefix (hd_subject h), th_last_activity = hd_timestamp h\<rparr>],
                       threads_seq := Suc (threads_seq c)\<rparr>"
  have ids1: "thread_ids c1 = insert (Suc (threads_seq c)) (thread_ids c)" by (auto simp: thread_ids_def c1_def)
  have "Suc (threads_seq c) \<notin> thread_ids c" using assms by (auto simp: threads_inv_def)
  then have inv1: "threads_inv c1" using assms ids1 unfolding threads_inv_def
    by (auto simp: c1_def unique_key_def thread_ids_def)
  have frame: "thread_ref c1 = thread_ref c" "thread_of c1 = thread_of c" by (auto simp: c1_def thread_ref_def thread_of_def)
  let ?c' = "place m ids (remove_subject_prefix (hd_subject h)) (hd_timestamp h) (Suc (threads_seq c)) c1"
  have "assign m h c = (Ok (Suc (threads_seq c)), ?c')"
    using Nil by (simp add: assign_def Let_def ids_def [symmetric] c1_def)
  then show ?thesis
    using place_effect [OF inv1, of "Suc (threads_seq c)" m ids] ids1 inv1 frame t
    by (intro exI [of _ ?c']) (auto simp: option.map_ident)
next
  case (Cons survivor losers)
  note ex = existing_threads_set [of c ids, unfolded Cons]
  have j: "joined c ids = set (survivor # losers)" unfolding joined_def by (rule ex [THEN conjunct1, symmetric])
  then have t: "target_thread c ids = survivor" using ex [THEN conjunct2] unfolding target_thread_def j by (auto intro!: Min_eqI)
  have moved: "moved c ids = (\<lambda>x. if x \<in> set losers then survivor else x)" by (auto simp: moved_def j t)
  have sub: "set (survivor # losers) \<subseteq> thread_ids c" using j thread_ref_ids [OF assms(1)] by (auto simp: joined_def)
  obtain c1 where c1: "merge_all survivor losers c = (Ok (), c1)" "threads_inv c1" "thread_ids c1 = thread_ids c - set losers"
      "\<And>i. thread_ref c1 i = map_option (moved c ids) (thread_ref c i)" "\<And>m. thread_of c1 m = map_option (moved c ids) (thread_of c m)"
    using merge_all_effect [OF assms(1), of survivor losers] sub ex unfolding moved by auto
  let ?c' = "place m ids (remove_subject_prefix (hd_subject h)) (hd_timestamp h) survivor c1"
  have in1: "survivor \<in> thread_ids c1" using c1(3) sub ex by auto
  have "assign m h c = (Ok survivor, ?c')" using Cons c1(1) by (simp add: assign_def Let_def ids_def [symmetric])
  moreover have "thread_ids c1 = moved c ids ` thread_ids c \<union> {survivor}" using c1(3) sub ex by (auto simp: moved)
  ultimately show ?thesis
    using place_effect [OF c1(2) in1, of m ids] c1(2,4,5) in1 t by (intro exI [of _ ?c']) auto
qed

section \<open>Threads are the classes of linked messages\<close>

fun assign_all :: "(msg_id \<times> thread_headers) list \<Rightarrow> ctx \<Rightarrow> ctx" where
  "assign_all [] c = c"
| "assign_all ((m, h) # mails) c = assign_all mails (snd (assign m h c))"

definition shares :: "(msg_id \<times> thread_headers) set \<Rightarrow> string \<Rightarrow> string \<Rightarrow> bool" where
  "shares S i j \<longleftrightarrow> (\<exists>m h. (m, h) \<in> S \<and> i \<in> set (linked_ids h) \<and> j \<in> set (linked_ids h))"

definition connected :: "(msg_id \<times> thread_headers) set \<Rightarrow> string \<Rightarrow> string \<Rightarrow> bool" where
  "connected S = (shares S)\<^sup>*\<^sup>*"

definition mentioned :: "(msg_id \<times> thread_headers) set \<Rightarrow> string \<Rightarrow> bool" where
  "mentioned S i \<longleftrightarrow> (\<exists>m h. (m, h) \<in> S \<and> i \<in> set (linked_ids h))"

lemma connected_refl [simp]: "connected S i i" by (simp add: connected_def)

lemma connected_trans: "connected S i j \<Longrightarrow> connected S j k \<Longrightarrow> connected S i k"
  unfolding connected_def by (rule rtranclp_trans)

lemma connected_sym: "connected S i j \<Longrightarrow> connected S j i"
proof -
  have "symp (shares S)" by (auto simp: symp_def shares_def)
  then show "connected S i j \<Longrightarrow> connected S j i" unfolding connected_def by (metis symp_rtranclp sympD)
qed

lemma connected_mono: "connected S i j \<Longrightarrow> S \<subseteq> T \<Longrightarrow> connected T i j"
  unfolding connected_def by (erule rtranclp_mono [THEN predicate2D, rotated]) (fastforce simp: shares_def)

lemma connected_mentioned: "connected S i j \<Longrightarrow> i = j \<or> mentioned S i \<and> mentioned S j"
  unfolding connected_def by (induction rule: rtranclp_induct) (auto simp: shares_def mentioned_def)

definition touches :: "(msg_id \<times> thread_headers) set \<Rightarrow> thread_headers \<Rightarrow> string \<Rightarrow> bool" where
  "touches S h i \<longleftrightarrow> (\<exists>k \<in> set (linked_ids h). connected S i k)"

lemma touches_connected: "touches S h j \<Longrightarrow> connected S i j \<Longrightarrow> touches S h i"
  by (auto simp: touches_def intro: connected_trans)

lemma connected_insert:
  "connected (insert (m, h) S) i j \<longleftrightarrow> connected S i j \<or> touches S h i \<and> touches S h j"
proof
  assume "connected (insert (m, h) S) i j"
  then show "connected S i j \<or> touches S h i \<and> touches S h j"
    unfolding connected_def [of "insert (m, h) S"]
  proof (induction rule: rtranclp_induct)
    case (step j k)
    from step(2) consider "shares S j k" | "touches S h j" "touches S h k"
      by (auto simp: shares_def touches_def intro: connected_refl)
    then show ?case
    proof cases
      case 1
      then have "connected S j k" by (simp add: connected_def)
      with step.IH show ?thesis by (meson connected_trans connected_sym touches_connected)
    next
      case 2
      with step.IH show ?thesis by (meson touches_connected)
    qed
  qed simp
next
  assume "connected S i j \<or> touches S h i \<and> touches S h j"
  then show "connected (insert (m, h) S) i j"
  proof
    assume "touches S h i \<and> touches S h j"
    then obtain k l where kl: "k \<in> set (linked_ids h)" "l \<in> set (linked_ids h)" "connected S i k" "connected S j l"
      by (auto simp: touches_def)
    then have "shares (insert (m, h) S) k l" by (auto simp: shares_def)
    then have "connected (insert (m, h) S) k l" unfolding connected_def by (rule r_into_rtranclp)
    with kl show ?thesis by (meson connected_mono connected_sym connected_trans subset_insertI)
  qed (meson connected_mono subset_insertI)
qed

definition grouped :: "(msg_id \<times> thread_headers) set \<Rightarrow> ctx \<Rightarrow> bool" where
  "grouped S c \<longleftrightarrow> threads_inv c \<and>
    (\<forall>i. thread_ref c i \<noteq> None \<longleftrightarrow> mentioned S i) \<and>
    (\<forall>i j. mentioned S i \<longrightarrow> mentioned S j \<longrightarrow> (thread_ref c i = thread_ref c j \<longleftrightarrow> connected S i j)) \<and>
    (\<forall>m h. (m, h) \<in> S \<longrightarrow> (\<forall>i \<in> set (linked_ids h). thread_of c m = thread_ref c i))"

lemma moved_target:
  assumes "threads_inv c" "a \<in> thread_ids c"
  shows "moved c ids a = target_thread c ids \<longleftrightarrow> a \<in> joined c ids"
  using assms Min_in [OF finite_joined, of c ids] by (auto simp: moved_def target_thread_def threads_inv_def split: if_splits)

lemma joined_touches:
  assumes "grouped S c" "thread_ref c i = Some a"
  shows "a \<in> joined c (linked_ids h) \<longleftrightarrow> touches S h i"
proof
  assume "a \<in> joined c (linked_ids h)"
  then obtain k where "k \<in> set (linked_ids h)" "thread_ref c k = Some a" by (auto simp: joined_def)
  with assms show "touches S h i" unfolding grouped_def touches_def by (metis option.distinct(1))
next
  assume "touches S h i"
  then obtain k where k: "k \<in> set (linked_ids h)" "connected S i k" by (auto simp: touches_def)
  have "mentioned S i" using assms by (metis grouped_def option.distinct(1))
  with connected_mentioned [OF k(2)] have "mentioned S k" by auto
  with k \<open>mentioned S i\<close> assms have "thread_ref c k = Some a" by (metis grouped_def)
  with k show "a \<in> joined c (linked_ids h)" by (auto simp: joined_def)
qed

lemma assign_grouped:
  assumes g: "grouped S c" and "linked_ids h \<noteq> []" "\<And>h'. (m, h') \<in> S \<Longrightarrow> h' = h"
  shows "grouped (insert (m, h) S) (snd (assign m h c))"
proof -
  define ids where "ids = linked_ids h"
  let ?t = "target_thread c ids" and ?S = "insert (m, h) S"
  have inv: "threads_inv c" and dom: "\<And>i. thread_ref c i \<noteq> None \<longleftrightarrow> mentioned S i"
    and ref: "\<And>i j. mentioned S i \<Longrightarrow> mentioned S j \<Longrightarrow> thread_ref c i = thread_ref c j \<longleftrightarrow> connected S i j"
    and msg: "\<And>m h i. (m, h) \<in> S \<Longrightarrow> i \<in> set (linked_ids h) \<Longrightarrow> thread_of c m = thread_ref c i"
    using g unfolding grouped_def by blast+
  obtain c' where c': "snd (assign m h c) = c'" "threads_inv c'"
      "\<And>i. thread_ref c' i = (if i \<in> set ids then Some ?t else map_option (moved c ids) (thread_ref c i))"
      "\<And>x. thread_of c' x = (if x = m then Some ?t else map_option (moved c ids) (thread_of c x))"
    using assign_effect [OF inv ids_def, of m] by auto
  have men: "mentioned ?S i \<longleftrightarrow> i \<in> set ids \<or> mentioned S i" for i by (auto simp: mentioned_def ids_def)
  have hit: "thread_ref c' i = Some ?t \<longleftrightarrow> touches S h i" if "mentioned ?S i" for i
  proof (cases "i \<in> set ids")
    case True
    then show ?thesis by (auto simp: c'(3) touches_def ids_def intro: connected_refl)
  next
    case False
    with that dom men obtain a where a: "thread_ref c i = Some a" by blast
    then show ?thesis
      using False joined_touches [OF g a, of h] moved_target [OF inv thread_ref_ids [OF inv a], of ids] by (simp add: c'(3) ids_def)
  qed
  have miss: "thread_ref c' i = thread_ref c i \<and> mentioned S i" if "mentioned ?S i" "\<not> touches S h i" for i
  proof -
    have "i \<notin> set ids" using that(2) by (auto simp: touches_def ids_def)
    with that(1) dom men obtain a where a: "thread_ref c i = Some a" "mentioned S i" by blast
    then show ?thesis using \<open>i \<notin> set ids\<close> that(2) joined_touches [OF g a(1), of h] by (simp add: c'(3) moved_def ids_def)
  qed
  have "thread_ref c' i = thread_ref c' j \<longleftrightarrow> connected ?S i j" if "mentioned ?S i" "mentioned ?S j" for i j
    using hit [OF that(1)] hit [OF that(2)] miss [OF that(1)] miss [OF that(2)] ref touches_connected connected_sym
    unfolding connected_insert by metis
  moreover have "thread_ref c' i \<noteq> None \<longleftrightarrow> mentioned ?S i" for i using dom men by (simp add: c'(3))
  moreover have "thread_of c' x = thread_ref c' i" if "(x, h') \<in> ?S" "i \<in> set (linked_ids h')" for x h' i
  proof (cases "x = m")
    case True
    then have "h' = h" using that(1) assms(3) by auto
    then show ?thesis using True that(2) by (simp add: c'(3,4) ids_def)
  next
    case False
    then have "(x, h') \<in> S" using that(1) by simp
    with that(2) dom obtain a where a: "thread_ref c i = Some a" "thread_of c x = Some a" by (metis msg mentioned_def not_None_eq)
    then have "i \<in> set ids \<Longrightarrow> a \<in> joined c ids" by (auto simp: joined_def)
    with a False show ?thesis by (simp add: c'(3,4) moved_def)
  qed
  ultimately show ?thesis using c'(2) unfolding c'(1) grouped_def by blast
qed

lemma assign_all_grouped:
  assumes "grouped S c" "\<forall>(m, h) \<in> set mails. linked_ids h \<noteq> []" "inj_on fst (S \<union> set mails)"
  shows "grouped (S \<union> set mails) (assign_all mails c)"
  using assms
proof (induction mails arbitrary: S c)
  case (Cons x mails)
  obtain m h where x: "x = (m, h)" by (cases x)
  have "h' = h" if "(m, h') \<in> S" for h'
    using inj_onD [OF Cons.prems(3), of "(m, h')" "(m, h)"] that by (simp add: x)
  then have "grouped (insert (m, h) S) (snd (assign m h c))"
    using assign_grouped [OF Cons.prems(1)] Cons.prems(2) by (simp add: x)
  from Cons.IH [OF this] Cons.prems(2,3) show ?case by (simp add: x)
qed simp

lemma grouped_empty: "tbl_threads c = [] \<Longrightarrow> tbl_msg_threads c = [] \<Longrightarrow> tbl_thread_refs c = [] \<Longrightarrow> grouped {} c"
  by (simp add: grouped_def threads_inv_def thread_ids_def thread_ref_def mentioned_def)

text \<open>C26: Two messages end up in the same thread exactly if a chain of messages leads from a Message-ID the
  one carries or references to one of the other, each message of the chain mentioning both ends of
  its link. Which messages are held decides this alone: the order in which they arrived does not
  matter, and every message is in a thread.\<close>

theorem threads_by_references:
  assumes "tbl_threads c = []" "tbl_msg_threads c = []" "tbl_thread_refs c = []"
    and "distinct (map fst mails)" "\<forall>(m, h) \<in> set mails. linked_ids h \<noteq> []"
    and "(m, h) \<in> set mails" "(m', h') \<in> set mails"
  shows "thread_of (assign_all mails c) m \<noteq> None \<and>
    (thread_of (assign_all mails c) m = thread_of (assign_all mails c) m' \<longleftrightarrow>
      (\<exists>i \<in> set (linked_ids h). \<exists>j \<in> set (linked_ids h'). connected (set mails) i j))"
proof -
  let ?c' = "assign_all mails c"
  have "grouped (set mails) ?c'"
    using assign_all_grouped [OF grouped_empty [OF assms(1-3)] assms(5)] assms(4) by (simp add: distinct_map)
  then have dom: "\<And>i. thread_ref ?c' i \<noteq> None \<longleftrightarrow> mentioned (set mails) i"
    and ref: "\<And>i j. mentioned (set mails) i \<Longrightarrow> mentioned (set mails) j \<Longrightarrow> thread_ref ?c' i = thread_ref ?c' j \<longleftrightarrow> connected (set mails) i j"
    and msg: "\<And>m h i. (m, h) \<in> set mails \<Longrightarrow> i \<in> set (linked_ids h) \<Longrightarrow> thread_of ?c' m = thread_ref ?c' i"
    unfolding grouped_def by blast+
  have eq: "thread_of ?c' m = thread_of ?c' m' \<longleftrightarrow> connected (set mails) i j"
    if "i \<in> set (linked_ids h)" "j \<in> set (linked_ids h')" for i j
  proof -
    have "mentioned (set mails) i" "mentioned (set mails) j" using that assms(6,7) by (auto simp: mentioned_def)
    then show ?thesis using ref [of i j] by (simp add: msg [OF assms(6) that(1)] msg [OF assms(7) that(2)])
  qed
  have "linked_ids h \<noteq> []" "linked_ids h' \<noteq> []" using assms(5-7) by auto
  then obtain i j where ij: "i \<in> set (linked_ids h)" "j \<in> set (linked_ids h')" by (meson list.set_sel(1))
  have "thread_of ?c' m \<noteq> None" using dom [of i] ij assms(6) by (auto simp: msg mentioned_def)
  then show ?thesis using eq ij by blast
qed

definition mail :: "string \<Rightarrow> string \<Rightarrow> thread_headers" where
  "mail mid refs = \<lparr>hd_rfc724_mid = mid, hd_in_reply_to = [], hd_references = refs, hd_subject = [], hd_timestamp = 0\<rparr>"

theorem threads_by_references_witness:
  "thread_of (assign_all [(10, mail ''a'' []), (11, mail ''c'' ''<b>''), (12, mail ''b'' ''<a>'')] fresh_db) 10 =
   thread_of (assign_all [(10, mail ''a'' []), (11, mail ''c'' ''<b>''), (12, mail ''b'' ''<a>'')] fresh_db) 11"
proof -
  let ?ms = "[(10, mail ''a'' []), (11, mail ''c'' ''<b>''), (12, mail ''b'' ''<a>'')]"
  have ids: "linked_ids (mail ''a'' []) = [''a'']" "linked_ids (mail ''c'' ''<b>'') = [''c'', ''b'']" "linked_ids (mail ''b'' ''<a>'') = [''b'', ''a'']"
    by code_simp+
  have "shares (set ?ms) ''a'' ''b''" unfolding shares_def by (rule exI [of _ 12], rule exI [of _ "mail ''b'' ''<a>''"]) (simp add: ids)
  then have "connected (set ?ms) ''a'' ''b''" unfolding connected_def by (rule r_into_rtranclp)
  then show ?thesis
    using threads_by_references [where c = fresh_db and mails = ?ms and m = 10 and h = "mail ''a'' []" and m' = 11 and h' = "mail ''c'' ''<b>''"]
    by (simp add: ids fresh_db_def)
qed

section \<open>Assigning again\<close>

lemma upsert_same:
  assumes "unique_key fst rows" "(i, t) \<in> set rows"
  shows "upsert fst (\<lambda>_. (i, t)) (i, t) rows = rows"
proof -
  have "(if fst x = i then (i, t) else x) = x" if "x \<in> set rows" for x
    using unique_key_inj [OF assms(1) that assms(2)] by auto
  then have "map (\<lambda>x. if fst x = i then (i, t) else x) rows = rows" by (simp add: map_idI)
  moreover have "list_ex (\<lambda>x. fst x = i) rows" using assms(2) by (force simp: list_ex_iff)
  ultimately show ?thesis by (simp add: upsert_def)
qed

lemma fold_upsert_same:
  "unique_key fst rows \<Longrightarrow> (\<And>i. i \<in> set ids \<Longrightarrow> (i, t) \<in> set rows) \<Longrightarrow> fold (\<lambda>i. upsert fst (\<lambda>_. (i, t)) (i, t)) ids rows = rows"
  by (induction ids) (simp_all add: upsert_same)

lemma place_again:
  assumes "threads_inv c" "t \<in> thread_ids c"
  shows "place m ids subj ts t (place m ids subj ts t c) = place m ids subj ts t c"
proof -
  let ?c' = "place m ids subj ts t c"
  have inv: "threads_inv ?c'" and ref: "\<And>i. i \<in> set ids \<Longrightarrow> thread_ref ?c' i = Some t" and msg: "thread_of ?c' m = Some t"
    using place_effect [OF assms] by simp_all
  have "(i, t) \<in> set (tbl_thread_refs ?c')" if "i \<in> set ids" for i
    using ref [OF that] by (auto simp: thread_ref_def dest!: find_Some_set)
  then have "fold (\<lambda>i. upsert fst (\<lambda>_. (i, t)) (i, t)) ids (tbl_thread_refs ?c') = tbl_thread_refs ?c'"
    using inv by (intro fold_upsert_same) (simp_all add: threads_inv_def)
  moreover have "(m, t) \<in> set (tbl_msg_threads ?c')" using msg by (auto simp: thread_of_def dest!: find_Some_set)
  then have "upsert fst (\<lambda>_. (m, t)) (m, t) (tbl_msg_threads ?c') = tbl_msg_threads ?c'"
    using inv by (intro upsert_same) (simp_all add: threads_inv_def)
  moreover have "update_where (\<lambda>r. th_id r = t) (\<lambda>r. r\<lparr>th_subject_norm := (if th_subject_norm r = [] then subj else th_subject_norm r),
       th_last_activity := max (th_last_activity r) ts\<rparr>) (tbl_threads ?c') = tbl_threads ?c'"
    by (simp add: place_def update_where_def comp_def)
  ultimately show ?thesis unfolding place_def [of m ids subj ts t ?c'] by simp
qed

lemma sorted_distinct_singleton: "set xs = {t} \<Longrightarrow> distinct xs \<Longrightarrow> xs = [t]"
  by (cases xs; cases "tl xs") auto

lemma assign_again_linked:
  assumes inv: "threads_inv c" and run: "assign m h c = (Ok t, c1)" and ids: "linked_ids h \<noteq> []"
  shows "assign m h c1 = (Ok t, c1)"
proof -
  obtain c0 where c0: "threads_inv c0" "t \<in> thread_ids c0"
      "c1 = place m (linked_ids h) (remove_subject_prefix (hd_subject h)) (hd_timestamp h) t c0"
    using assign_effect [OF inv refl, of m h] run by auto
  have "thread_ref c1 i = Some t" if "i \<in> set (linked_ids h)" for i
    unfolding c0(3) using place_effect [OF c0(1,2)] that by simp
  then have "{s. \<exists>i \<in> set (linked_ids h). thread_ref c1 i = Some s} = {t}" using ids by (auto simp: neq_Nil_conv)
  then have "existing_threads c1 (linked_ids h) = [t]"
    using existing_threads_set [of c1 "linked_ids h"] by (auto intro: sorted_distinct_singleton)
  moreover have "place m (linked_ids h) (remove_subject_prefix (hd_subject h)) (hd_timestamp h) t c1 = c1"
    unfolding c0(3) by (rule place_again [OF c0(1,2)])
  ultimately show ?thesis by (simp add: assign_def Let_def)
qed

lemma assign_unlinked:
  assumes "threads_inv c" "linked_ids h = []"
  shows "\<exists>c'. assign m h c = (Ok (Suc (threads_seq c)), c') \<and> threads_inv c' \<and> threads_seq c' = Suc (threads_seq c) \<and>
    thread_of c' m = Some (Suc (threads_seq c))"
proof -
  have "fst (assign m h c) = Ok (Suc (threads_seq c))" "threads_seq (snd (assign m h c)) = Suc (threads_seq c)"
    using assms(2) by (simp_all add: assign_def Let_def existing_threads_def List.map_filter_def place_def)
  moreover obtain c' where "assign m h c = (Ok (target_thread c (linked_ids h)), c')" "threads_inv c'"
      "thread_of c' m = Some (target_thread c (linked_ids h))"
    using assign_effect [OF assms(1) refl, of m h] by auto
  ultimately show ?thesis by simp
qed

text \<open>Assigning a message a second time changes nothing and gives the same thread, if it carries or
  references any Message-ID at all. A message without one is put into a new thread every time.\<close>

lemma assign_again:
  assumes "threads_inv c" "assign m h c = (Ok t, c1)"
  shows "if linked_ids h \<noteq> [] then assign m h c1 = (Ok t, c1)
    else \<exists>c2. assign m h c1 = (Ok (Suc t), c2) \<and> thread_of c1 m = Some t \<and> thread_of c2 m = Some (Suc t)"
proof (cases "linked_ids h = []")
  case True
  from assign_unlinked [OF assms(1) True, of m] assms(2)
  have c1: "threads_inv c1" "t = Suc (threads_seq c)" "threads_seq c1 = t" "thread_of c1 m = Some t" by auto
  from assign_unlinked [OF c1(1) True, of m] c1(3,4) True show ?thesis by auto
next
  case False
  then show ?thesis using assign_again_linked [OF assms False] by simp
qed

section \<open>Pruning\<close>

lemma threading_prune_tables:
  "tbl_msg_threads (threading_prune c) = filter (\<lambda>r. fst r \<in> set (live_ids c)) (tbl_msg_threads c)"
  "tbl_threads (threading_prune c) = filter (\<lambda>r. th_id r \<in> snd ` set (tbl_msg_threads (threading_prune c))) (tbl_threads c)"
  "tbl_thread_refs (threading_prune c) = filter (\<lambda>r. snd r \<in> thread_ids (threading_prune c)) (tbl_thread_refs c)"
  "threads_seq (threading_prune c) = threads_seq c"
  by (simp_all add: threading_prune_def Let_def delete_where_def thread_ids_def)

text \<open>Pruning keeps exactly the threads of the messages that are not in the trash, with every
  Message-ID they are known by, and leaves every message that stays in its thread. A later reply
  to a conversation whose messages are all gone starts a new thread with a new number.\<close>

lemma threading_prune_exact:
  assumes "threads_inv c"
  shows "threads_inv (threading_prune c) \<and>
    thread_of (threading_prune c) m = (if m \<in> set (live_ids c) then thread_of c m else None) \<and>
    thread_ids (threading_prune c) = {t. \<exists>m \<in> set (live_ids c). thread_of c m = Some t} \<and>
    thread_ref (threading_prune c) i =
      (case thread_ref c i of Some t \<Rightarrow> if \<exists>m \<in> set (live_ids c). thread_of c m = Some t then Some t else None | None \<Rightarrow> None)"
proof -
  let ?c' = "threading_prune c"
  have inv: "unique_key fst (tbl_msg_threads c)" "unique_key fst (tbl_thread_refs c)" "unique_key th_id (tbl_threads c)"
    using assms by (simp_all add: threads_inv_def)
  have of: "thread_of ?c' m = (if m \<in> set (live_ids c) then thread_of c m else None)" for m
    unfolding thread_of_def threading_prune_tables find_filter_unique [OF inv(1)]
    by (auto dest!: find_Some_set split: option.split)
  have mem: "(m, t) \<in> set (tbl_msg_threads c) \<longleftrightarrow> thread_of c m = Some t" for m t
    using assms find_unique [of fst "tbl_msg_threads c" "(m, t)"] by (auto simp: threads_inv_def thread_of_def dest!: find_Some_set)
  have ids: "thread_ids ?c' = {t. \<exists>m \<in> set (live_ids c). thread_of c m = Some t}"
    using thread_of_ids [OF assms] unfolding thread_ids_def threading_prune_tables
    by (auto simp: mem image_iff) (metis mem)+
  have ref: "thread_ref ?c' i = (case thread_ref c i of Some t \<Rightarrow> if t \<in> thread_ids ?c' then Some t else None | None \<Rightarrow> None)"
    unfolding thread_ref_def threading_prune_tables find_filter_unique [OF inv(2)] by (auto split: option.split)
  have "snd ` set (tbl_msg_threads ?c') \<subseteq> thread_ids ?c'" "snd ` set (tbl_thread_refs ?c') \<subseteq> thread_ids ?c'"
    unfolding ids threading_prune_tables(1) threading_prune_tables(3) using mem by auto
  moreover have "thread_ids ?c' \<subseteq> thread_ids c" unfolding thread_ids_def threading_prune_tables(2) by auto
  ultimately have "threads_inv ?c'"
    using inv assms unfolding threads_inv_def unique_key_def threading_prune_tables(4)
    by (auto simp: threading_prune_tables(1-3) distinct_map_filter)
  then show ?thesis using of [of m] ids ref by (simp only: mem_Collect_eq simp_thms)
qed

definition looping :: ctx where
  "looping = fresh_db\<lparr>
    tbl_msgs := [(default_msg 11)\<lparr>m_rfc724_mid := Some ''b'', m_references := Some ''<a>'', m_chat_id := 10, m_timestamp := 2\<rparr>,
                 (default_msg 10)\<lparr>m_rfc724_mid := Some ''a'', m_references := Some ''<b>'', m_chat_id := 10, m_timestamp := 1\<rparr>],
    tbl_msg_threads := [(10, 1), (11, 1)]\<rparr>"

theorem tree_complete_witness:
  "\<exists>ts. tree looping 1 = Some ts \<and> mset (concat (map thread_nodes ts)) = {#10, 11#}"
proof -
  have "wf_msgs looping" "thread_messages looping 1 = [10, 11]" by code_simp+
  with tree_complete [of looping 1] show ?thesis by auto
qed

end
