(* ===== verification/Blobcrypt.thy ===== *)
theory Blobcrypt
  imports Config Messages
begin

text \<open>
  \<open>email/blobcrypt.rs\<close>: encryption of the files of the blob directory, with \<open>email/vault.rs\<close>, which
  reports the protection in force. The cipher and the random generator are parameters. A file is a
  name and its bytes, one character a byte; errors of the file system other than a missing file are
  not modelled, nor is the sentence a user interface shows.
\<close>

section \<open>Hexadecimal\<close>

definition hex_digit :: "nat \<Rightarrow> char" where
  "hex_digit d = (if d < 10 then char_of (48 + d) else char_of (87 + d))"

definition hex_encode :: "bytes \<Rightarrow> string" where
  "hex_encode bs = concat (map (\<lambda>b. [hex_digit (of_char b div 16), hex_digit (of_char b mod 16)]) bs)"

definition hex_val :: "char \<Rightarrow> nat option" where
  "hex_val c =
    (let n = (of_char c :: nat) in
     if 48 \<le> n \<and> n \<le> 57 then Some (n - 48)
     else if 97 \<le> n \<and> n \<le> 102 then Some (n - 87)
     else if 65 \<le> n \<and> n \<le> 70 then Some (n - 55)
     else None)"

text \<open>\<open>u8::from_str_radix\<close> on two characters takes a plus sign.\<close>

definition hex_pair :: "char \<Rightarrow> char \<Rightarrow> char option" where
  "hex_pair a b =
    (if a = CHR ''+'' then map_option char_of (hex_val b)
     else case (hex_val a, hex_val b) of
       (Some x, Some y) \<Rightarrow> Some (char_of (16 * x + y))
     | _ \<Rightarrow> None)"

fun hex_decode :: "string \<Rightarrow> bytes result" where
  "hex_decode [] = Ok []"
| "hex_decode [_] = Err BadHex"
| "hex_decode (a # b # s) =
    (case hex_pair a b of
       None \<Rightarrow> Err BadHex
     | Some x \<Rightarrow> (case hex_decode s of Err e \<Rightarrow> Err e | Ok xs \<Rightarrow> Ok (x # xs)))"

section \<open>Sealed blobs\<close>

record aead =
  aead_encrypt :: "bytes \<Rightarrow> bytes \<Rightarrow> bytes \<Rightarrow> bytes option"
  aead_decrypt :: "bytes \<Rightarrow> bytes \<Rightarrow> bytes \<Rightarrow> bytes option"

record random =
  random_key :: bytes
  random_nonce :: "string \<Rightarrow> bytes"

text \<open>What is relied on of the cipher and the random generator: what was encrypted is decrypted by the
  same key and nonce, keys have 32 and nonces 24 bytes. The nonce may depend on the file.\<close>

definition aead_ok :: "aead \<Rightarrow> bool" where
  "aead_ok A \<longleftrightarrow> (\<forall>k n p x. aead_encrypt A k n p = Some x \<longrightarrow> aead_decrypt A k n x = Some p)"

definition random_ok :: "random \<Rightarrow> bool" where
  "random_ok R \<longleftrightarrow> length (random_key R) = 32 \<and> (\<forall>f. length (random_nonce R f) = 24)"

definition MAGIC :: bytes where "MAGIC = ''EEEBLOB1''"

definition HEADER_LEN :: nat where "HEADER_LEN = 32"

definition blobs_enabled :: "ctx \<Rightarrow> bool" where
  "blobs_enabled c = get_config_bool c Config_BlobEncryption"

definition key_of :: "ctx \<Rightarrow> bytes option result" where
  "key_of c =
    (case blob_key c of
       None \<Rightarrow> Ok None
     | Some hex \<Rightarrow>
         (case hex_decode hex of
            Err e \<Rightarrow> Err e
          | Ok b \<Rightarrow> if length b = 32 then Ok (Some b) else Err BadKeyLength))"

definition ensure_key :: "random \<Rightarrow> (ctx, bytes) eff" where
  "ensure_key R c =
    (case key_of c of
       Err e \<Rightarrow> (Err e, c)
     | Ok (Some k) \<Rightarrow> (Ok k, c)
     | Ok None \<Rightarrow> (Ok (random_key R), c\<lparr>blob_key := Some (hex_encode (random_key R))\<rparr>))"

definition is_encrypted :: "bytes \<Rightarrow> bool" where
  "is_encrypted d \<longleftrightarrow> length d \<ge> HEADER_LEN \<and> starts_with MAGIC d"

definition seal :: "aead \<Rightarrow> bytes \<Rightarrow> bytes \<Rightarrow> bytes \<Rightarrow> bytes result" where
  "seal A key nonce plaintext =
    (case aead_encrypt A key nonce plaintext of
       None \<Rightarrow> Err CannotEncrypt
     | Some x \<Rightarrow> Ok (MAGIC @ nonce @ x))"

definition open_blob :: "aead \<Rightarrow> bytes \<Rightarrow> bytes \<Rightarrow> bytes result" where
  "open_blob A key d =
    (if \<not> is_encrypted d then Err NotAnEncryptedBlob
     else case aead_decrypt A key (drop (length MAGIC) (take HEADER_LEN d)) (drop HEADER_LEN d) of
            None \<Rightarrow> Err CannotDecrypt
          | Some p \<Rightarrow> Ok p)"

section \<open>Files\<close>

definition file_of :: "ctx \<Rightarrow> string \<Rightarrow> bytes option" where
  "file_of c f = map_option snd (List.find (\<lambda>x. fst x = f) (blobdir c))"

definition write_file :: "string \<Rightarrow> bytes \<Rightarrow> ctx \<Rightarrow> ctx" where
  "write_file f d c = c\<lparr>blobdir := upsert fst (\<lambda>_. (f, d)) (f, d) (blobdir c)\<rparr>"

definition blob_read :: "aead \<Rightarrow> ctx \<Rightarrow> string \<Rightarrow> bytes result" where
  "blob_read A c f =
    (case file_of c f of
       None \<Rightarrow> Err (FileNotFound f)
     | Some d \<Rightarrow>
         if \<not> is_encrypted d then Ok d
         else case key_of c of
                Err e \<Rightarrow> Err e
              | Ok None \<Rightarrow> Err NoBlobKey
              | Ok (Some k) \<Rightarrow> open_blob A k d)"

text \<open>Rewriting a file: the temporary the code writes and renames is gone when it returns.\<close>

definition convert :: "string \<Rightarrow> (bytes \<Rightarrow> bytes option result) \<Rightarrow> (ctx, unit) eff" where
  "convert f g c =
    (case file_of c f of
       None \<Rightarrow> (Err (FileNotFound f), c)
     | Some d \<Rightarrow>
         (case g d of
            Err e \<Rightarrow> (Err e, c)
          | Ok None \<Rightarrow> (Ok (), c)
          | Ok (Some out) \<Rightarrow> (Ok (), write_file f out c)))"

fun result_map :: "('a \<Rightarrow> 'b) \<Rightarrow> 'a result \<Rightarrow> 'b result" where
  "result_map f (Ok x) = Ok (f x)"
| "result_map f (Err e) = Err e"

definition protect :: "aead \<Rightarrow> random \<Rightarrow> string \<Rightarrow> (ctx, unit) eff" where
  "protect A R f c =
    (if \<not> blobs_enabled c then (Ok (), c)
     else case ensure_key R c of
            (Err e, c1) \<Rightarrow> (Err e, c1)
          | (Ok k, c1) \<Rightarrow>
              convert f (\<lambda>d. if is_encrypted d then Ok None else result_map Some (seal A k (random_nonce R f) d)) c1)"

definition convert_one :: "aead \<Rightarrow> random \<Rightarrow> bytes \<Rightarrow> bool \<Rightarrow> string \<Rightarrow> bytes \<Rightarrow> bytes option result" where
  "convert_one A R key encrypt f d =
    (case (encrypt, is_encrypted d) of
       (True, False) \<Rightarrow> result_map Some (seal A key (random_nonce R f) d)
     | (False, True) \<Rightarrow> result_map Some (open_blob A key d)
     | _ \<Rightarrow> Ok None)"

fun migrate_files :: "aead \<Rightarrow> random \<Rightarrow> bytes \<Rightarrow> bool \<Rightarrow> string list \<Rightarrow> nat \<Rightarrow> ctx \<Rightarrow> nat \<times> ctx" where
  "migrate_files A R key encrypt [] converted c = (converted, c)"
| "migrate_files A R key encrypt (f # fs) converted c =
    (if contains ''.tmp-'' f then migrate_files A R key encrypt fs converted c
     else case convert f (convert_one A R key encrypt f) c of
            (Ok _, c1) \<Rightarrow> migrate_files A R key encrypt fs (Suc converted) c1
          | (Err _, c1) \<Rightarrow> migrate_files A R key encrypt fs converted c1)"

text \<open>The pass over the directory can be cut short; \<open>reach\<close> is how many entries it reaches.\<close>

definition migrate_upto :: "nat \<Rightarrow> aead \<Rightarrow> random \<Rightarrow> bool \<Rightarrow> (ctx, nat) eff" where
  "migrate_upto reach A R encrypt c =
    (case key_of c of
       Err e \<Rightarrow> (Err e, c)
     | Ok None \<Rightarrow> (Ok 0, c)
     | Ok (Some key) \<Rightarrow>
         (case migrate_files A R key encrypt (take reach (map fst (blobdir c))) 0 c of (n, c1) \<Rightarrow> (Ok n, c1)))"

definition migrate :: "aead \<Rightarrow> random \<Rightarrow> bool \<Rightarrow> (ctx, nat) eff" where
  "migrate A R encrypt c = migrate_upto (length (blobdir c)) A R encrypt c"

definition enable :: "aead \<Rightarrow> random \<Rightarrow> (ctx, nat) eff" where
  "enable A R c =
    (if db_passphrase c = [] then (Err NeedDbPassphrase, c)
     else bind_eff (ensure_key R) (\<lambda>_. bind_eff (set_config_bool Config_BlobEncryption True) (\<lambda>_. migrate A R True)) c)"

definition disable :: "aead \<Rightarrow> random \<Rightarrow> (ctx, nat) eff" where
  "disable A R =
    bind_eff (set_config_bool Config_BlobEncryption False) (\<lambda>_.
    bind_eff (migrate A R False) (\<lambda>n c. (Ok n, c\<lparr>blob_key := None\<rparr>)))"

definition cleartext_bytes :: "ctx \<Rightarrow> nat" where
  "cleartext_bytes c =
    fold (\<lambda>(f, d) total. if d = [] \<or> is_encrypted (take HEADER_LEN d) then total else min (2 ^ 64 - 1) (total + length d))
      (blobdir c) 0"

section \<open>Vault\<close>

record protection =
  pr_database_encrypted :: bool
  pr_blobs_encrypted :: bool
  pr_cleartext_bytes :: nat
  pr_partial :: bool

definition protection_of :: "ctx \<Rightarrow> protection" where
  "protection_of c =
    (let database_encrypted = (db_passphrase c \<noteq> []);
         n = cleartext_bytes c
     in \<lparr>pr_database_encrypted = database_encrypted, pr_blobs_encrypted = (blobs_enabled c \<and> n = 0),
         pr_cleartext_bytes = n, pr_partial = (database_encrypted \<and> n > 0)\<rparr>)"

text \<open>Rekeying in place and copying the database under a key are SQLCipher's: both leave the same
  content under the new passphrase.\<close>

definition set_passphrase :: "string \<Rightarrow> ctx \<Rightarrow> ctx" where
  "set_passphrase p c =
    (case (db_passphrase c \<noteq> [], p \<noteq> []) of
       (False, False) \<Rightarrow> c
     | _ \<Rightarrow> c\<lparr>db_passphrase := p\<rparr>)"

section \<open>Lemmas\<close>

lemma hex_val_digit: "d < 16 \<Longrightarrow> hex_val (hex_digit d) = Some d"
  by (auto simp: hex_val_def hex_digit_def Let_def)

lemma hex_digit_not_plus: "d < 16 \<Longrightarrow> hex_digit d \<noteq> CHR ''+''"
  using hex_val_digit [of d] by (auto simp: hex_val_def)

lemma hex_round_trip: "hex_decode (hex_encode b) = Ok b"
proof (induction b)
  case (Cons x b)
  have "hex_pair (hex_digit (of_char x div 16)) (hex_digit (of_char x mod 16)) = Some x"
    using hex_digit_not_plus [of "of_char x div 16"] hex_val_digit [of "of_char x div 16"] hex_val_digit [of "of_char x mod 16"]
    by (simp add: hex_pair_def less_mult_imp_div_less)
  with Cons show ?case by (simp add: hex_encode_def)
qed (simp add: hex_encode_def)

lemma starts_with_take: "starts_with p s \<longleftrightarrow> take (length p) s = p"
proof -
  have "starts_with p s \<longleftrightarrow> (\<exists>r. s = p @ r)" by (auto simp: starts_with_def strip_prefix_Some_iff)
  then show ?thesis by (metis append_eq_conv_conj append_take_drop_id)
qed

lemma length_MAGIC [simp]: "length MAGIC = 8"
  by (simp add: MAGIC_def)

lemma is_encrypted_take: "is_encrypted (take HEADER_LEN d) = is_encrypted d"
  by (auto simp: is_encrypted_def HEADER_LEN_def starts_with_take min_def)

lemma is_encrypted_sealed: "length n = 24 \<Longrightarrow> is_encrypted (MAGIC @ n @ x)"
  by (simp add: is_encrypted_def HEADER_LEN_def starts_with_take)

lemma open_sealed:
  "aead_ok A \<Longrightarrow> length n = 24 \<Longrightarrow> aead_encrypt A k n p = Some x \<Longrightarrow> open_blob A k (MAGIC @ n @ x) = Ok p"
  by (simp add: open_blob_def is_encrypted_sealed HEADER_LEN_def aead_ok_def)

lemma file_of_write: "file_of (write_file f d c) f' = (if f' = f then Some d else file_of c f')"
  by (simp add: file_of_def write_file_def find_upsert split: option.split)

lemma map_fst_write: "file_of c f \<noteq> None \<Longrightarrow> map fst (blobdir (write_file f d c)) = map fst (blobdir c)"
  by (auto simp: file_of_def find_None_set write_file_def upsert_def list_ex_iff comp_def)

lemma key_of_cong: "blob_key c' = blob_key c \<Longrightarrow> key_of c' = key_of c"
  by (simp add: key_of_def)

lemma write_file_frame [simp]:
  "blob_key (write_file f d c) = blob_key c" "db_passphrase (write_file f d c) = db_passphrase c"
  "key_of (write_file f d c) = key_of c" "blobs_enabled (write_file f d c) = blobs_enabled c"
  "clock (write_file f d c) = clock c" "tbl_raw_mime (write_file f d c) = tbl_raw_mime c"
  "tbl_msgs (write_file f d c) = tbl_msgs c" "tbl_config (write_file f d c) = tbl_config c" "env_var (write_file f d c) = env_var c"
  by (simp_all add: write_file_def key_of_def blobs_enabled_def get_config_bool_def get_config_def get_config_opt_def split: option.split)

text \<open>What a pass makes of one file.\<close>

definition converted :: "aead \<Rightarrow> random \<Rightarrow> bytes \<Rightarrow> bool \<Rightarrow> string \<Rightarrow> bytes \<Rightarrow> bytes" where
  "converted A R key encrypt f d = (case convert_one A R key encrypt f d of Ok (Some out) \<Rightarrow> out | _ \<Rightarrow> d)"

definition only_blobs :: "ctx \<Rightarrow> ctx \<Rightarrow> bool" where
  "only_blobs c c' \<longleftrightarrow> (\<exists>b. c' = c\<lparr>blobdir := b\<rparr> \<and> map fst b = map fst (blobdir c))"

lemma only_blobs_refl [simp]: "only_blobs c c"
  unfolding only_blobs_def by (rule exI [of _ "blobdir c"]) simp

lemma only_blobs_trans: "only_blobs c c1 \<Longrightarrow> only_blobs c1 c2 \<Longrightarrow> only_blobs c c2"
  by (auto simp: only_blobs_def)

lemma only_blobs_write: "file_of c f \<noteq> None \<Longrightarrow> only_blobs c (write_file f d c)"
  using map_fst_write [of c f d] unfolding only_blobs_def write_file_def by auto

lemma convert_effect:
  "only_blobs c (snd (convert f g c)) \<and>
   file_of (snd (convert f g c)) f' =
     (if f' = f then map_option (\<lambda>d. case g d of Ok (Some out) \<Rightarrow> out | _ \<Rightarrow> d) (file_of c f) else file_of c f')"
  by (simp add: convert_def only_blobs_write file_of_write split: option.split result.split)

definition is_temp :: "string \<Rightarrow> bool" where "is_temp f \<longleftrightarrow> contains ''.tmp-'' f"

lemma migrate_files_effect:
  "distinct fs \<Longrightarrow> only_blobs c (snd (migrate_files A R key e fs n c)) \<and>
    file_of (snd (migrate_files A R key e fs n c)) f =
      (if f \<in> set fs \<and> \<not> is_temp f then map_option (converted A R key e f) (file_of c f) else file_of c f)"
proof (induction fs arbitrary: n c)
  case (Cons g fs)
  show ?case
  proof (cases "is_temp g")
    case True
    then show ?thesis using Cons by (auto simp: is_temp_def)
  next
    case False
    let ?c1 = "snd (convert g (convert_one A R key e g) c)"
    have eff: "only_blobs c ?c1" "\<And>f. file_of ?c1 f = (if f = g then map_option (converted A R key e g) (file_of c g) else file_of c f)"
      using convert_effect [of c g "convert_one A R key e g"] unfolding converted_def [abs_def] by blast+
    obtain n' where "migrate_files A R key e (g # fs) n c = migrate_files A R key e fs n' ?c1"
      using False by (cases "convert g (convert_one A R key e g) c"; cases "fst (convert g (convert_one A R key e g) c)") (auto simp: is_temp_def)
    then show ?thesis
      using Cons False only_blobs_trans [OF eff(1)] by (auto simp: eff(2) is_temp_def)
  qed
qed simp

lemma migrate_upto_effect:
  assumes "unique_key fst (blobdir c)" "key_of c = Ok (Some key)"
  shows "\<exists>n c'. migrate_upto reach A R e c = (Ok n, c') \<and> only_blobs c c' \<and>
    (\<forall>f. file_of c' f = (if f \<in> set (take reach (map fst (blobdir c))) \<and> \<not> is_temp f
       then map_option (converted A R key e f) (file_of c f) else file_of c f))"
proof -
  have "distinct (take reach (map fst (blobdir c)))" using assms(1) by (simp add: unique_key_def)
  note eff = migrate_files_effect [OF this, of c A R key e 0]
  show ?thesis
  proof (intro exI conjI)
    show "migrate_upto reach A R e c = (Ok (fst (migrate_files A R key e (take reach (map fst (blobdir c))) 0 c)),
        snd (migrate_files A R key e (take reach (map fst (blobdir c))) 0 c))"
      by (simp add: migrate_upto_def assms(2) split: prod.split)
  qed (use eff in blast)+
qed

lemma file_of_None: "file_of c f = None \<longleftrightarrow> f \<notin> fst ` set (blobdir c)"
  by (simp add: file_of_def find_None_key)

lemma migrate_effect:
  assumes "unique_key fst (blobdir c)" "key_of c = Ok (Some key)"
  shows "\<exists>n c'. migrate A R e c = (Ok n, c') \<and> only_blobs c c' \<and>
    (\<forall>f. file_of c' f = (if is_temp f then file_of c f else map_option (converted A R key e f) (file_of c f)))"
proof -
  have "file_of c f = None" if "f \<notin> fst ` set (blobdir c)" for f using that by (simp add: file_of_None)
  moreover obtain n c' where "migrate A R e c = (Ok n, c')" "only_blobs c c'"
      "\<And>f. file_of c' f = (if f \<in> set (take (length (blobdir c)) (map fst (blobdir c))) \<and> \<not> is_temp f
       then map_option (converted A R key e f) (file_of c f) else file_of c f)"
    using migrate_upto_effect [OF assms, of "length (blobdir c)" A R e] unfolding migrate_def by blast
  ultimately show ?thesis by (intro exI [of _ n] exI [of _ c']) auto
qed

lemma only_blobs_frame:
  assumes "only_blobs c c'"
  shows "blob_key c' = blob_key c" "key_of c' = key_of c" "db_passphrase c' = db_passphrase c"
    "unique_key fst (blobdir c') = unique_key fst (blobdir c)" "tbl_config c' = tbl_config c" "env_var c' = env_var c"
  using assms by (auto simp: only_blobs_def key_of_def unique_key_def)

section \<open>Every blob stays readable\<close>

text \<open>\<open>P\<close> is what was stored: each file holds it, or the seal of it under the present key.\<close>

definition sealed :: "aead \<Rightarrow> bytes \<Rightarrow> bytes \<Rightarrow> bytes \<Rightarrow> bool" where
  "sealed A key p d \<longleftrightarrow> (\<exists>n x. length n = 24 \<and> aead_encrypt A key n p = Some x \<and> d = MAGIC @ n @ x)"

definition blobs_inv :: "aead \<Rightarrow> (string \<rightharpoonup> bytes) \<Rightarrow> ctx \<Rightarrow> bool" where
  "blobs_inv A P c \<longleftrightarrow> unique_key fst (blobdir c) \<and> (\<exists>ko. key_of c = Ok ko) \<and>
    (\<forall>f p. P f = Some p \<longrightarrow> \<not> is_encrypted p \<and>
      (\<exists>d. file_of c f = Some d \<and> (d = p \<or> (\<exists>k. key_of c = Ok (Some k) \<and> sealed A k p d))))"

lemma sealed_encrypted: "sealed A k p d \<Longrightarrow> is_encrypted d"
  by (auto simp: sealed_def is_encrypted_sealed)

lemma blobs_inv_file:
  "blobs_inv A P c \<Longrightarrow> P f = Some p \<Longrightarrow> file_of c f = Some d \<Longrightarrow>
    \<not> is_encrypted p \<and> (d = p \<or> (\<exists>k. key_of c = Ok (Some k) \<and> sealed A k p d))"
  unfolding blobs_inv_def by (metis option.inject)

lemma blobs_inv_read:
  assumes "aead_ok A" "blobs_inv A P c" "P f = Some p"
  shows "blob_read A c f = Ok p"
proof -
  obtain d where d: "file_of c f = Some d" "\<not> is_encrypted p" "d = p \<or> (\<exists>k. key_of c = Ok (Some k) \<and> sealed A k p d)"
    using assms(2,3) unfolding blobs_inv_def by blast
  from d(3) show ?thesis
  proof
    assume "\<exists>k. key_of c = Ok (Some k) \<and> sealed A k p d"
    then show ?thesis using d(1) open_sealed [OF assms(1)] by (auto simp: blob_read_def sealed_def is_encrypted_sealed)
  qed (use d in \<open>simp add: blob_read_def\<close>)
qed

lemma converted_sealed:
  assumes "aead_ok A" "random_ok R" "\<not> is_encrypted p"
  shows "d = p \<or> sealed A key p d \<Longrightarrow> converted A R key e f d = p \<or> sealed A key p (converted A R key e f d)"
    and "d = p \<or> sealed A key p d \<Longrightarrow> converted A R key False f d = p"
  using assms open_sealed [OF assms(1)]
  by (auto simp: converted_def convert_one_def seal_def sealed_def is_encrypted_sealed random_ok_def split: option.split bool.split)

lemma set_blob_config:
  "set_config_bool Config_BlobEncryption b c = (Ok (), c\<lparr>tbl_config := (tbl_config c)(Config_BlobEncryption := from_bool b)\<rparr>)"
  by (simp add: set_config_bool_def set_config_def set_config_ext_def check_config_def is_synced_def from_bool_def)

lemma blobs_inv_cong: "blobdir c' = blobdir c \<Longrightarrow> blob_key c' = blob_key c \<Longrightarrow> blobs_inv A P c' = blobs_inv A P c"
  using key_of_cong [of c' c] by (simp add: blobs_inv_def file_of_def)

lemma ensure_key_effect:
  assumes "blobs_inv A P c" "random_ok R"
  shows "\<exists>k ko. ensure_key R c = (Ok k, c\<lparr>blob_key := ko\<rparr>) \<and> key_of (c\<lparr>blob_key := ko\<rparr>) = Ok (Some k) \<and>
    blobs_inv A P (c\<lparr>blob_key := ko\<rparr>)"
proof -
  obtain ko where ko: "key_of c = Ok ko" using assms(1) by (auto simp: blobs_inv_def)
  show ?thesis
  proof (cases ko)
    case (Some k)
    then show ?thesis using assms(1) ko by (intro exI [of _ k] exI [of _ "blob_key c"]) (simp add: ensure_key_def)
  next
    case None
    let ?c' = "c\<lparr>blob_key := Some (hex_encode (random_key R))\<rparr>"
    have "key_of ?c' = Ok (Some (random_key R))" using assms(2) by (simp add: key_of_def hex_round_trip random_ok_def)
    moreover have "blobs_inv A P ?c'"
    proof -
      have "file_of ?c' = file_of c" by (rule ext) (simp add: file_of_def)
      then show ?thesis using assms(1) ko None calculation unfolding blobs_inv_def by fastforce
    qed
    ultimately show ?thesis using ko None by (auto simp: ensure_key_def)
  qed
qed

text \<open>A file map that changes each file to its plaintext or to a seal of it keeps the invariant.\<close>

lemma blobs_inv_only_blobs:
  assumes "blobs_inv A P c" "only_blobs c c'"
    and "\<And>f p d. P f = Some p \<Longrightarrow> file_of c f = Some d \<Longrightarrow>
      \<exists>d'. file_of c' f = Some d' \<and> (d' = p \<or> (\<exists>k. key_of c = Ok (Some k) \<and> sealed A k p d'))"
  shows "blobs_inv A P c'"
  using assms unfolding blobs_inv_def only_blobs_frame [OF assms(2)] by blast

lemma migrate_upto_inv:
  assumes "aead_ok A" "random_ok R" "blobs_inv A P c"
  shows "\<exists>n. fst (migrate_upto reach A R e c) = Ok n \<and> blobs_inv A P (snd (migrate_upto reach A R e c)) \<and>
    only_blobs c (snd (migrate_upto reach A R e c))"
proof -
  obtain ko where ko: "key_of c = Ok ko" using assms(3) by (auto simp: blobs_inv_def)
  show ?thesis
  proof (cases ko)
    case None
    then show ?thesis using ko assms(3) by (simp add: migrate_upto_def)
  next
    case (Some k)
    then obtain n c' where c': "migrate_upto reach A R e c = (Ok n, c')" "only_blobs c c'"
        "\<And>f. file_of c' f = (if f \<in> set (take reach (map fst (blobdir c))) \<and> \<not> is_temp f
           then map_option (converted A R k e f) (file_of c f) else file_of c f)"
      using migrate_upto_effect [of c k reach A R e] ko assms(3) by (auto simp: blobs_inv_def)
    have "blobs_inv A P c'"
    proof (rule blobs_inv_only_blobs [OF assms(3) c'(2)])
      fix f p d
      assume f: "P f = Some p" "file_of c f = Some d"
      then have "\<not> is_encrypted p" "d = p \<or> sealed A k p d" using blobs_inv_file [OF assms(3) f] ko Some by auto
      then show "\<exists>d'. file_of c' f = Some d' \<and> (d' = p \<or> (\<exists>k. key_of c = Ok (Some k) \<and> sealed A k p d'))"
        using converted_sealed(1) [OF assms(1,2), of p d k e f] f ko Some by (auto simp: c'(3))
    qed
    then show ?thesis using c'(1,2) by simp
  qed
qed

lemma protect_inv:
  assumes "aead_ok A" "random_ok R" "blobs_inv A P c"
  shows "blobs_inv A P (snd (protect A R f c))"
proof (cases "blobs_enabled c")
  case True
  obtain k ko where k: "ensure_key R c = (Ok k, c\<lparr>blob_key := ko\<rparr>)" "key_of (c\<lparr>blob_key := ko\<rparr>) = Ok (Some k)"
      "blobs_inv A P (c\<lparr>blob_key := ko\<rparr>)"
    using ensure_key_effect [OF assms(3,2)] by blast
  let ?c1 = "c\<lparr>blob_key := ko\<rparr>"
  have g: "(\<lambda>d. if is_encrypted d then Ok None else result_map Some (seal A k (random_nonce R f) d)) = convert_one A R k True f"
    by (auto simp: convert_one_def)
  have eff: "only_blobs ?c1 (snd (convert f (convert_one A R k True f) ?c1))"
      "\<And>f'. file_of (snd (convert f (convert_one A R k True f) ?c1)) f' = (if f' = f then map_option (converted A R k True f) (file_of ?c1 f) else file_of ?c1 f')"
    using convert_effect [of ?c1 f "convert_one A R k True f"] unfolding converted_def [abs_def] by blast+
  have "blobs_inv A P (snd (convert f (convert_one A R k True f) ?c1))"
  proof (rule blobs_inv_only_blobs [OF k(3) eff(1)])
    fix f' p d
    assume f': "P f' = Some p" "file_of ?c1 f' = Some d"
    then have "\<not> is_encrypted p" "d = p \<or> sealed A k p d" using blobs_inv_file [OF k(3) f'] k(2) by auto
    then show "\<exists>d'. file_of (snd (convert f (convert_one A R k True f) ?c1)) f' = Some d' \<and>
        (d' = p \<or> (\<exists>k. key_of ?c1 = Ok (Some k) \<and> sealed A k p d'))"
      using converted_sealed(1) [OF assms(1,2), of p d k True f] f' k(2) unfolding eff(2) by auto
  qed
  then show ?thesis using True by (simp add: protect_def k(1) g)
qed (use assms(3) in \<open>simp add: protect_def\<close>)

section \<open>Histories\<close>

text \<open>What can happen to the blob directory: a file is stored under a new or an old name, one is protected again, encryption
  is switched on or off, either of these is interrupted in the pass over the files, and the
  passphrase is changed. Each step draws its own random bytes.\<close>

inductive blob_step :: "aead \<Rightarrow> (string \<rightharpoonup> bytes) \<times> ctx \<Rightarrow> (string \<rightharpoonup> bytes) \<times> ctx \<Rightarrow> bool" for A where
  stored: "random_ok R \<Longrightarrow> \<not> is_encrypted p \<Longrightarrow> \<not> is_temp f \<Longrightarrow>
    blob_step A (P, c) (P(f \<mapsto> p), snd (protect A R f (write_file f p c)))"
| protected: "random_ok R \<Longrightarrow> blob_step A (P, c) (P, snd (protect A R f c))"
| enabled: "random_ok R \<Longrightarrow> blob_step A (P, c) (P, snd (enable A R c))"
| enabling: "random_ok R \<Longrightarrow> ensure_key R c = (Ok k, c1) \<Longrightarrow> set_config_bool Config_BlobEncryption True c1 = (Ok (), c2) \<Longrightarrow>
    blob_step A (P, c) (P, snd (migrate_upto reach A R True c2))"
| disabled: "random_ok R \<Longrightarrow> blob_step A (P, c) (P, snd (disable A R c))"
| disabling: "random_ok R \<Longrightarrow> set_config_bool Config_BlobEncryption False c = (Ok (), c1) \<Longrightarrow>
    blob_step A (P, c) (P, snd (migrate_upto reach A R False c1))"
| rekeyed: "blob_step A (P, c) (P, set_passphrase w c)"

inductive_cases blob_stepE: "blob_step A (P, c) (P', c')"

lemma stored_inv:
  assumes "blobs_inv A P c" "\<not> is_encrypted p"
  shows "blobs_inv A (P(f \<mapsto> p)) (write_file f p c)"
proof -
  have "unique_key fst (blobdir (write_file f p c))"
    using assms(1) by (auto simp: blobs_inv_def write_file_def intro!: unique_key_upsert)
  then show ?thesis using assms unfolding blobs_inv_def by (simp add: file_of_write)
qed

lemma disable_effect:
  assumes "aead_ok A" "random_ok R" "blobs_inv A P c"
  shows "\<exists>n c'. disable A R c = (Ok n, c') \<and> blob_key c' = None \<and> unique_key fst (blobdir c') \<and>
    (\<forall>f p d. P f = Some p \<longrightarrow> file_of c f = Some d \<longrightarrow> file_of c' f = Some (if is_temp f then d else p))"
proof -
  let ?c1 = "c\<lparr>tbl_config := (tbl_config c)(Config_BlobEncryption := from_bool False)\<rparr>"
  have frame: "blobs_inv A P ?c1" "\<And>f. file_of ?c1 f = file_of c f" "key_of ?c1 = key_of c"
    using assms(3) blobs_inv_cong [of ?c1 c] by (simp_all add: file_of_def key_of_def)
  obtain ko where ko: "key_of c = Ok ko" using assms(3) by (auto simp: blobs_inv_def)
  have "\<exists>n c2. migrate A R False ?c1 = (Ok n, c2) \<and> unique_key fst (blobdir c2) \<and>
    (\<forall>f p d. P f = Some p \<longrightarrow> file_of c f = Some d \<longrightarrow> file_of c2 f = Some (if is_temp f then d else p))"
  proof (cases ko)
    case None
    then have "P f = Some p \<Longrightarrow> file_of c f = Some d \<Longrightarrow> d = p" for f p d using blobs_inv_file [OF assms(3)] ko by fastforce
    then show ?thesis using ko None frame by (auto simp: migrate_def migrate_upto_def blobs_inv_def)
  next
    case (Some k)
    obtain n c2 where c2: "migrate A R False ?c1 = (Ok n, c2)" "only_blobs ?c1 c2"
        "\<And>f. file_of c2 f = (if is_temp f then file_of c f else map_option (converted A R k False f) (file_of c f))"
      using migrate_effect [of ?c1 k A R False] frame ko Some unfolding blobs_inv_def by auto
    have "converted A R k False f d = p" if "P f = Some p" "file_of c f = Some d" for f p d
      using blobs_inv_file [OF assms(3) that] converted_sealed(2) [OF assms(1,2), of p d k f] ko Some by auto
    then show ?thesis
      using c2 only_blobs_frame(4) [OF c2(2)] frame(1) unfolding blobs_inv_def by (intro exI [of _ n] exI [of _ c2]) simp
  qed
  then obtain n c2 where c2: "migrate A R False ?c1 = (Ok n, c2)" "unique_key fst (blobdir c2)"
    "\<forall>f p d. P f = Some p \<longrightarrow> file_of c f = Some d \<longrightarrow> file_of c2 f = Some (if is_temp f then d else p)" by blast
  have "disable A R c = (Ok n, c2\<lparr>blob_key := None\<rparr>)" by (simp add: disable_def set_blob_config bind_eff_def c2(1))
  then show ?thesis using c2(2,3) by (simp add: file_of_def)
qed

lemma enable_inv:
  assumes "aead_ok A" "random_ok R" "blobs_inv A P c"
  shows "blobs_inv A P (snd (enable A R c))"
proof -
  obtain k ko where k: "ensure_key R c = (Ok k, c\<lparr>blob_key := ko\<rparr>)" "blobs_inv A P (c\<lparr>blob_key := ko\<rparr>)"
    using ensure_key_effect [OF assms(3,2)] by blast
  let ?c2 = "c\<lparr>blob_key := ko, tbl_config := (tbl_config c)(Config_BlobEncryption := from_bool True)\<rparr>"
  have inv: "blobs_inv A P ?c2" using k(2) by (simp add: blobs_inv_cong [of ?c2 "c\<lparr>blob_key := ko\<rparr>"])
  have "snd (enable A R c) = c \<or> snd (enable A R c) = snd (migrate A R True ?c2)"
    by (simp add: enable_def bind_eff_def k(1) set_blob_config)
  then show ?thesis using migrate_upto_inv [OF assms(1,2) inv] assms(3) unfolding migrate_def by auto
qed

lemma enabling_inv:
  assumes "aead_ok A" "random_ok R" "blobs_inv A P c" "ensure_key R c = (Ok k, c1)"
    and "set_config_bool Config_BlobEncryption True c1 = (Ok (), c2)"
  shows "blobs_inv A P (snd (migrate_upto reach A R True c2))"
proof -
  have "blobs_inv A P c1" using ensure_key_effect [OF assms(3,2)] assms(4) by auto
  moreover have "blobs_inv A P c2 = blobs_inv A P c1" using assms(5) by (intro blobs_inv_cong) (auto simp: set_blob_config)
  ultimately show ?thesis using migrate_upto_inv [OF assms(1,2)] by blast
qed

lemma disable_inv:
  assumes "aead_ok A" "random_ok R" "blobs_inv A P c" "\<forall>f \<in> dom P. \<not> is_temp f"
  shows "blobs_inv A P (snd (disable A R c))"
proof -
  obtain n c2 where c2: "disable A R c = (Ok n, c2)" "blob_key c2 = None" "unique_key fst (blobdir c2)"
      "\<And>f p d. P f = Some p \<Longrightarrow> file_of c f = Some d \<Longrightarrow> file_of c2 f = Some (if is_temp f then d else p)"
    using disable_effect [OF assms(1-3)] by blast
  have "\<not> is_encrypted p \<and> file_of c2 f = Some p" if f: "P f = Some p" for f p
  proof -
    obtain d where "file_of c f = Some d" "\<not> is_encrypted p" using assms(3) f unfolding blobs_inv_def by blast
    moreover have "\<not> is_temp f" using assms(4) f by auto
    ultimately show ?thesis using c2(4) [OF f] by simp
  qed
  then show ?thesis using c2 by (simp add: blobs_inv_def key_of_def)
qed

lemma disabling_inv:
  assumes "aead_ok A" "random_ok R" "blobs_inv A P c" "set_config_bool Config_BlobEncryption False c = (Ok (), c1)"
  shows "blobs_inv A P (snd (migrate_upto reach A R False c1))"
proof -
  have "blobs_inv A P c1 = blobs_inv A P c" using assms(4) by (intro blobs_inv_cong) (auto simp: set_blob_config)
  then show ?thesis using migrate_upto_inv [OF assms(1,2)] assms(3) by blast
qed

lemma set_passphrase_inv: "blobs_inv A P (set_passphrase w c) = blobs_inv A P c"
  by (rule blobs_inv_cong) (auto simp: set_passphrase_def split: bool.split)

lemma blob_step_inv:
  assumes A: "aead_ok A" and "blob_step A (P, c) (P', c')" and inv: "blobs_inv A P c" and dom: "\<forall>f \<in> dom P. \<not> is_temp f"
  shows "blobs_inv A P' c' \<and> (\<forall>f \<in> dom P'. \<not> is_temp f)"
  using assms(2)
proof (elim blob_stepE)
  fix R p f
  assume "random_ok R" "\<not> is_encrypted p" "\<not> is_temp f" "P' = P(f \<mapsto> p)" "c' = snd (protect A R f (write_file f p c))"
  then show ?thesis using protect_inv [OF A _ stored_inv [OF inv]] dom by auto
next
  fix R k c1 c2 reach
  assume "random_ok R" "ensure_key R c = (Ok k, c1)" "set_config_bool Config_BlobEncryption True c1 = (Ok (), c2)"
    "P' = P" "c' = snd (migrate_upto reach A R True c2)"
  then show ?thesis using enabling_inv [OF A _ inv] dom by blast
next
  fix R c1 reach
  assume "random_ok R" "set_config_bool Config_BlobEncryption False c = (Ok (), c1)" "P' = P" "c' = snd (migrate_upto reach A R False c1)"
  then show ?thesis using disabling_inv [OF A _ inv] dom by blast
qed (use dom inv protect_inv [OF A _ inv] enable_inv [OF A _ inv] disable_inv [OF A _ inv dom] in \<open>auto simp: set_passphrase_inv\<close>)

lemma blob_steps_inv:
  assumes "aead_ok A" "(blob_step A)\<^sup>*\<^sup>* (Map.empty, c0) (P, c)" "blobdir c0 = []" "blob_key c0 = None"
  shows "blobs_inv A P c"
proof -
  have "blobs_inv A P c \<and> (\<forall>f \<in> dom P. \<not> is_temp f)"
    using assms(2)
  proof (induction rule: rtranclp_induct2)
    case refl
    then show ?case using assms(3,4) by (simp add: blobs_inv_def key_of_def)
  next
    case (step P c P' c')
    then show ?case using blob_step_inv [OF assms(1) step(2)] by blast
  qed
  then show ?thesis by blast
qed

text \<open>C28: Reading a blob gives the bytes that were stored, after any history of storing, of switching the
  encryption on and off and of changing the passphrase, also where a pass over the files was
  interrupted half-way, provided the bytes do not begin like an encrypted blob and the name is not one of a temporary file.\<close>

theorem blobs_stay_readable:
  assumes "aead_ok A" "blobdir c0 = []" "blob_key c0 = None"
    and "(blob_step A)\<^sup>*\<^sup>* (Map.empty, c0) (P, c)" "P f = Some p"
  shows "blob_read A c f = Ok p"
  using blobs_inv_read [OF assms(1) blob_steps_inv [OF assms(1,4,2,3)] assms(5)] .

text \<open>C29: Switching the encryption off removes the key and leaves every blob readable without it, except an
  encrypted one whose name looks like that of a temporary file: the pass leaves it out, and the key
  it is encrypted under is gone.\<close>

theorem disable_exact:
  assumes "aead_ok A" "random_ok R" "blobs_inv A P c" "P f = Some p"
  shows "blob_key (snd (disable A R c)) = None \<and>
    blob_read A (snd (disable A R c)) f = (if is_temp f \<and> file_of c f \<noteq> Some p then Err NoBlobKey else Ok p)"
proof -
  obtain n c' where c': "disable A R c = (Ok n, c')" "blob_key c' = None"
      "\<And>f p d. P f = Some p \<Longrightarrow> file_of c f = Some d \<Longrightarrow> file_of c' f = Some (if is_temp f then d else p)"
    using disable_effect [OF assms(1-3)] by blast
  obtain d where d: "file_of c f = Some d" "\<not> is_encrypted p" "d = p \<or> (\<exists>k. key_of c = Ok (Some k) \<and> sealed A k p d)"
    using assms(3,4) unfolding blobs_inv_def by blast
  then have "is_encrypted d \<longleftrightarrow> d \<noteq> p" using sealed_encrypted by auto
  then show ?thesis using c'(1,2) c'(3) [OF assms(4) d(1)] d(1,2) by (auto simp: blob_read_def key_of_def)
qed

section \<open>What is reported\<close>

definition cleartext_size :: "string \<times> bytes \<Rightarrow> nat" where
  "cleartext_size x = (if is_encrypted (snd x) then 0 else length (snd x))"

lemma cleartext_bytes_sum: "cleartext_bytes c = min (2 ^ 64 - 1) (sum_list (map cleartext_size (blobdir c)))"
proof -
  define cap :: nat where "cap = 2 ^ 64 - 1"
  have "fold (\<lambda>(f, d) total. if d = [] \<or> is_encrypted (take HEADER_LEN d) then total else min cap (total + length d)) xs t =
      min cap (t + sum_list (map cleartext_size xs))" if "t \<le> cap" for xs t
    using that
  proof (induction xs arbitrary: t)
    case (Cons x xs)
    obtain f d where x: "x = (f, d)" by (cases x)
    show ?case
    proof (cases "d = [] \<or> is_encrypted d")
      case True
      then have "cleartext_size x = 0" by (auto simp: cleartext_size_def x)
      with Cons True show ?thesis by (auto simp: x is_encrypted_take)
    next
      case False
      then have "cleartext_size x = length d" by (simp add: cleartext_size_def x)
      with Cons.IH [of "min cap (t + length d)"] False show ?thesis by (auto simp: x is_encrypted_take)
    qed
  qed simp
  from this [of 0 "blobdir c"] show ?thesis unfolding cleartext_bytes_def cap_def [symmetric] by simp
qed

lemma cleartext_bytes_zero: "cleartext_bytes c = 0 \<longleftrightarrow> (\<forall>(f, d) \<in> set (blobdir c). d = [] \<or> is_encrypted d)"
proof -
  have "min (2 ^ 64 - 1) s = 0 \<longleftrightarrow> s = 0" for s :: nat by (auto simp: min_def)
  then have "cleartext_bytes c = 0 \<longleftrightarrow> (\<forall>x \<in> set (blobdir c). cleartext_size x = 0)" by (simp add: cleartext_bytes_sum)
  then show ?thesis by (simp add: cleartext_size_def case_prod_beta) blast
qed

lemma migrate_files_count:
  assumes "\<And>k n p. aead_encrypt A k n p \<noteq> None"
  shows "distinct fs \<Longrightarrow> \<forall>f \<in> set fs. \<not> is_temp f \<and> file_of c f \<noteq> None \<Longrightarrow> fst (migrate_files A R key True fs n c) = n + length fs"
proof (induction fs arbitrary: n c)
  case (Cons g fs)
  have "fst (convert g (convert_one A R key True g) c) = Ok ()"
  proof -
    obtain d where d: "file_of c g = Some d" using Cons.prems(2) by auto
    obtain x where "aead_encrypt A key (random_nonce R g) d = Some x" using assms by (meson not_None_eq)
    then show ?thesis by (simp add: convert_def convert_one_def seal_def d split: bool.split)
  qed
  then obtain c1 where c1: "convert g (convert_one A R key True g) c = (Ok (), c1)" by (cases "convert g (convert_one A R key True g) c") auto
  have "file_of c1 f \<noteq> None" if "f \<in> set fs" for f
    using convert_effect [of c g "convert_one A R key True g" f] Cons.prems that c1 by auto
  then show ?case using Cons by (simp add: is_temp_def c1)
qed simp

lemma converted_encrypted:
  assumes "aead_encrypt A k (random_nonce R f) d \<noteq> None" "random_ok R"
  shows "is_encrypted (converted A R k True f d)"
  using assms by (auto simp: converted_def convert_one_def seal_def is_encrypted_sealed random_ok_def split: bool.split option.split)

text \<open>C31: What is reported of the protection at rest is true: the blobs are said to be encrypted exactly if
  the setting is on and every file that is not empty carries the header, the protection is called
  partial exactly if the database is encrypted and a file is not, and the number of bytes in the
  clear is their total, capped at the largest 64-bit number.\<close>

theorem protection_truthful:
  "(pr_blobs_encrypted (protection_of c) \<longleftrightarrow> blobs_enabled c \<and> (\<forall>(f, d) \<in> set (blobdir c). d = [] \<or> is_encrypted d)) \<and>
   (pr_partial (protection_of c) \<longleftrightarrow> db_passphrase c \<noteq> [] \<and> (\<exists>(f, d) \<in> set (blobdir c). d \<noteq> [] \<and> \<not> is_encrypted d)) \<and>
   pr_cleartext_bytes (protection_of c) = min (2 ^ 64 - 1) (sum_list (map cleartext_size (blobdir c)))"
  using cleartext_bytes_zero [of c] cleartext_bytes_sum [of c] by (auto simp: protection_of_def Let_def)

theorem protection_truthful_witness:
  "pr_partial (protection_of (fresh_db\<lparr>db_passphrase := ''s'', blobdir := [(''a.jpg'', ''xyz'')]\<rparr>))"
  using protection_truthful [of "fresh_db\<lparr>db_passphrase := ''s'', blobdir := [(''a.jpg'', ''xyz'')]\<rparr>"]
  by (simp add: is_encrypted_def HEADER_LEN_def)

lemma parse_one: "parse_i32 ''1'' = Some 1"
  by code_simp

text \<open>C30: Switching the encryption on, on an encrypted database with a cipher that accepts every file and
  without temporary files, leaves nothing in the clear, and the report says so. The number that is
  returned is that of all files, also of those that were encrypted before.\<close>

theorem enable_protects:
  assumes "random_ok R" "\<And>k n p. aead_encrypt A k n p \<noteq> None" "db_passphrase c \<noteq> []"
    and "unique_key fst (blobdir c)" "key_of c = Ok ko" "\<forall>(f, d) \<in> set (blobdir c). \<not> is_temp f"
    and "env_var c Config_BlobEncryption = None"
  shows "fst (enable A R c) = Ok (length (blobdir c)) \<and>
    protection_of (snd (enable A R c)) =
      \<lparr>pr_database_encrypted = True, pr_blobs_encrypted = True, pr_cleartext_bytes = 0, pr_partial = False\<rparr>"
proof -
  obtain k kk where k: "ensure_key R c = (Ok k, c\<lparr>blob_key := kk\<rparr>)" "key_of (c\<lparr>blob_key := kk\<rparr>) = Ok (Some k)"
    using ensure_key_effect [of A Map.empty c R] assms(1,4,5) by (auto simp: blobs_inv_def)
  define c2 where "c2 = c\<lparr>blob_key := kk, tbl_config := (tbl_config c)(Config_BlobEncryption := from_bool True)\<rparr>"
  have run: "enable A R c = migrate A R True c2" using assms(3) by (simp add: enable_def bind_eff_def k(1) set_blob_config c2_def)
  have c2: "unique_key fst (blobdir c2)" "key_of c2 = Ok (Some k)" "db_passphrase c2 \<noteq> []" "blobs_enabled c2"
    using assms(3,4,7) k(2)
    by (simp_all add: c2_def key_of_def blobs_enabled_def get_config_bool_def get_config_def get_config_opt_def from_bool_def parse_one)
  obtain n c' where c': "migrate A R True c2 = (Ok n, c')" "only_blobs c2 c'"
      "\<And>f. file_of c' f = (if is_temp f then file_of c2 f else map_option (converted A R k True f) (file_of c2 f))"
    using migrate_effect [OF c2(1,2), of A R True] by blast
  have nt: "\<not> is_temp f" if "f \<in> fst ` set (blobdir c)" for f using assms(6) that by auto
  have n: "n = length (blobdir c)"
  proof -
    have dir: "blobdir c2 = blobdir c" by (simp add: c2_def)
    have "fst (migrate_files A R k True (map fst (blobdir c2)) 0 c2) = 0 + length (map fst (blobdir c2))"
      by (rule migrate_files_count [OF assms(2)]) (use c2(1) nt in \<open>auto simp: unique_key_def file_of_None dir\<close>)
    moreover have "fst (migrate A R True c2) = Ok (fst (migrate_files A R k True (map fst (blobdir c2)) 0 c2))"
      by (simp add: migrate_def migrate_upto_def c2(2) split: prod.split)
    ultimately show ?thesis using c'(1) dir by simp
  qed
  have "is_encrypted d" if fd: "(f, d) \<in> set (blobdir c')" for f d
  proof -
    have "file_of c' f = Some d"
      using find_unique [of fst "blobdir c'" "(f, d)"] only_blobs_frame(4) [OF c'(2)] c2(1) fd by (simp add: file_of_def)
    moreover have dir: "map fst (blobdir c') = map fst (blobdir c)" using c'(2) by (auto simp: only_blobs_def c2_def)
    have "f \<in> set (map fst (blobdir c'))" using fd by force
    then have "f \<in> fst ` set (blobdir c)" unfolding dir by simp
    then have "\<not> is_temp f" by (rule nt)
    ultimately obtain d' where "d = converted A R k True f d'" using c'(3) by auto
    then show ?thesis using converted_encrypted [OF assms(2,1)] by simp
  qed
  then have "cleartext_bytes c' = 0" by (auto simp: cleartext_bytes_zero)
  moreover have "blobs_enabled c'" "db_passphrase c' \<noteq> []"
    using c2(3,4) only_blobs_frame [OF c'(2)] by (simp_all add: blobs_enabled_def get_config_bool_frame [of c' c2])
  ultimately show ?thesis using run c'(1) n by (simp add: protection_of_def Let_def)
qed

section \<open>Instances\<close>

definition null_cipher :: aead where
  "null_cipher = \<lparr>aead_encrypt = (\<lambda>k n p. Some p), aead_decrypt = (\<lambda>k n x. Some x)\<rparr>"

definition some_random :: random where
  "some_random = \<lparr>random_key = replicate 32 (CHR 0x07), random_nonce = (\<lambda>_. replicate 24 (CHR 0x09))\<rparr>"

lemma instances_ok: "aead_ok null_cipher" "random_ok some_random" "aead_encrypt null_cipher k n p \<noteq> None"
  by (simp_all add: aead_ok_def random_ok_def null_cipher_def some_random_def)

definition attachment_db :: ctx where
  "attachment_db = snd (protect null_cipher some_random ''a.jpg'' (write_file ''a.jpg'' ''hi'' (fresh_db\<lparr>db_passphrase := ''s''\<rparr>)))"

theorem blobs_stay_readable_witness:
  "blob_read null_cipher (snd (enable null_cipher some_random attachment_db)) ''a.jpg'' = Ok ''hi''"
proof -
  let ?c0 = "fresh_db\<lparr>db_passphrase := ''s''\<rparr>"
  have "\<not> is_temp ''a.jpg''" "\<not> is_encrypted ''hi''" by code_simp+
  then have "blob_step null_cipher (Map.empty, ?c0) (Map.empty(''a.jpg'' \<mapsto> ''hi''), attachment_db)"
    unfolding attachment_db_def by (intro stored instances_ok)
  moreover have "blob_step null_cipher (Map.empty(''a.jpg'' \<mapsto> ''hi''), attachment_db)
      (Map.empty(''a.jpg'' \<mapsto> ''hi''), snd (enable null_cipher some_random attachment_db))"
    by (intro enabled instances_ok)
  ultimately have "(blob_step null_cipher)\<^sup>*\<^sup>* (Map.empty, ?c0)
      (Map.empty(''a.jpg'' \<mapsto> ''hi''), snd (enable null_cipher some_random attachment_db))"
    by (meson r_into_rtranclp rtranclp_trans)
  then show ?thesis
    using blobs_stay_readable [where A = null_cipher and ?c0.0 = ?c0 and P = "Map.empty(''a.jpg'' \<mapsto> ''hi'')" and f = "''a.jpg''"]
    by (simp add: instances_ok fresh_db_def)
qed

definition temp_named_db :: ctx where
  "temp_named_db = fresh_db\<lparr>blob_key := Some (hex_encode (random_key some_random)),
     blobdir := [(''a.tmp-1'', MAGIC @ replicate 24 (CHR 0x09) @ ''hi'')]\<rparr>"

theorem disable_exact_witness:
  "blob_read null_cipher (snd (disable null_cipher some_random temp_named_db)) ''a.tmp-1'' = Err NoBlobKey"
proof -
  let ?P = "Map.empty(''a.tmp-1'' \<mapsto> ''hi'')"
  have temp: "is_temp ''a.tmp-1''" "\<not> is_encrypted ''hi''" by code_simp+
  have key: "key_of temp_named_db = Ok (Some (random_key some_random))"
    by (simp add: key_of_def temp_named_db_def hex_round_trip) (simp add: some_random_def)
  have held: "file_of temp_named_db ''a.tmp-1'' = Some (MAGIC @ replicate 24 (CHR 0x09) @ ''hi'')"
    by (simp add: file_of_def temp_named_db_def)
  have "sealed null_cipher k ''hi'' (MAGIC @ replicate 24 (CHR 0x09) @ ''hi'')" for k
    unfolding sealed_def by (intro exI [of _ "replicate 24 (CHR 0x09)"] exI [of _ "''hi''"]) (simp add: null_cipher_def)
  then have "blobs_inv null_cipher ?P temp_named_db"
    using temp key held by (auto simp: blobs_inv_def) (simp_all add: temp_named_db_def unique_key_def)
  from disable_exact [OF instances_ok(1,2) this, of "''a.tmp-1''" "''hi''"] show ?thesis
    using temp by (simp add: held MAGIC_def)
qed

theorem enable_protects_witness:
  "fst (enable null_cipher some_random attachment_db) = Ok 1 \<and>
   pr_blobs_encrypted (protection_of (snd (enable null_cipher some_random attachment_db)))"
proof -
  have "db_passphrase attachment_db \<noteq> []" "blobdir attachment_db = [(''a.jpg'', ''hi'')]" "blob_key attachment_db = None"
    "env_var attachment_db Config_BlobEncryption = None" "\<not> is_temp ''a.jpg''"
    by code_simp+
  with enable_protects [OF instances_ok(2,3), of attachment_db None] show ?thesis by (simp add: key_of_def unique_key_def)
qed

end
