(* ===== verification/Rawmime.thy ===== *)
theory Rawmime
  imports Blobcrypt
begin

text \<open>
  \<open>email/rawmime.rs\<close>: the original bytes of messages, kept as blobs for a configured time, with the function
  of \<open>blob.rs\<close> that stores bytes under the hash of their content. The hash is a parameter.
\<close>

datatype retention = RetentionDisabled | RetentionDays nat | RetentionForever

definition retention_from_days :: "int \<Rightarrow> retention" where
  "retention_from_days d = (if d = 0 then RetentionDisabled else if d < 0 then RetentionForever else RetentionDays (nat d))"

definition retention_load :: "ctx \<Rightarrow> retention" where
  "retention_load c = retention_from_days (get_config_int c Config_RawMimeRetentionDays)"

fun expires_at :: "retention \<Rightarrow> int \<Rightarrow> int option" where
  "expires_at RetentionDisabled now = Some now"
| "expires_at RetentionForever now = None"
| "expires_at (RetentionDays d) now = Some (saturating_add now (saturating_mul (int d) 86400))"

text \<open>\<open>extension\<close> is the sanitised extension; the file is written in the clear, renamed over one of the
  same name, and then protected as far as that succeeds.\<close>

definition blob_name :: "(bytes \<Rightarrow> string) \<Rightarrow> bytes \<Rightarrow> string \<Rightarrow> string" where
  "blob_name H d extension = take 31 (H d) @ ''.'' @ extension"

definition create_and_deduplicate_from_bytes ::
  "(bytes \<Rightarrow> string) \<Rightarrow> aead \<Rightarrow> random \<Rightarrow> bytes \<Rightarrow> string \<Rightarrow> ctx \<Rightarrow> string \<times> ctx" where
  "create_and_deduplicate_from_bytes H A R d extension c =
    (let name = blob_name H d extension
     in (''$BLOBDIR/'' @ name, best_effort (protect A R name) (write_file name d c)))"

definition store_with_retention ::
  "(bytes \<Rightarrow> string) \<Rightarrow> aead \<Rightarrow> random \<Rightarrow> msg_id \<Rightarrow> bytes \<Rightarrow> retention \<Rightarrow> ctx \<Rightarrow> ctx" where
  "store_with_retention H A R m raw retention c =
    (case create_and_deduplicate_from_bytes H A R raw ''eml'' c of (blob, c1) \<Rightarrow>
       let row = \<lparr>rm_msg_id = m, rm_blobname = blob, rm_size = min i64_max (int (length raw)),
                  rm_stored_at = clock c, rm_expires_at = expires_at retention (clock c)\<rparr>
       in c1\<lparr>tbl_raw_mime := upsert rm_msg_id (\<lambda>_. row) row (tbl_raw_mime c1)\<rparr>)"

definition rawmime_store :: "(bytes \<Rightarrow> string) \<Rightarrow> aead \<Rightarrow> random \<Rightarrow> msg_id \<Rightarrow> bytes \<Rightarrow> ctx \<Rightarrow> ctx" where
  "rawmime_store H A R m raw c =
    (let retention = retention_load c
     in if retention = RetentionDisabled then c else store_with_retention H A R m raw retention c)"

definition blob_path :: "string \<Rightarrow> string" where
  "blob_path name = (case strip_prefix ''$BLOBDIR/'' name of Some f \<Rightarrow> f | None \<Rightarrow> name)"

definition rawmime_delete :: "msg_id \<Rightarrow> ctx \<Rightarrow> ctx" where
  "rawmime_delete m c = c\<lparr>tbl_raw_mime := delete_where (\<lambda>r. rm_msg_id r = m) (tbl_raw_mime c)\<rparr>"

definition rawmime_load :: "aead \<Rightarrow> msg_id \<Rightarrow> (ctx, bytes option) eff" where
  "rawmime_load A m c =
    (case List.find (\<lambda>r. rm_msg_id r = m) (tbl_raw_mime c) of
       None \<Rightarrow> (Ok None, c)
     | Some r \<Rightarrow>
         (case blob_read A c (blob_path (rm_blobname r)) of
            Ok d \<Rightarrow> (Ok (Some d), c)
          | Err (FileNotFound _) \<Rightarrow> (Ok None, rawmime_delete m c)
          | Err e \<Rightarrow> (Err e, c)))"

definition is_retained :: "ctx \<Rightarrow> msg_id \<Rightarrow> bool" where
  "is_retained c m \<longleftrightarrow> exists_where (\<lambda>r. rm_msg_id r = m) (tbl_raw_mime c)"

definition rawmime_expired :: "int \<Rightarrow> raw_mime_row \<Rightarrow> bool" where
  "rawmime_expired now r \<longleftrightarrow> (case rm_expires_at r of Some e \<Rightarrow> e \<le> now | None \<Rightarrow> False)"

definition rawmime_expire :: "ctx \<Rightarrow> nat \<times> ctx" where
  "rawmime_expire c =
    (let c1 = c\<lparr>tbl_raw_mime := delete_where (rawmime_expired (clock c)) (tbl_raw_mime c)\<rparr>;
         c2 = c1\<lparr>tbl_raw_mime := delete_where (\<lambda>r. rm_msg_id r \<notin> set (live_ids c1)) (tbl_raw_mime c1)\<rparr>
     in (length (tbl_raw_mime c) - length (tbl_raw_mime c2), c2))"

section \<open>Lemmas\<close>

lemma blob_path_prefixed: "blob_path (''$BLOBDIR/'' @ f) = f"
proof -
  have "strip_prefix ''$BLOBDIR/'' (''$BLOBDIR/'' @ f) = Some f" by (simp only: strip_prefix_Some_iff)
  then show ?thesis by (simp only: blob_path_def option.case)
qed

lemma protect_frame: "snd (protect A R f c) = c\<lparr>blob_key := blob_key (snd (protect A R f c)), blobdir := blobdir (snd (protect A R f c))\<rparr>"
  by (auto simp: protect_def ensure_key_def convert_def write_file_def split: option.split result.split)

lemma protect_tables:
  "tbl_raw_mime (snd (protect A R f c)) = tbl_raw_mime c" "tbl_msgs (snd (protect A R f c)) = tbl_msgs c" "clock (snd (protect A R f c)) = clock c"
  by (subst protect_frame; simp)+

text \<open>Storing bytes keeps what was stored before, unless a file of the same name held other bytes.\<close>

lemma create_inv:
  assumes "aead_ok A" "random_ok R" "blobs_inv A P c" "\<not> is_encrypted d"
  shows "blobs_inv A (P(blob_name H d e \<mapsto> d)) (snd (create_and_deduplicate_from_bytes H A R d e c))"
  using protect_inv [OF assms(1,2) stored_inv [OF assms(3,4)]]
  by (simp add: create_and_deduplicate_from_bytes_def Let_def best_effort_def)

lemma blobs_inv_read_path: "aead_ok A \<Longrightarrow> blobs_inv A P c \<Longrightarrow> P f = Some p \<Longrightarrow> blob_read A c (blob_path (''$BLOBDIR/'' @ f)) = Ok p"
  by (simp only: blob_path_prefixed blobs_inv_read)

lemma expire_tables:
  "tbl_raw_mime (snd (rawmime_expire c)) = filter (\<lambda>r. rm_msg_id r \<in> set (live_ids c) \<and> \<not> rawmime_expired (clock c) r) (tbl_raw_mime c)"
  "blobdir (snd (rawmime_expire c)) = blobdir c" "blob_key (snd (rawmime_expire c)) = blob_key c"
  by (simp_all add: rawmime_expire_def Let_def delete_where_def live_ids_def conj_commute)

lemma store_row:
  assumes "retention_load c \<noteq> RetentionDisabled"
  shows "List.find (\<lambda>r. rm_msg_id r = m') (tbl_raw_mime (rawmime_store H A R m raw c)) =
    (if m' = m then Some \<lparr>rm_msg_id = m, rm_blobname = ''$BLOBDIR/'' @ blob_name H raw ''eml'', rm_size = min i64_max (int (length raw)),
        rm_stored_at = clock c, rm_expires_at = expires_at (retention_load c) (clock c)\<rparr>
     else List.find (\<lambda>r. rm_msg_id r = m') (tbl_raw_mime c))"
  using assms
  by (simp add: rawmime_store_def store_with_retention_def create_and_deduplicate_from_bytes_def Let_def best_effort_def
      protect_tables find_upsert split: option.split)

lemma store_blobs:
  assumes "retention_load c \<noteq> RetentionDisabled" "aead_ok A" "random_ok R" "blobs_inv A P c" "\<not> is_encrypted raw"
  shows "blobs_inv A (P(blob_name H raw ''eml'' \<mapsto> raw)) (rawmime_store H A R m raw c)"
proof -
  have "blobs_inv A Q (rawmime_store H A R m raw c) = blobs_inv A Q (snd (create_and_deduplicate_from_bytes H A R raw ''eml'' c))" for Q
    using assms(1) by (intro blobs_inv_cong) (simp_all add: rawmime_store_def store_with_retention_def Let_def split: prod.split)
  then show ?thesis using create_inv [OF assms(2-5)] by blast
qed

lemma store_frame:
  assumes "retention_load c \<noteq> RetentionDisabled"
  shows "live_ids (rawmime_store H A R m raw c) = live_ids c"
    "unique_key rm_msg_id (tbl_raw_mime c) \<Longrightarrow> unique_key rm_msg_id (tbl_raw_mime (rawmime_store H A R m raw c))"
  using assms
  by (simp_all add: rawmime_store_def store_with_retention_def create_and_deduplicate_from_bytes_def Let_def best_effort_def
      protect_tables live_ids_def unique_key_upsert)

text \<open>C32: The original of a message reads back byte for byte until the configured retention has passed, and
  from then on, or once the message is gone, not at all; it is encrypted in between or not. The
  originals of other messages are still what they were, unless the hashes of two different contents
  collide.\<close>

theorem raw_mime_window:
  assumes ok: "aead_ok A" "random_ok R" and inv: "blobs_inv A P c" "unique_key rm_msg_id (tbl_raw_mime c)"
    and new: "retention_load c \<noteq> RetentionDisabled" "\<not> is_encrypted raw"
  shows "let c1 = (rawmime_store H A R m raw c)\<lparr>clock := t\<rparr>; c2 = snd (rawmime_expire c1) in
    fst (rawmime_load A m c2) = Ok (if m \<in> set (live_ids c) \<and>
      (case expires_at (retention_load c) (clock c) of None \<Rightarrow> True | Some e \<Rightarrow> t < e) then Some raw else None) \<and>
    (\<forall>r f p. r \<in> set (tbl_raw_mime c) \<and> rm_msg_id r \<noteq> m \<and> rm_blobname r = ''$BLOBDIR/'' @ f \<and> P f = Some p \<and>
      (f = blob_name H raw ''eml'' \<longrightarrow> p = raw) \<longrightarrow> fst (rawmime_load A (rm_msg_id r) c1) = Ok (Some p))"
proof -
  define c1 where "c1 = (rawmime_store H A R m raw c)\<lparr>clock := t\<rparr>"
  define c2 where "c2 = snd (rawmime_expire c1)"
  have inv1: "blobs_inv A (P(blob_name H raw ''eml'' \<mapsto> raw)) c1"
    using store_blobs [OF new(1) ok inv(1) new(2)] blobs_inv_cong [of c1 "rawmime_store H A R m raw c"] by (simp add: c1_def)
  then have inv2: "blobs_inv A (P(blob_name H raw ''eml'' \<mapsto> raw)) c2"
    using blobs_inv_cong [of c2 c1] by (simp add: c2_def expire_tables)
  have rows: "List.find (\<lambda>r. rm_msg_id r = m') (tbl_raw_mime c1) = List.find (\<lambda>r. rm_msg_id r = m') (tbl_raw_mime (rawmime_store H A R m raw c))" for m'
    by (simp add: c1_def)
  have "unique_key rm_msg_id (tbl_raw_mime c1)" "live_ids c1 = live_ids c" "clock c1 = t"
    using store_frame [OF new(1), of H A R m raw] inv(2) by (simp_all add: c1_def live_ids_def)
  then have row: "List.find (\<lambda>r. rm_msg_id r = m) (tbl_raw_mime c2) =
      (if m \<in> set (live_ids c) \<and> (case expires_at (retention_load c) (clock c) of None \<Rightarrow> True | Some e \<Rightarrow> t < e)
       then List.find (\<lambda>r. rm_msg_id r = m) (tbl_raw_mime c1) else None)"
    unfolding c2_def expire_tables by (simp add: find_filter_unique rows store_row [OF new(1)] rawmime_expired_def not_less [symmetric] split: option.split)
  have "fst (rawmime_load A m c2) = Ok (if m \<in> set (live_ids c) \<and>
      (case expires_at (retention_load c) (clock c) of None \<Rightarrow> True | Some e \<Rightarrow> t < e) then Some raw else None)"
    using blobs_inv_read_path [OF ok(1) inv2, of "blob_name H raw ''eml''" raw]
    by (simp add: rawmime_load_def row rows store_row [OF new(1)])
  moreover have "fst (rawmime_load A (rm_msg_id r) c1) = Ok (Some p)"
    if "r \<in> set (tbl_raw_mime c)" "rm_msg_id r \<noteq> m" "rm_blobname r = ''$BLOBDIR/'' @ f" "P f = Some p" "f = blob_name H raw ''eml'' \<longrightarrow> p = raw" for r f p
    using blobs_inv_read_path [OF ok(1) inv1, of f p] that find_unique [OF inv(2) that(1)]
    by (auto simp: rawmime_load_def rows store_row [OF new(1)])
  ultimately show ?thesis unfolding Let_def c1_def c2_def by blast
qed

theorem raw_mime_window_witness:
  "let c = (rawmime_store (\<lambda>_. ''abc'') null_cipher some_random 9 ''Hello'' fresh_db) in
   fst (rawmime_load null_cipher 9 (snd (rawmime_expire (c\<lparr>clock := 30 * 86400 - 1\<rparr>)))) = Ok (Some ''Hello'') \<and>
   fst (rawmime_load null_cipher 9 (snd (rawmime_expire (c\<lparr>clock := 30 * 86400\<rparr>)))) = Ok None"
proof -
  have inv: "blobs_inv null_cipher Map.empty fresh_db" "unique_key rm_msg_id (tbl_raw_mime fresh_db)" "clock fresh_db = 0"
    by (simp_all add: blobs_inv_def key_of_def fresh_db_def)
  have vals: "retention_load fresh_db = RetentionDays 30" "\<not> is_encrypted ''Hello''" "9 \<in> set (live_ids fresh_db)" by code_simp+
  have "expires_at (RetentionDays 30) 0 = Some (30 * 86400)" by code_simp
  with vals inv raw_mime_window [OF instances_ok(1,2) inv(1,2), where raw = "''Hello''" and H = "\<lambda>_. ''abc''" and m = 9] show ?thesis
    by (simp add: Let_def)
qed

end
