(* ===== verification/Structured.thy ===== *)
theory Structured
  imports Policy Recipients
begin

text \<open>
  \<open>email/structured.rs\<close>: the machine-readable objects a message carries, and whether they may be
  acted on. A parsed message is \<open>parsed_mail\<close>, with what the code reads of \<open>mailparse::ParsedMail\<close>:
  the media type, the value of the first \<open>Content-Purpose\<close> header, the decoded body if it can be
  decoded, and the parts. \<open>mailparse::parse_mail\<close> and \<open>serde_json\<close> are parameters; of the latter, a
  record of parsing, the members of a top-level \<open>@graph\<close> array, and printing.
\<close>

datatype source = Alternative | Related | Mixed | HtmlScript

fun source_to_i64 :: "source \<Rightarrow> int" where
  "source_to_i64 Alternative = 0"
| "source_to_i64 Related = 1"
| "source_to_i64 Mixed = 2"
| "source_to_i64 HtmlScript = 3"

definition source_from_i64 :: "int \<Rightarrow> source" where
  "source_from_i64 v = (if v = 0 then Alternative else if v = 1 then Related else if v = 3 then HtmlScript else Mixed)"

definition from_multipart :: "string \<Rightarrow> source" where
  "from_multipart subtype =
    (if subtype = ''alternative'' then Alternative else if subtype = ''related'' then Related else Mixed)"

record structured_object =
  so_seq :: nat
  so_json :: string
  so_trusted :: bool
  so_source :: source

datatype parsed_mail =
  ParsedMail (pm_mimetype: string) (pm_content_purpose: "string option") (pm_body: "string option") (pm_subparts: "parsed_mail list")

record 'j serde_json =
  from_str :: "string \<Rightarrow> 'j option"
  at_graph :: "'j \<Rightarrow> 'j list option"
  to_str :: "'j \<Rightarrow> string"

section \<open>Extraction\<close>

definition windows :: "nat \<Rightarrow> 'a list \<Rightarrow> 'a list list" where
  "windows n xs = map (\<lambda>i. take n (drop i xs)) [0..<Suc (length xs) - n]"

fun position :: "('a \<Rightarrow> bool) \<Rightarrow> 'a list \<Rightarrow> nat option" where
  "position p [] = None"
| "position p (x # xs) = (if p x then Some 0 else map_option Suc (position p xs))"

definition find_ascii_ci :: "string \<Rightarrow> string \<Rightarrow> nat \<Rightarrow> nat option" where
  "find_ascii_ci haystack needle from =
    (if length haystack < from then None
     else
       let tail = drop from haystack in
       if needle = [] \<or> length needle > length tail then None
       else map_option (\<lambda>at. from + at) (position (\<lambda>w. eq_ignore_ascii_case w needle) (windows (length needle) tail)))"

lemma position_Some_iff:
  "position p xs = Some i \<longleftrightarrow> i < length xs \<and> p (xs ! i) \<and> (\<forall>j < i. \<not> p (xs ! j))"
proof (induction xs arbitrary: i)
  case (Cons x xs)
  show ?case by (cases i) (auto simp: Cons.IH less_Suc_eq_0_disj)
qed simp

definition match_at :: "string \<Rightarrow> string \<Rightarrow> nat \<Rightarrow> bool" where
  "match_at hay needle i \<longleftrightarrow> i + length needle \<le> length hay \<and> eq_ignore_ascii_case (take (length needle) (drop i hay)) needle"

lemma find_ascii_ci_Some_iff:
  assumes "needle \<noteq> []"
  shows "find_ascii_ci hay needle from = Some i \<longleftrightarrow>
    from \<le> i \<and> match_at hay needle i \<and> (\<forall>j. from \<le> j \<and> j < i \<longrightarrow> \<not> match_at hay needle j)"
proof (cases "length hay < from \<or> length needle > length hay - from")
  case True
  then have "\<not> match_at hay needle i" if "from \<le> i" for i using that assms by (auto simp: match_at_def)
  with True show ?thesis by (auto simp: find_ascii_ci_def)
next
  case False
  define w where "w = windows (length needle) (drop from hay)"
  have len: "length w = Suc (length hay - from) - length needle" by (simp add: w_def windows_def)
  have nth: "eq_ignore_ascii_case (w ! k) needle \<longleftrightarrow> match_at hay needle (from + k)" if "k < length w" for k
    using that False by (auto simp: w_def windows_def match_at_def add.commute)
  have pos: "position (\<lambda>x. eq_ignore_ascii_case x needle) w = Some k \<longleftrightarrow>
      match_at hay needle (from + k) \<and> (\<forall>j < k. \<not> match_at hay needle (from + j))" for k
  proof -
    have "match_at hay needle (from + k) \<Longrightarrow> k < length w" using False by (auto simp: match_at_def len)
    then show ?thesis unfolding position_Some_iff using nth by (metis order.strict_trans)
  qed
  have "find_ascii_ci hay needle from = map_option ((+) from) (position (\<lambda>x. eq_ignore_ascii_case x needle) w)"
    using False assms by (simp add: find_ascii_ci_def w_def Let_def)
  then have "find_ascii_ci hay needle from = Some i \<longleftrightarrow> (\<exists>k. i = from + k \<and> match_at hay needle (from + k) \<and>
      (\<forall>j < k. \<not> match_at hay needle (from + j)))"
    by (auto simp: pos)
  also have "\<dots> \<longleftrightarrow> from \<le> i \<and> match_at hay needle i \<and> (\<forall>j. from \<le> j \<and> j < i \<longrightarrow> \<not> match_at hay needle j)"
    by (auto simp: le_iff_add)
  finally show ?thesis .
qed

lemma find_ascii_ci_bounds:
  "find_ascii_ci hay needle from = Some i \<Longrightarrow> from \<le> i \<and> i < length hay"
proof (cases needle)
  case Cons
  then show "find_ascii_ci hay needle from = Some i \<Longrightarrow> from \<le> i \<and> i < length hay"
    by (simp add: find_ascii_ci_Some_iff match_at_def)
qed (simp add: find_ascii_ci_def split: if_splits)

text \<open>One round of the loop of \<open>script_blocks\<close>: the block found, if any, and where to go on. The cuts are
  next to ASCII characters, so the slice never fails for lying inside a character.\<close>

definition script_round :: "string \<Rightarrow> nat \<Rightarrow> (string option \<times> nat) option" where
  "script_round bytes cursor =
    (case find_ascii_ci bytes ''<script'' cursor of
       None \<Rightarrow> None
     | Some tag_start \<Rightarrow>
         (case map_option Suc (find_ascii_ci bytes ''>'' tag_start) of
            None \<Rightarrow> None
          | Some open_end \<Rightarrow>
              let is_ld_json = (case find_ascii_ci bytes ''application/ld+json'' tag_start of Some at \<Rightarrow> at < open_end | None \<Rightarrow> False)
              in case find_ascii_ci bytes ''</script'' open_end of
                   None \<Rightarrow> None
                 | Some body_end \<Rightarrow>
                     Some (if is_ld_json then Some (take (body_end - open_end) (drop open_end bytes)) else None, body_end)))"

lemma script_round_progress: "script_round bytes cursor = Some (b, cursor') \<Longrightarrow> cursor < cursor' \<and> cursor' < length bytes"
  by (auto simp: script_round_def Let_def split: option.splits dest!: find_ascii_ci_bounds)

function script_loop :: "string \<Rightarrow> nat \<Rightarrow> string list" where
  "script_loop bytes cursor =
    (case script_round bytes cursor of
       None \<Rightarrow> []
     | Some (Some b, cursor') \<Rightarrow> b # script_loop bytes cursor'
     | Some (None, cursor') \<Rightarrow> script_loop bytes cursor')"
  by pat_completeness auto
termination
  by (relation "measure (\<lambda>(bytes, cursor). length bytes - cursor)") (auto dest!: script_round_progress)

declare script_loop.simps [simp del]

definition script_blocks :: "string \<Rightarrow> string list" where
  "script_blocks html = script_loop html 0"

definition is_machine_readable :: "parsed_mail \<Rightarrow> bool" where
  "is_machine_readable part =
    (case pm_content_purpose part of
       None \<Rightarrow> False
     | Some v \<Rightarrow> eq_ignore_ascii_case (trim (hd (split_char (CHR '';'') v))) ''machine-readable'')"

definition push_json :: "'j serde_json \<Rightarrow> string \<Rightarrow> source \<Rightarrow> (string \<times> source) list \<Rightarrow> (string \<times> source) list" where
  "push_json js text src found =
    (case from_str js text of
       None \<Rightarrow> found
     | Some value \<Rightarrow>
         (case at_graph js value of
            Some members \<Rightarrow> found @ map (\<lambda>m. (to_str js m, src)) members
          | None \<Rightarrow> found @ [(to_str js value, src)]))"

lemma size_subpart [termination_simp]: "x \<in> set (pm_subparts p) \<Longrightarrow> size x < size p"
  by (cases p) (auto dest!: size_list_estimation' [where f = size, OF _ order_refl])

fun walk :: "'j serde_json \<Rightarrow> parsed_mail \<Rightarrow> source \<Rightarrow> (string \<times> source) list \<Rightarrow> (string \<times> source) list" where
  "walk js part arrangement found =
    (let ctype = ascii_lower (pm_mimetype part) in
     case strip_prefix ''multipart/'' ctype of
       Some subtype \<Rightarrow> fold (\<lambda>child. walk js child (from_multipart subtype)) (pm_subparts part) found
     | None \<Rightarrow>
         if ctype \<noteq> ''application/ld+json'' \<or> \<not> is_machine_readable part then found
         else case pm_body part of Some body \<Rightarrow> push_json js body arrangement found | None \<Rightarrow> found)"

fun html_scripts :: "'j serde_json \<Rightarrow> parsed_mail \<Rightarrow> (string \<times> source) list \<Rightarrow> (string \<times> source) list" where
  "html_scripts js part found =
    (let found1 =
       (if eq_ignore_ascii_case (pm_mimetype part) ''text/html''
        then (case pm_body part of
                Some body \<Rightarrow> fold (\<lambda>b. push_json js b HtmlScript) (script_blocks body) found
              | None \<Rightarrow> found)
        else found)
     in fold (html_scripts js) (pm_subparts part) found1)"

declare walk.simps [simp del] html_scripts.simps [simp del]

definition objects_in :: "(string \<Rightarrow> parsed_mail option) \<Rightarrow> 'j serde_json \<Rightarrow> string \<Rightarrow> (nat \<times> string \<times> source) list" where
  "objects_in parse_mail js raw =
    (case parse_mail raw of
       None \<Rightarrow> []
     | Some mail \<Rightarrow>
         let found = walk js mail Mixed [];
             found1 = (if found = [] then html_scripts js mail found else found)
         in enumerate 0 found1)"

definition extract_objects :: "(string \<Rightarrow> parsed_mail option) \<Rightarrow> 'j serde_json \<Rightarrow> string \<Rightarrow> string \<Rightarrow> (nat \<times> string \<times> source) list" where
  "extract_objects parse_mail js decoded_data imf_raw = objects_in parse_mail js (if decoded_data = [] then imf_raw else decoded_data)"

section \<open>Storage\<close>

definition structured_is_trusted :: "ctx \<Rightarrow> msg_id \<Rightarrow> bool result" where
  "structured_is_trusted c m =
    (case message_crypto_of c m of
       Err e \<Rightarrow> Err e
     | Ok crypto \<Rightarrow>
         if \<not> mc_encrypted crypto \<or> \<not> mc_signed crypto then Ok False
         else case find_msg c m of
             Some r \<Rightarrow> is_trusted c (m_from_id r)
           | None \<Rightarrow> Ok False)"

definition structured_row_of :: "msg_id \<Rightarrow> bool \<Rightarrow> nat \<times> string \<times> source \<Rightarrow> structured_row" where
  "structured_row_of m trusted x =
    (case x of (s, json, src) \<Rightarrow>
       \<lparr>sd_msg_id = m, sd_seq = s, sd_json = json, sd_trusted = trusted, sd_source = source_to_i64 src\<rparr>)"

definition structured_store ::
  "(string \<Rightarrow> parsed_mail option) \<Rightarrow> 'j serde_json \<Rightarrow> msg_id \<Rightarrow> string \<Rightarrow> string \<Rightarrow> (ctx, unit) eff" where
  "structured_store parse_mail js m decoded_data imf_raw c =
    (let found = extract_objects parse_mail js decoded_data imf_raw in
     if found = [] then (Ok (), c)
     else case structured_is_trusted c m of
         Err e \<Rightarrow> (Err e, c)
       | Ok trusted \<Rightarrow>
           (Ok (), c\<lparr>tbl_structured_data :=
              fold (\<lambda>x. insert_or_ignore (\<lambda>r. (sd_msg_id r, sd_seq r)) (structured_row_of m trusted x)) found
                (tbl_structured_data c)\<rparr>))"

definition structured_of_msg :: "ctx \<Rightarrow> msg_id \<Rightarrow> structured_object list" where
  "structured_of_msg c m =
    map (\<lambda>r. \<lparr>so_seq = sd_seq r, so_json = sd_json r, so_trusted = sd_trusted r, so_source = source_from_i64 (sd_source r)\<rparr>)
      (sort_key sd_seq (filter (\<lambda>r. sd_msg_id r = m) (tbl_structured_data c)))"

definition structured_prune :: "ctx \<Rightarrow> ctx" where
  "structured_prune c =
    c\<lparr>tbl_structured_data := delete_where (\<lambda>r. sd_msg_id r \<notin> m_id ` set (tbl_msgs c)) (tbl_structured_data c)\<rparr>"

section \<open>Lemmas\<close>

lemma source_codec [simp]: "source_from_i64 (source_to_i64 s) = s"
  by (cases s) (simp_all add: source_from_i64_def)

lemma find_ascii_ci_shift:
  "k \<le> length hay \<Longrightarrow> find_ascii_ci hay needle (k + from) = map_option ((+) k) (find_ascii_ci (drop k hay) needle from)"
  by (auto simp: find_ascii_ci_def Let_def add.commute option.map_comp comp_def add.assoc intro!: option.map_cong)

lemma script_round_shift:
  assumes "k \<le> length h"
  shows "script_round h k = map_option (map_prod id ((+) k)) (script_round (drop k h) 0)"
proof -
  have 1: "find_ascii_ci h n k = map_option ((+) k) (find_ascii_ci (drop k h) n 0)" for n
    using find_ascii_ci_shift [OF assms, of n 0] by simp
  show ?thesis
    by (auto simp: script_round_def 1 find_ascii_ci_shift [OF assms] Let_def simp flip: add_Suc_right split: option.splits)
      (simp add: add.commute)
qed

lemma script_loop_drop: "k \<le> length h \<Longrightarrow> script_loop h k = script_loop (drop k h) 0"
proof (induction "length h - k" arbitrary: h k rule: less_induct)
  case less
  show ?case
  proof (cases "script_round (drop k h) 0")
    case None
    moreover from this have "script_round h k = None" by (simp only: script_round_shift [OF less(2)]) simp
    ultimately show ?thesis by (simp only: script_loop.simps [of h k] script_loop.simps [of "drop k h" 0]) simp
  next
    case (Some x)
    obtain b e where x: "x = (b, e)" by (cases x)
    have e: "0 < e" "k + e < length h" using script_round_progress [OF Some [unfolded x]] by auto
    have "script_loop h (k + e) = script_loop (drop (k + e) h) 0" using e by (intro less(1)) auto
    moreover have "script_loop (drop k h) e = script_loop (drop e (drop k h)) 0" using e by (intro less(1)) auto
    ultimately have "script_loop h (k + e) = script_loop (drop k h) e" by (simp add: add.commute)
    moreover have "script_round h k = Some (b, k + e)" using Some x by (simp only: script_round_shift [OF less(2)]) simp
    ultimately show ?thesis using Some x
      by (simp only: script_loop.simps [of h k] script_loop.simps [of "drop k h" 0]) (simp split: option.split)
  qed
qed

lemma script_blocks_step:
  assumes "script_round h 0 = Some (b, e)"
  shows "script_blocks h = (case b of Some x \<Rightarrow> [x] | None \<Rightarrow> []) @ script_blocks (drop e h)"
  using script_round_progress [OF assms] assms
  by (simp only: script_blocks_def script_loop.simps [of h 0]) (simp add: script_loop_drop [of e h] split: option.split)

definition contains_ci :: "string \<Rightarrow> string \<Rightarrow> bool" where
  "contains_ci needle s \<longleftrightarrow> contains (ascii_lower needle) (ascii_lower s)"

lemma length_ascii_lower [simp]: "length (ascii_lower s) = length s"
  by (simp add: ascii_lower_def)

lemma match_at_iff: "match_at h n i \<longleftrightarrow> i + length n \<le> length h \<and> take (length n) (drop i (ascii_lower h)) = ascii_lower n"
  by (simp add: match_at_def eq_ignore_ascii_case_def ascii_lower_def take_map drop_map)

lemma contains_ci_iff: "contains_ci n h \<longleftrightarrow> (\<exists>i. match_at h n i)"
proof
  assume "contains_ci n h"
  then obtain a b where ab: "ascii_lower h = a @ ascii_lower n @ b" by (auto simp: contains_ci_def contains_iff)
  then have "length h = length a + length n + length b" by (metis length_append length_ascii_lower add.assoc)
  with ab have "match_at h n (length a)" by (simp add: match_at_iff)
  then show "\<exists>i. match_at h n i" ..
next
  assume "\<exists>i. match_at h n i"
  then obtain i where "take (length n) (drop i (ascii_lower h)) = ascii_lower n" by (auto simp: match_at_iff)
  then have "ascii_lower h = take i (ascii_lower h) @ ascii_lower n @ drop (length n) (drop i (ascii_lower h))"
    by (metis append_take_drop_id)
  then show "contains_ci n h" unfolding contains_ci_def contains_iff by blast
qed

lemma match_at_append1: "i + length n \<le> length a \<Longrightarrow> match_at (a @ b) n i \<longleftrightarrow> match_at a n i"
  by (simp add: match_at_iff ascii_lower_def)

lemma match_at_append2: "match_at (a @ b) n (length a + i) \<longleftrightarrow> match_at b n i"
  by (simp add: match_at_iff ascii_lower_def)

lemma match_at_nth: "match_at h n i \<Longrightarrow> k < length n \<Longrightarrow> ascii_lower_char (h ! (i + k)) = ascii_lower_char (n ! k)"
proof -
  assume m: "match_at h n i" and k: "k < length n"
  then have "take (length n) (drop i (ascii_lower h)) ! k = ascii_lower n ! k" "i + length n \<le> length h" by (simp_all add: match_at_iff)
  with k show ?thesis by (simp add: ascii_lower_def)
qed

text \<open>A needle whose first character does not occur again in it is found at its first occurrence.\<close>

lemma find_ascii_ci_first:
  assumes "\<not> contains_ci (x # n) pre" and "ascii_lower_char x \<notin> ascii_lower_char ` set n"
  shows "find_ascii_ci (pre @ (x # n) @ rest) (x # n) 0 = Some (length pre)"
proof -
  have "\<not> match_at (pre @ (x # n) @ rest) (x # n) j" if "j < length pre" for j
  proof
    assume m: "match_at (pre @ (x # n) @ rest) (x # n) j"
    show False
    proof (cases "j + length (x # n) \<le> length pre")
      case True
      with m have "match_at pre (x # n) j" by (simp only: match_at_append1)
      with assms(1) show False by (auto simp: contains_ci_iff)
    next
      case False
      define k where "k = length pre - j"
      have k: "0 < k" "k < length (x # n)" "j + k = length pre" using False that by (auto simp: k_def)
      have "ascii_lower_char x = ascii_lower_char ((x # n) ! k)" using match_at_nth [OF m k(2)] k(3) by (simp add: nth_append)
      moreover have "(x # n) ! k \<in> set n" using k(1,2) by (cases k) auto
      ultimately show False using assms(2) by auto
    qed
  qed
  moreover have "match_at (pre @ (x # n) @ rest) (x # n) (length pre)"
    by (simp add: match_at_iff ascii_lower_def)
  ultimately show ?thesis by (simp add: find_ascii_ci_Some_iff)
qed

text \<open>A page with its script elements taken apart: the text before each one, what stands in its opening tag
  after \<open><script\<close>, and its content.\<close>

fun render :: "(string \<times> string \<times> string) list \<Rightarrow> string \<Rightarrow> string" where
  "render [] tail = tail"
| "render ((pre, attrs, body) # rest) tail = pre @ ''<script'' @ attrs @ ''>'' @ body @ ''</script'' @ render rest tail"

definition scripts_ok :: "(string \<times> string \<times> string) list \<Rightarrow> string \<Rightarrow> bool" where
  "scripts_ok segs tail \<longleftrightarrow>
    list_all (\<lambda>(pre, attrs, body). \<not> contains_ci ''<script'' pre \<and> CHR ''>'' \<notin> set attrs \<and> \<not> contains_ci ''</script'' body) segs \<and>
    \<not> contains_ci ''<script'' tail"

lemma find_ascii_ci_after:
  assumes "\<not> contains_ci (x # n) pre" and "ascii_lower_char x \<notin> ascii_lower_char ` set n"
  shows "find_ascii_ci (a @ pre @ (x # n) @ rest) (x # n) (length a) = Some (length a + length pre)"
  using find_ascii_ci_shift [of "length a" "a @ pre @ (x # n) @ rest" "x # n" 0] find_ascii_ci_first [OF assms, of rest] by simp

lemma find_ascii_ci_None_iff:
  assumes "n \<noteq> []"
  shows "find_ascii_ci h n from = None \<longleftrightarrow> (\<forall>j. from \<le> j \<longrightarrow> \<not> match_at h n j)"
proof
  assume none: "find_ascii_ci h n from = None"
  show "\<forall>j. from \<le> j \<longrightarrow> \<not> match_at h n j"
  proof (rule ccontr)
    assume "\<not> ?thesis"
    then have ex: "\<exists>j. from \<le> j \<and> match_at h n j" by blast
    let ?i = "LEAST j. from \<le> j \<and> match_at h n j"
    have "find_ascii_ci h n from = Some ?i"
      unfolding find_ascii_ci_Some_iff [OF assms]
      using LeastI_ex [OF ex] not_less_Least [of _ "\<lambda>j. from \<le> j \<and> match_at h n j"] by blast
    with none show False by simp
  qed
next
  assume "\<forall>j. from \<le> j \<longrightarrow> \<not> match_at h n j"
  then have "find_ascii_ci h n from \<noteq> Some i" for i unfolding find_ascii_ci_Some_iff [OF assms] by blast
  then show "find_ascii_ci h n from = None" by blast
qed

lemma find_ascii_ci_before:
  assumes "n \<noteq> []"
  shows "(case find_ascii_ci h n from of Some at \<Rightarrow> at < e | None \<Rightarrow> False) \<longleftrightarrow> (\<exists>at. from \<le> at \<and> at < e \<and> match_at h n at)"
proof (cases "find_ascii_ci h n from")
  case None
  then show ?thesis unfolding find_ascii_ci_None_iff [OF assms] by (simp add: None)
next
  case (Some i)
  then have i: "from \<le> i" "match_at h n i" and least: "\<And>j. from \<le> j \<Longrightarrow> j < i \<Longrightarrow> \<not> match_at h n j"
    unfolding find_ascii_ci_Some_iff [OF assms] by blast+
  have "i < e" if "from \<le> at" "at < e" "match_at h n at" for at
    using least [OF that(1)] that(2,3) by (cases "at < i") auto
  then show ?thesis using i by (auto simp: Some)
qed

lemma drop_front: "drop (length a) (a @ b) = b"
  by simp

lemma ascii_lower_keep: "ascii_lower_char c = x \<Longrightarrow> (of_char x :: nat) < 65 \<Longrightarrow> c = x"
  by (auto simp: ascii_lower_char_def Let_def split: if_splits)

lemma script_round_eq:
  assumes "find_ascii_ci h ''<script'' k = Some t" "find_ascii_ci h ''>'' t = Some g" "find_ascii_ci h ''</script'' (Suc g) = Some e"
  shows "script_round h k =
    Some (if \<exists>at. t \<le> at \<and> at < Suc g \<and> match_at h ''application/ld+json'' at then Some (take (e - Suc g) (drop (Suc g) h)) else None, e)"
proof -
  have "script_round h k = Some (if (case find_ascii_ci h ''application/ld+json'' t of Some at \<Rightarrow> at < Suc g | None \<Rightarrow> False)
      then Some (take (e - Suc g) (drop (Suc g) h)) else None, e)"
    by (simp only: script_round_def assms option.case option.map Let_def)
  also have "(case find_ascii_ci h ''application/ld+json'' t of Some at \<Rightarrow> at < Suc g | None \<Rightarrow> False) \<longleftrightarrow>
      (\<exists>at. t \<le> at \<and> at < Suc g \<and> match_at h ''application/ld+json'' at)"
    by (rule find_ascii_ci_before) simp
  finally show ?thesis .
qed

lemma match_at_outside:
  assumes "match_at (a @ w @ b) n i" "i < length a + length w" "length a \<le> i"
    and "\<And>x. x \<in> set (take 1 b) \<Longrightarrow> ascii_lower_char x \<notin> ascii_lower_char ` set n"
    and "n \<noteq> []" "b \<noteq> []"
  shows "match_at w n (i - length a)"
proof -
  have m: "match_at (w @ b) n (i - length a)" using assms(1,3) match_at_append2 [of a "w @ b" n "i - length a"] by simp
  have "i - length a + length n \<le> length w"
  proof (rule ccontr)
    assume "\<not> ?thesis"
    then have k: "length w - (i - length a) < length n" "i - length a + (length w - (i - length a)) = length w" using assms(2,3) by auto
    from match_at_nth [OF m k(1)] k(2) assms(6) have "ascii_lower_char (hd b) = ascii_lower_char (n ! (length w - (i - length a)))"
      by (simp add: nth_append hd_conv_nth)
    moreover have "hd b \<in> set (take 1 b)" using assms(6) by (cases b) auto
    ultimately show False using assms(4) [of "hd b"] k(1) by auto
  qed
  with m show ?thesis by (simp add: match_at_append1)
qed

lemma ld_json_in_tag:
  assumes "CHR ''>'' \<notin> set attrs"
  shows "(\<exists>at. length pre \<le> at \<and> at < length (pre @ ''<script'' @ attrs @ ''>'') \<and>
      match_at (pre @ ''<script'' @ attrs @ ''>'' @ rest) ''application/ld+json'' at) \<longleftrightarrow> contains_ci ''application/ld+json'' attrs"
    (is "?L \<longleftrightarrow> ?R")
proof
  assume ?L
  then obtain at where at: "length pre \<le> at" "at < length (pre @ ''<script'' @ attrs @ ''>'')"
      "match_at (pre @ ''<script'' @ attrs @ ''>'' @ rest) ''application/ld+json'' at" by blast
  have a: "ascii_lower_char ((pre @ ''<script'' @ attrs @ ''>'' @ rest) ! at) = CHR ''a''"
    using match_at_nth [OF at(3), of 0] by (simp add: ascii_lower_char_def)
  have "length (pre @ ''<script'') \<le> at"
  proof (rule ccontr)
    assume n: "\<not> ?thesis"
    define k where "k = at - length pre"
    have k: "k < length ''<script''" "at = length pre + k" using n at(1) by (auto simp: k_def)
    then have "(pre @ ''<script'' @ attrs @ ''>'' @ rest) ! at = ''<script'' ! k"
      using nth_append_left [OF k(1), of "attrs @ ''>'' @ rest"] by (simp only: nth_append_length_plus)
    moreover have "''<script'' ! k \<in> set ''<script''" using k(1) by (rule nth_mem)
    ultimately have "CHR ''a'' \<in> ascii_lower_char ` set ''<script''" using a by (metis imageI)
    then show False by (simp add: ascii_lower_char_def)
  qed
  moreover have "at < length (pre @ ''<script'') + length attrs"
  proof (rule ccontr)
    assume "\<not> ?thesis"
    then have "at = length (pre @ ''<script'' @ attrs)" using at(2) by simp
    moreover have "((pre @ ''<script'' @ attrs) @ ''>'' @ rest) ! length (pre @ ''<script'' @ attrs) = CHR ''>''"
      by (simp only: nth_append_length append_Cons)
    ultimately show False using a by (simp add: ascii_lower_char_def)
  qed
  ultimately have "match_at attrs ''application/ld+json'' (at - length (pre @ ''<script''))"
    using at(3) by (intro match_at_outside [of "pre @ ''<script''" attrs "''>'' @ rest"]) (auto simp: ascii_lower_char_def)
  then show ?R by (auto simp: contains_ci_iff)
next
  assume ?R
  then obtain i where i: "match_at attrs ''application/ld+json'' i" by (auto simp: contains_ci_iff)
  then have "i < length attrs" by (simp add: match_at_def)
  moreover have "match_at (attrs @ ''>'' @ rest) ''application/ld+json'' i"
    using i by (subst match_at_append1) (auto simp: match_at_def)
  then have "match_at ((pre @ ''<script'') @ attrs @ ''>'' @ rest) ''application/ld+json'' (length (pre @ ''<script'') + i)"
    by (simp only: match_at_append2)
  ultimately show ?L by (intro exI [of _ "length (pre @ ''<script'') + i"]) simp
qed

lemma script_round_render:
  assumes "\<not> contains_ci ''<script'' pre" "CHR ''>'' \<notin> set attrs" "\<not> contains_ci ''</script'' body"
  shows "script_round (pre @ ''<script'' @ attrs @ ''>'' @ body @ ''</script'' @ rest) 0 =
    Some (if contains_ci ''application/ld+json'' attrs then Some body else None,
      length (pre @ ''<script'' @ attrs @ ''>'' @ body))"
proof -
  define h where "h = pre @ ''<script'' @ attrs @ ''>'' @ body @ ''</script'' @ rest"
  define g where "g = length (pre @ ''<script'' @ attrs)"
  have g: "Suc g = length (pre @ ''<script'' @ attrs @ ''>'')" by (simp add: g_def)
  have "find_ascii_ci h ''<script'' 0 = Some (length pre)"
    unfolding h_def using find_ascii_ci_first [OF assms(1), of "attrs @ ''>'' @ body @ ''</script'' @ rest"] by (simp add: ascii_lower_char_def)
  moreover have "find_ascii_ci h ''>'' (length pre) = Some g"
  proof -
    have "\<not> match_at (''<script'' @ attrs) ''>'' i" for i
    proof
      assume m: "match_at (''<script'' @ attrs) ''>'' i"
      have "(''<script'' @ attrs) ! i = CHR ''>''"
      proof (rule ascii_lower_keep)
        have "ascii_lower_char (CHR ''>'') = CHR ''>''" by (simp add: ascii_lower_char_def)
        with match_at_nth [OF m, of 0] show "ascii_lower_char ((''<script'' @ attrs) ! i) = CHR ''>''" by (simp only: add_0_right nth_Cons_0 list.size)
      qed simp
      moreover have "(''<script'' @ attrs) ! i \<in> set (''<script'' @ attrs)" using m by (intro nth_mem) (simp add: match_at_def)
      ultimately show False using assms(2) by auto
    qed
    then have "\<not> contains_ci ''>'' (''<script'' @ attrs)" by (simp add: contains_ci_iff)
    then show ?thesis unfolding h_def g_def using find_ascii_ci_after [of "CHR ''>''" "[]" "''<script'' @ attrs" pre "body @ ''</script'' @ rest"] by simp
  qed
  moreover have "find_ascii_ci h ''</script'' (Suc g) = Some (Suc g + length body)"
    unfolding h_def g using find_ascii_ci_after [OF assms(3), of "pre @ ''<script'' @ attrs @ ''>''" rest] by (simp add: ascii_lower_char_def)
  ultimately have "script_round h 0 =
    Some (if \<exists>at. length pre \<le> at \<and> at < Suc g \<and> match_at h ''application/ld+json'' at
          then Some (take (Suc g + length body - Suc g) (drop (Suc g) h)) else None, Suc g + length body)"
    by (rule script_round_eq)
  moreover have "drop (Suc g) h = body @ ''</script'' @ rest"
  proof -
    have "h = (pre @ ''<script'' @ attrs @ ''>'') @ body @ ''</script'' @ rest" by (simp add: h_def)
    then show ?thesis unfolding g by (simp only: drop_front)
  qed
  moreover have "(\<exists>at. length pre \<le> at \<and> at < Suc g \<and> match_at h ''application/ld+json'' at) \<longleftrightarrow> contains_ci ''application/ld+json'' attrs"
    unfolding g h_def using ld_json_in_tag [OF assms(2), of pre "body @ ''</script'' @ rest"] by simp
  moreover have "Suc g + length body = length (pre @ ''<script'' @ attrs @ ''>'' @ body)" by (simp add: g)
  ultimately show ?thesis unfolding h_def by simp
qed

lemma no_script_after_close: "\<not> contains_ci ''<script'' pre \<Longrightarrow> \<not> contains_ci ''<script'' (''</script'' @ pre)"
  by (simp add: contains_ci_def ascii_lower_def ascii_lower_char_def starts_with_def)

lemma script_round_none: "\<not> contains_ci ''<script'' h \<Longrightarrow> script_round h 0 = None"
  using find_ascii_ci_None_iff [of "''<script''" h 0] by (simp add: contains_ci_iff script_round_def)

lemma render_after:
  assumes "scripts_ok segs tail"
  obtains segs' tail' where "''</script'' @ render segs tail = render segs' tail'" "scripts_ok segs' tail'"
    "map (\<lambda>(pre, attrs, body). (attrs, body)) segs' = map (\<lambda>(pre, attrs, body). (attrs, body)) segs"
proof (cases segs)
  case Nil
  show thesis
    by (rule that [of "[]" "''</script'' @ tail"]) (use Nil assms no_script_after_close [of tail] in \<open>simp_all add: scripts_ok_def\<close>)
next
  case (Cons x rest)
  obtain pre attrs body where x: "x = (pre, attrs, body)" by (cases x)
  show thesis
    by (rule that [of "(''</script'' @ pre, attrs, body) # rest" tail])
      (use Cons x assms no_script_after_close [of pre] in \<open>simp_all add: scripts_ok_def\<close>)
qed

section \<open>Properties\<close>

text \<open>C35: reading the scripts of a page ends for every page and finds exactly the contents of the script elements
  whose opening tag mentions \<open>application/ld+json\<close>, in order, with that type written in any case.\<close>
theorem script_blocks_exact:
  assumes "scripts_ok segs tail"
  shows "script_blocks (render segs tail) =
    map (\<lambda>(pre, attrs, body). body) (filter (\<lambda>(pre, attrs, body). contains_ci ''application/ld+json'' attrs) segs)"
  using assms
proof (induction "length segs" arbitrary: segs tail)
  case 0
  then show ?case by (simp add: scripts_ok_def script_blocks_def script_loop.simps [of tail 0] script_round_none)
next
  case (Suc n)
  then obtain pre attrs body rest where segs: "segs = (pre, attrs, body) # rest" by (cases segs) auto
  have ok: "\<not> contains_ci ''<script'' pre" "CHR ''>'' \<notin> set attrs" "\<not> contains_ci ''</script'' body" "scripts_ok rest tail"
    using Suc.prems by (auto simp: segs scripts_ok_def)
  obtain segs' tail' where r: "''</script'' @ render rest tail = render segs' tail'" "scripts_ok segs' tail'"
      "map (\<lambda>(pre, attrs, body). (attrs, body)) segs' = map (\<lambda>(pre, attrs, body). (attrs, body)) rest"
    using render_after [OF ok(4)] by blast
  let ?pick = "\<lambda>ps. map snd (filter (\<lambda>(attrs, body). contains_ci ''application/ld+json'' attrs) ps)"
  have pick: "map (\<lambda>(pre, attrs, body). body) (filter (\<lambda>(pre, attrs, body). contains_ci ''application/ld+json'' attrs) xs) =
      ?pick (map (\<lambda>(pre, attrs, body). (attrs, body)) xs)" for xs :: "(string \<times> string \<times> string) list"
    by (induction xs) auto
  have "length segs' = n" using Suc.hyps(2) map_eq_imp_length_eq [OF r(3)] by (simp add: segs)
  then have IH: "script_blocks (render segs' tail') = ?pick (map (\<lambda>(pre, attrs, body). (attrs, body)) rest)"
    using Suc.hyps(1) [of segs' tail'] r(2,3) by (simp only: pick)
  have "drop (length (pre @ ''<script'' @ attrs @ ''>'' @ body)) (render segs tail) = render segs' tail'"
  proof -
    have "render segs tail = (pre @ ''<script'' @ attrs @ ''>'' @ body) @ render segs' tail'"
      unfolding segs render.simps r(1) [symmetric] by simp
    then show ?thesis by (simp only: drop_front)
  qed
  moreover have "script_blocks (render segs tail) = (if contains_ci ''application/ld+json'' attrs then [body] else []) @
      script_blocks (drop (length (pre @ ''<script'' @ attrs @ ''>'' @ body)) (render segs tail))"
    using script_blocks_step [OF script_round_render [OF ok(1,2,3)], of "render rest tail"] unfolding segs render.simps by simp
  ultimately show ?case unfolding pick by (simp add: IH segs)
qed

theorem script_blocks_exact_witness:
  "script_blocks ''<p><script type=application/LD+json>{}</script><script>x</script></p>'' = [''{}'']"
proof -
  let ?segs = "[(''<p>'', '' type=application/LD+json'', ''{}''), (''>'', [], ''x'')]"
  have "scripts_ok ?segs ''></p>''" by code_simp
  moreover have "contains_ci ''application/ld+json'' '' type=application/LD+json''" "\<not> contains_ci ''application/ld+json'' []" by code_simp+
  ultimately show ?thesis using script_blocks_exact [of ?segs "''></p>''"] by simp
qed

lemma structured_is_trusted_iff:
  assumes "structured_is_trusted c m = Ok t"
  shows "t \<longleftrightarrow> (\<exists>r. find_msg c m = Some r \<and> get_showpadlock r \<and> is_trusted c (m_from_id r) = Ok True)"
  using assms
  by (auto simp: structured_is_trusted_def message_crypto_of_def msg_load_def Let_def split: result.splits option.splits if_splits)

lemma dedup_by_id: "distinct (map f xs) \<Longrightarrow> dedup_by f xs = xs"
proof (induction f xs rule: dedup_by.induct)
  case (2 f x xs)
  then have "filter (\<lambda>y. f y \<noteq> f x) xs = xs" by (intro filter_True) (auto simp: image_iff)
  with 2 show ?case by simp
qed simp

lemma structured_store_rows:
  assumes "structured_is_trusted c m = Ok t"
  shows "tbl_structured_data (snd (structured_store parse_mail js m d raw c)) = tbl_structured_data c @
    filter (\<lambda>r. (sd_msg_id r, sd_seq r) \<notin> (\<lambda>r. (sd_msg_id r, sd_seq r)) ` set (tbl_structured_data c))
      (map (structured_row_of m t) (extract_objects parse_mail js d raw))"
proof -
  let ?key = "\<lambda>r. (sd_msg_id r, sd_seq r)"
  let ?rows = "map (structured_row_of m t) (extract_objects parse_mail js d raw)"
  have "map (\<lambda>x. (m, fst x)) (extract_objects parse_mail js d raw) = map ?key ?rows"
    by (simp add: structured_row_of_def split_beta)
  moreover have "distinct (map fst (extract_objects parse_mail js d raw))"
    by (simp add: extract_objects_def objects_in_def Let_def split: option.split)
  then have "distinct (map (\<lambda>x. (m, fst x)) (extract_objects parse_mail js d raw))"
    by (simp add: distinct_map inj_on_def)
  ultimately have "distinct (map ?key ?rows)" by (simp only:)
  then have "dedup_by ?key (filter p ?rows) = filter p ?rows" for p by (simp add: dedup_by_id distinct_map_filter)
  moreover have "fold (\<lambda>x. insert_or_ignore ?key (structured_row_of m t x)) xs tb = fold (insert_or_ignore ?key) (map (structured_row_of m t) xs) tb" for xs tb
    by (simp add: fold_map comp_def)
  ultimately show ?thesis using assms by (auto simp: structured_store_def Let_def fold_insert_or_ignore)
qed

lemma structured_store_appends:
  "\<exists>rows. tbl_structured_data (snd (structured_store parse_mail js m d raw c)) = tbl_structured_data c @ rows \<and>
    (\<forall>r \<in> set rows. sd_msg_id r = m)"
proof (cases "structured_is_trusted c m")
  case (Ok t)
  show ?thesis unfolding structured_store_rows [OF Ok] by (auto simp: structured_row_of_def split_beta)
qed (auto simp: structured_store_def Let_def)

text \<open>C36: the structured objects of a message are those its source contains, in order, and may be acted on exactly
  if the message was encrypted and its sender was trusted when it was received. Storing them again, with
  whatever the sender has become and whatever the message is said to contain, leaves every object with the
  verdict it has; and nothing changes for other messages.\<close>
theorem verdict_at_receipt:
  assumes "m \<notin> sd_msg_id ` set (tbl_structured_data c)" and "structured_store parse_mail js m d raw c = (Ok (), c')"
    and "tbl_structured_data c2 = tbl_structured_data c'"
  shows "structured_of_msg c' m =
      map (\<lambda>(s, json, src). \<lparr>so_seq = s, so_json = json,
        so_trusted = (\<exists>r. find_msg c m = Some r \<and> get_showpadlock r \<and> is_trusted c (m_from_id r) = Ok True), so_source = src\<rparr>)
      (extract_objects parse_mail js d raw) \<and>
    set (structured_of_msg c' m) \<subseteq> set (structured_of_msg (snd (structured_store parse_mail js m d2 raw2 c2)) m) \<and>
    (\<forall>n. n \<noteq> m \<longrightarrow> structured_of_msg (snd (structured_store parse_mail js m d2 raw2 c2)) n = structured_of_msg c n)"
proof (intro conjI allI impI)
  let ?found = "extract_objects parse_mail js d raw"
  let ?verdict = "\<exists>r. find_msg c m = Some r \<and> get_showpadlock r \<and> is_trusted c (m_from_id r) = Ok True"
  let ?rows = "map (structured_row_of m ?verdict) ?found"
  have none: "filter (\<lambda>r. sd_msg_id r = m) (tbl_structured_data c) = []" using assms(1) by (auto simp: filter_empty_conv)
  have tbl: "tbl_structured_data c' = tbl_structured_data c @ ?rows"
  proof (cases "?found = []")
    case False
    then obtain t where t: "structured_is_trusted c m = Ok t"
      using assms(2) by (auto simp: structured_store_def Let_def split: result.splits)
    have "filter (\<lambda>r. (sd_msg_id r, sd_seq r) \<notin> (\<lambda>r. (sd_msg_id r, sd_seq r)) ` set (tbl_structured_data c))
        (map (structured_row_of m t) ?found) = map (structured_row_of m t) ?found"
      using assms(1) by (intro filter_True) (auto simp: structured_row_of_def)
    then show ?thesis
      using structured_store_rows [OF t, of parse_mail js d raw] assms(2) structured_is_trusted_iff [OF t] by simp
  qed (use assms(2) in \<open>simp add: structured_store_def\<close>)
  have "map fst ?found = [0..<length ?found]"
    by (simp add: extract_objects_def objects_in_def Let_def split: option.split)
  then have "sorted (map sd_seq ?rows)" by (simp add: comp_def structured_row_of_def split_beta cong: map_cong)
  then show "structured_of_msg c' m = map (\<lambda>(s, json, src). \<lparr>so_seq = s, so_json = json, so_trusted = ?verdict, so_source = src\<rparr>) ?found"
    by (simp add: structured_of_msg_def tbl none filter_True sort_key_id_if_sorted structured_row_of_def split_beta comp_def)
  obtain rows where rows: "tbl_structured_data (snd (structured_store parse_mail js m d2 raw2 c2)) = tbl_structured_data c' @ rows"
      "\<forall>r \<in> set rows. sd_msg_id r = m"
    using structured_store_appends [of parse_mail js m d2 raw2 c2] assms(3) by auto
  show "set (structured_of_msg c' m) \<subseteq> set (structured_of_msg (snd (structured_store parse_mail js m d2 raw2 c2)) m)"
    by (auto simp: structured_of_msg_def rows(1))
  fix n assume n: "n \<noteq> m"
  then have "filter (\<lambda>r. sd_msg_id r = n) (?rows @ rows) = []"
    using rows(2) by (auto simp: filter_empty_conv structured_row_of_def)
  then show "structured_of_msg (snd (structured_store parse_mail js m d2 raw2 c2)) n = structured_of_msg c n"
    by (simp add: structured_of_msg_def rows(1) tbl)
qed

definition parcel_mail :: ctx where
  "parcel_mail = fresh_db\<lparr>tbl_contacts := [stranger\<lparr>c_origin := AddressBook\<rparr>],
     tbl_msgs := [(default_msg 12)\<lparr>m_chat_id := 10, m_state := InFresh, m_from_id := 10, m_param := set_int Param_GuaranteeE2ee 1 (m_param (default_msg 12))\<rparr>]\<rparr>"

definition plain_json :: "string serde_json" where
  "plain_json = \<lparr>from_str = Some, at_graph = (\<lambda>_. None), to_str = id\<rparr>"

definition whole_part :: "string \<Rightarrow> parsed_mail option" where
  "whole_part raw = Some (ParsedMail ''application/ld+json'' (Some ''Machine-Readable; v=1'') (Some raw) [])"

lemma extract_whole_part: "extract_objects whole_part plain_json [] raw = [(0, raw, Mixed)]"
proof -
  have "strip_prefix ''multipart/'' (ascii_lower ''application/ld+json'') = None" "ascii_lower ''application/ld+json'' = ''application/ld+json''"
    by code_simp+
  moreover have "is_machine_readable (ParsedMail ''application/ld+json'' (Some ''Machine-Readable; v=1'') (Some raw) [])"
  proof -
    have "eq_ignore_ascii_case (trim (hd (split_char (CHR '';'') ''Machine-Readable; v=1''))) ''machine-readable''" by code_simp
    then show ?thesis by (simp only: is_machine_readable_def parsed_mail.sel option.case)
  qed
  ultimately show ?thesis
    by (simp add: extract_objects_def objects_in_def whole_part_def walk.simps push_json_def plain_json_def)
qed

theorem verdict_at_receipt_witness:
  "let c' = snd (structured_store whole_part plain_json 12 [] ''{}'' parcel_mail);
       c2 = c'\<lparr>tbl_contacts := []\<rparr>
   in structured_of_msg c' 12 = [\<lparr>so_seq = 0, so_json = ''{}'', so_trusted = True, so_source = Mixed\<rparr>] \<and>
      set (structured_of_msg c' 12) \<subseteq> set (structured_of_msg (snd (structured_store whole_part plain_json 12 [] ''[]'' c2)) 12)"
proof -
  let ?c' = "snd (structured_store whole_part plain_json 12 [] ''{}'' parcel_mail)"
  have new: "12 \<notin> sd_msg_id ` set (tbl_structured_data parcel_mail)" by (simp add: parcel_mail_def fresh_db_def)
  have trusted: "structured_is_trusted parcel_mail 12 = Ok True"
  proof -
    have contact: "get_by_id parcel_mail 10 = Ok (stranger\<lparr>c_origin := AddressBook\<rparr>)"
      by (simp add: parcel_mail_def get_by_id_def get_by_id_optional_def find_contact_def stranger_def id_consts)
    then have "is_trusted parcel_mail 10 = Ok True" by (simp add: is_trusted_def is_known_def origin_order id_consts)
    moreover have "message_crypto_of parcel_mail 12 = Ok \<lparr>mc_encrypted = True, mc_signed = True, mc_verified = False\<rparr>" by code_simp
    moreover have "map_option m_from_id (find_msg parcel_mail 12) = Some 10" by code_simp
    ultimately show ?thesis by (auto simp: structured_is_trusted_def)
  qed
  have ok: "structured_store whole_part plain_json 12 [] ''{}'' parcel_mail = (Ok (), ?c')"
    by (simp add: structured_store_def Let_def extract_whole_part trusted)
  note v = verdict_at_receipt [OF new ok, of "?c'\<lparr>tbl_contacts := []\<rparr>" "[]" "''[]''"]
  have "\<exists>r. find_msg parcel_mail 12 = Some r \<and> get_showpadlock r \<and> is_trusted parcel_mail (m_from_id r) = Ok True"
    using structured_is_trusted_iff [OF trusted] by simp
  moreover have "tbl_structured_data (?c'\<lparr>tbl_contacts := []\<rparr>) = tbl_structured_data ?c'" by simp
  ultimately show ?thesis using v unfolding Let_def extract_whole_part by auto
qed

end
