(* ===== verification/Autocrypt.thy ===== *)
theory Autocrypt
  imports Compose
begin

text \<open>
  \<open>email/autocrypt.rs\<close>: the key a sender advertises in a header is attached to a contact, by
  \<open>Contact::add_or_lookup_ext\<close> with a fingerprint. Of a parsed message it reads the fields of
  \<open>mime_message\<close> given here; the fingerprint of the account's own key, whose loading can fail, is
  a parameter.
\<close>

record mime_message =
  mm_signature :: "string option"
  mm_autocrypt_fingerprint :: "string option"
  mm_from :: single_info
  mm_header_recipients :: header_recipients
  mm_header_raw :: "string \<Rightarrow> string option"
  mm_decoded_data :: bytes

definition insert_contact_ext :: "string \<Rightarrow> string \<Rightarrow> string \<Rightarrow> origin \<Rightarrow> bool \<Rightarrow> ctx \<Rightarrow> ctx" where
  "insert_contact_ext name addr fingerprint orig manual c =
    c\<lparr>tbl_contacts := tbl_contacts c @ [\<lparr>c_id = Suc (contacts_seq c), c_name = (if manual then name else []),
        c_authname = (if manual then [] else name), c_addr = addr, c_origin = orig, c_blocked = False,
        c_last_seen = 0, c_fingerprint = fingerprint, c_verifier = 0\<rparr>],
      contacts_seq := Suc (contacts_seq c)\<rparr>"

definition lookup_ext :: "string \<Rightarrow> string \<Rightarrow> ctx \<Rightarrow> contact_row option" where
  "lookup_ext addr fingerprint c =
    List.find (\<lambda>r. c_fingerprint r = fingerprint \<and> (fingerprint \<noteq> [] \<or> addr_eq addr r)) (tbl_contacts c)"

definition add_or_lookup_ext :: "string result \<Rightarrow> string \<Rightarrow> string \<Rightarrow> string \<Rightarrow> origin \<Rightarrow> (ctx, contact_id) eff" where
  "add_or_lookup_ext self_fp name0 addr fingerprint origin0 c =
    (if addr = [] \<and> fingerprint = [] then (Err EmptyAddress, c)
     else if origin0 = Unknown then (Err MissingOrigin, c)
     else if is_configured c \<and> is_self_addr c addr then (Ok CONTACT_SELF, c)
     else case (if fingerprint \<noteq> [] \<and> is_configured c then self_fp else Ok []) of
       Err e \<Rightarrow> (Err e, c)
     | Ok own \<Rightarrow>
         if fingerprint \<noteq> [] \<and> is_configured c \<and> fingerprint = own then (Ok CONTACT_SELF, c)
         else
           let hide = (origin0 \<le> OutgoingTo \<and> noreply_addr addr);
               name = (if hide then [] else sanitize_name name0);
               orig = (if hide then Hidden else origin0);
               manual = (orig \<in> {ManuallyCreated, AddressBook, UnhandledQrScan})
           in case lookup_ext addr fingerprint c of
                Some r \<Rightarrow>
                  (Ok (c_id r),
                   case merge_contact name addr orig manual r of
                     None \<Rightarrow> c
                   | Some (r', named) \<Rightarrow>
                       let c1 = c\<lparr>tbl_contacts := update_where (\<lambda>x. c_id x = c_id r) (\<lambda>_. r') (tbl_contacts c)\<rparr>
                       in if named then update_chat_names (c_id r) c1 else c1)
              | None \<Rightarrow> (Ok (Suc (contacts_seq c)), insert_contact_ext name addr fingerprint orig manual c))"

definition adopt :: "string result \<Rightarrow> mime_message \<Rightarrow> (ctx, contact_id option) eff" where
  "adopt self_fp mime c =
    (if mm_signature mime \<noteq> None then (Ok None, c)
     else case mm_autocrypt_fingerprint mime of
       None \<Rightarrow> (Ok None, c)
     | Some fingerprint \<Rightarrow>
         if fingerprint = [] then (Ok None, c)
         else
           let addr = trim (si_addr (mm_from mime)) in
           if addr = [] \<or> is_self_addr c addr then (Ok None, c)
           else case add_or_lookup_ext self_fp (case si_display_name (mm_from mime) of Some n \<Rightarrow> n | None \<Rightarrow> [])
                  addr fingerprint IncomingUnknownFrom c of
               (Err e, c1) \<Rightarrow> (Err e, c1)
             | (Ok i, c1) \<Rightarrow> (Ok (Some i), c1))"

section \<open>Lemmas\<close>

text \<open>Without a fingerprint this is \<open>Contact::add_or_lookup\<close>.\<close>

lemma add_or_lookup_ext_address: "add_or_lookup_ext self_fp name addr [] orig c = add_or_lookup name addr orig c"
  unfolding add_or_lookup_ext_def add_or_lookup_def lookup_ext_def insert_contact_ext_def insert_contact_def by (simp add: Let_def)

lemma is_trusted_eqI: "(is_trusted c i = Ok True \<longleftrightarrow> is_trusted c' i = Ok True) \<Longrightarrow> is_trusted c i = is_trusted c' i"
  using is_trusted_total [of c i] is_trusted_total [of c' i] by auto

text \<open>A change of one contact that leaves it where it was if it is known changes nobody else's trust.\<close>

lemma trust_of_others:
  assumes wf: "wf_contacts c" "wf_contacts c'" and conf: "configured_addr c' = configured_addr c"
    and others: "\<And>x. c_id x \<noteq> i \<Longrightarrow> x \<in> set (tbl_contacts c') \<longleftrightarrow> x \<in> set (tbl_contacts c)"
    and known: "(\<lambda>x. (c_addr x, c_blocked x)) ` {x \<in> set (tbl_contacts c'). c_id x = i \<and> is_known (c_origin x)} =
      (\<lambda>x. (c_addr x, c_blocked x)) ` {x \<in> set (tbl_contacts c). c_id x = i \<and> is_known (c_origin x)}"
    and j: "j \<noteq> i"
  shows "is_trusted c' j = is_trusted c j"
proof (rule is_trusted_eqI)
  have f: "find_contact c' j = find_contact c j"
    using find_contact_iff [OF wf(1), of j] find_contact_iff [OF wf(2), of j] others j by (metis option.exhaust)
  have g: "get_by_id c' j = get_by_id c j" unfolding get_by_id_def get_by_id_optional_def conf f by (rule refl)
  have sub: "vouched c2 r" if v: "vouched c1 r" and rj: "c_id r = j"
      and o: "\<And>x. c_id x \<noteq> i \<Longrightarrow> x \<in> set (tbl_contacts c1) \<Longrightarrow> x \<in> set (tbl_contacts c2)"
      and k: "(\<lambda>x. (c_addr x, c_blocked x)) ` {x \<in> set (tbl_contacts c1). c_id x = i \<and> is_known (c_origin x)} =
        (\<lambda>x. (c_addr x, c_blocked x)) ` {x \<in> set (tbl_contacts c2). c_id x = i \<and> is_known (c_origin x)}" for c1 c2 r
  proof -
    obtain x where x: "c_addr r \<noteq> []" "x \<in> set (tbl_contacts c1)" "addr_eq (c_addr r) x" "c_id x \<noteq> c_id r"
        "c_id x > CONTACT_LAST_SPECIAL" "\<not> c_blocked x" "is_known (c_origin x)"
      using v by (auto simp: vouched_def)
    show ?thesis
    proof (cases "c_id x = i")
      case False
      with x o show ?thesis by (auto simp: vouched_def)
    next
      case True
      with x have "(c_addr x, c_blocked x) \<in> (\<lambda>x. (c_addr x, c_blocked x)) ` {x \<in> set (tbl_contacts c2). c_id x = i \<and> is_known (c_origin x)}"
        unfolding k [symmetric] by blast
      then obtain y where "y \<in> set (tbl_contacts c2)" "c_id y = i" "is_known (c_origin y)" "c_addr y = c_addr x" "c_blocked y = c_blocked x"
        by auto
      with x True show ?thesis by (auto simp: vouched_def addr_eq_def intro!: bexI [of _ y])
    qed
  qed
  have "vouched c' r \<longleftrightarrow> vouched c r" if "get_by_id c j = Ok r" for r
    using sub [of c' r c] sub [of c r c'] others known get_by_id_c_id [OF that] by blast
  then show "is_trusted c' j = Ok True \<longleftrightarrow> is_trusted c j = Ok True"
    unfolding is_trusted_iff [OF wf(1)] is_trusted_iff [OF wf(2)] f g by blast
qed

lemma merge_contact_incoming:
  assumes "merge_contact n a orig manual r = Some (r', b)" and "\<not> is_known orig"
  shows "is_known (c_origin r') \<longleftrightarrow> is_known (c_origin r)" and "is_known (c_origin r) \<Longrightarrow> c_addr r' = c_addr r"
    and "c_addr r' = a \<or> c_addr r' = c_addr r" and "c_verifier r' = c_verifier r"
proof -
  have less: "orig < x" if "is_known x" for x using assms(2) that by (simp add: is_known_def)
  obtain u w where r': "r' = r\<lparr>c_name := u, c_addr := (if orig \<ge> c_origin r \<and> a \<noteq> c_addr r then a else c_addr r),
      c_origin := (if orig > c_origin r then orig else c_origin r), c_authname := w\<rparr>"
    using if_Some_eq [OF assms(1) [unfolded merge_contact_def Let_def]] by blast
  show "is_known (c_origin r') \<longleftrightarrow> is_known (c_origin r)" using assms(2) less [of "c_origin r"] by (auto simp: r')
  show "is_known (c_origin r) \<Longrightarrow> c_addr r' = c_addr r" using less [of "c_origin r"] by (auto simp: r')
  show "c_addr r' = a \<or> c_addr r' = c_addr r" "c_verifier r' = c_verifier r" by (simp_all add: r')
qed

text \<open>What adopting a key does to the contacts: nothing, a new row at the end, or another version of the row
  with the fingerprint.\<close>

lemma adopt_cases:
  assumes "adopt self_fp mime c = (Ok (Some i), c')" "c' \<noteq> c"
  obtains fp a where "mm_signature mime = None" "mm_autocrypt_fingerprint mime = Some fp" "fp \<noteq> []"
    "a = trim (si_addr (mm_from mime))" "a \<noteq> []"
    "configured_addr c' = configured_addr c"
    "(\<exists>n orig. \<not> is_known orig \<and> i = Suc (contacts_seq c) \<and> lookup_ext a fp c = None \<and>
       tbl_contacts c' = tbl_contacts c @ [\<lparr>c_id = i, c_name = [], c_authname = n, c_addr = a, c_origin = orig, c_blocked = False,
         c_last_seen = 0, c_fingerprint = fp, c_verifier = 0\<rparr>]) \<or>
     (\<exists>r. lookup_ext a fp c = Some r \<and> c_id r = i \<and> (tbl_contacts c' = tbl_contacts c \<or>
       (\<exists>n orig r' b. \<not> is_known orig \<and> merge_contact n a orig False r = Some (r', b) \<and>
         tbl_contacts c' = update_where (\<lambda>x. c_id x = i) (\<lambda>_. r') (tbl_contacts c))))"
proof -
  obtain fp where fp: "mm_signature mime = None" "mm_autocrypt_fingerprint mime = Some fp" "fp \<noteq> []"
    using assms(1) by (auto simp: adopt_def split: if_splits option.splits)
  define a where "a = trim (si_addr (mm_from mime))"
  define n0 where "n0 = (case si_display_name (mm_from mime) of Some n \<Rightarrow> n | None \<Rightarrow> [])"
  have a: "a \<noteq> []" and add: "add_or_lookup_ext self_fp n0 a fp IncomingUnknownFrom c = (Ok i, c')"
    using assms(1) fp unfolding adopt_def a_def n0_def
    by (auto simp: Let_def split: if_splits prod.splits result.splits)
  define hide where "hide = (IncomingUnknownFrom \<le> OutgoingTo \<and> noreply_addr a)"
  define n where "n = (if hide then [] else sanitize_name n0)"
  define orig where "orig = (if hide then Hidden else IncomingUnknownFrom)"
  define manual where "manual = (orig \<in> {ManuallyCreated, AddressBook, UnhandledQrScan})"
  have orig: "\<not> is_known orig" "manual = False" by (simp_all add: orig_def manual_def is_known_def origin_order)
  have run: "(Ok i, c') = (case lookup_ext a fp c of
      Some r \<Rightarrow> (Ok (c_id r), case merge_contact n a orig False r of None \<Rightarrow> c
        | Some (r', named) \<Rightarrow> let c1 = c\<lparr>tbl_contacts := update_where (\<lambda>x. c_id x = c_id r) (\<lambda>_. r') (tbl_contacts c)\<rparr>
            in if named then update_chat_names (c_id r) c1 else c1)
    | None \<Rightarrow> (Ok (Suc (contacts_seq c)), insert_contact_ext n a fp orig False c))"
  proof -
    have "add_or_lookup_ext self_fp n0 a fp IncomingUnknownFrom c = (Ok CONTACT_SELF, c) \<or>
        \<not> is_ok (fst (add_or_lookup_ext self_fp n0 a fp IncomingUnknownFrom c)) \<or>
        add_or_lookup_ext self_fp n0 a fp IncomingUnknownFrom c = (case lookup_ext a fp c of
      Some r \<Rightarrow> (Ok (c_id r), case merge_contact n a orig manual r of None \<Rightarrow> c
        | Some (r', named) \<Rightarrow> let c1 = c\<lparr>tbl_contacts := update_where (\<lambda>x. c_id x = c_id r) (\<lambda>_. r') (tbl_contacts c)\<rparr>
            in if named then update_chat_names (c_id r) c1 else c1)
    | None \<Rightarrow> (Ok (Suc (contacts_seq c)), insert_contact_ext n a fp orig manual c))"
      unfolding add_or_lookup_ext_def Let_def hide_def [symmetric] n_def [symmetric] orig_def [symmetric] manual_def [symmetric]
      by (cases "if fp \<noteq> [] \<and> is_configured c then self_fp else Ok []") (simp_all only: result.case split: if_split, simp_all)
    then show ?thesis using add assms(2) unfolding orig(2) by (elim disjE) simp_all
  qed
  have "configured_addr c' = configured_addr c"
    using run by (auto simp: insert_contact_ext_def update_chat_names_def Let_def split: option.splits if_splits)
  moreover have "(\<exists>n orig. \<not> is_known orig \<and> i = Suc (contacts_seq c) \<and> lookup_ext a fp c = None \<and>
       tbl_contacts c' = tbl_contacts c @ [\<lparr>c_id = i, c_name = [], c_authname = n, c_addr = a, c_origin = orig, c_blocked = False,
         c_last_seen = 0, c_fingerprint = fp, c_verifier = 0\<rparr>])" if "lookup_ext a fp c = None"
    using run that orig(1) by (auto simp: insert_contact_ext_def)
  moreover have "tbl_contacts c' = tbl_contacts c \<or>
       (\<exists>n orig r' b. \<not> is_known orig \<and> merge_contact n a orig False r = Some (r', b) \<and>
         tbl_contacts c' = update_where (\<lambda>x. c_id x = i) (\<lambda>_. r') (tbl_contacts c))" "c_id r = i" if "lookup_ext a fp c = Some r" for r
  proof -
    show "c_id r = i" using run that by simp
    show "tbl_contacts c' = tbl_contacts c \<or>
       (\<exists>n orig r' b. \<not> is_known orig \<and> merge_contact n a orig False r = Some (r', b) \<and>
         tbl_contacts c' = update_where (\<lambda>x. c_id x = i) (\<lambda>_. r') (tbl_contacts c))"
    proof (cases "merge_contact n a orig False r")
      case (Some p)
      obtain r' b where "p = (r', b)" by force
      with Some run that have "tbl_contacts c' = update_where (\<lambda>x. c_id x = i) (\<lambda>_. r') (tbl_contacts c)" by (simp add: Let_def split: if_splits)
      with Some \<open>p = (r', b)\<close> orig(1) show ?thesis by blast
    qed (use run that in simp)
  qed
  ultimately show thesis
    using that [OF fp a_def a] by (cases "lookup_ext a fp c") auto
qed

lemma new_contact_id: "contacts_inv c \<Longrightarrow> x \<in> set (tbl_contacts c) \<Longrightarrow> c_id x \<noteq> Suc (contacts_seq c)"
  by (auto simp: contacts_inv_def)

lemma vouched_elsewhere:
  "vouched c r \<Longrightarrow> \<exists>x \<in> set (tbl_contacts c). addr_eq (c_addr r) x \<and> c_id x \<noteq> c_id r \<and> \<not> c_blocked x \<and> is_known (c_origin x)"
  by (auto simp: vouched_def)

lemma vouched_by_other:
  assumes wf: "wf_contacts c'" and i: "i > CONTACT_LAST_SPECIAL" and f: "find_contact c' i = Some r" and t: "is_trusted c' i = Ok True"
  shows "is_known (c_origin r) \<or> c_verifier r \<noteq> 0 \<or>
    (\<exists>x \<in> set (tbl_contacts c'). addr_eq (c_addr r) x \<and> c_id x \<noteq> i \<and> \<not> c_blocked x \<and> is_known (c_origin x))"
proof -
  have "get_by_id c' i = Ok r" "i \<noteq> CONTACT_SELF" "c_id r = i"
    using i f find_contact_Some [OF f] by (simp_all add: get_by_id_ordinary id_consts)
  with t f have "is_known (c_origin r) \<or> c_verifier r \<noteq> 0 \<or> vouched c' r"
    unfolding is_trusted_iff [OF wf] by auto
  then show ?thesis using vouched_elsewhere [of c' r] \<open>c_id r = i\<close> by auto
qed

lemma adopt_inserted:
  assumes inv: "contacts_inv c" and conf: "configured_addr c' = configured_addr c" and special: "i > CONTACT_LAST_SPECIAL"
    and orig: "\<not> is_known orig" and i: "i = Suc (contacts_seq c)"
    and tbl: "tbl_contacts c' = tbl_contacts c @ [\<lparr>c_id = i, c_name = [], c_authname = n, c_addr = a, c_origin = orig, c_blocked = False,
         c_last_seen = 0, c_fingerprint = fp, c_verifier = 0\<rparr>]" (is "_ = _ @ [?r]")
  shows "\<forall>j. j \<noteq> i \<longrightarrow> is_trusted c' j = is_trusted c j"
    and "is_trusted c' i = Ok True \<longrightarrow> is_trusted c i = Ok True \<or>
      (\<exists>x \<in> set (tbl_contacts c). addr_eq a x \<and> c_id x \<noteq> i \<and> \<not> c_blocked x \<and> is_known (c_origin x))"
proof -
  have wf: "wf_contacts c" using inv by (simp add: contacts_inv_def)
  have wf': "wf_contacts c'" 
  proof -
    have "i \<notin> c_id ` set (tbl_contacts c)" using new_contact_id [OF inv] i by blast
    with wf show ?thesis by (simp add: wf_contacts_def unique_key_def tbl)
  qed
  show "\<forall>j. j \<noteq> i \<longrightarrow> is_trusted c' j = is_trusted c j"
  proof (intro allI impI, rule trust_of_others [OF wf wf' conf])
    have none: "{x \<in> set (tbl_contacts c). c_id x = i \<and> is_known (c_origin x)} = {}"
        "{x \<in> set (tbl_contacts c'). c_id x = i \<and> is_known (c_origin x)} = {}"
      using new_contact_id [OF inv] orig i by (auto simp: tbl)
    show "(\<lambda>x. (c_addr x, c_blocked x)) ` {x \<in> set (tbl_contacts c'). c_id x = i \<and> is_known (c_origin x)} =
      (\<lambda>x. (c_addr x, c_blocked x)) ` {x \<in> set (tbl_contacts c). c_id x = i \<and> is_known (c_origin x)}"
      unfolding none by (rule refl)
  qed (auto simp: tbl)
  have f: "find_contact c' i = Some ?r" using find_contact_iff [OF wf', of i ?r] by (simp add: tbl)
  show "is_trusted c' i = Ok True \<longrightarrow> is_trusted c i = Ok True \<or>
      (\<exists>x \<in> set (tbl_contacts c). addr_eq a x \<and> c_id x \<noteq> i \<and> \<not> c_blocked x \<and> is_known (c_origin x))"
  proof
    assume t: "is_trusted c' i = Ok True"
    show "is_trusted c i = Ok True \<or>
      (\<exists>x \<in> set (tbl_contacts c). addr_eq a x \<and> c_id x \<noteq> i \<and> \<not> c_blocked x \<and> is_known (c_origin x))"
      using vouched_by_other [OF wf' special f t] orig by (auto simp: tbl)
  qed
qed

lemma adopt_updated:
  assumes inv: "contacts_inv c" and conf: "configured_addr c' = configured_addr c" and special: "i > CONTACT_LAST_SPECIAL"
    and r: "lookup_ext a fp c = Some r" "c_id r = i" and m: "\<not> is_known orig" "merge_contact n a orig False r = Some (r', b)"
    and tbl: "tbl_contacts c' = update_where (\<lambda>x. c_id x = i) (\<lambda>_. r') (tbl_contacts c)"
  shows "\<forall>j. j \<noteq> i \<longrightarrow> is_trusted c' j = is_trusted c j"
    and "is_trusted c' i = Ok True \<longrightarrow> is_trusted c i = Ok True \<or>
      (\<exists>x \<in> set (tbl_contacts c). addr_eq a x \<and> c_id x \<noteq> i \<and> \<not> c_blocked x \<and> is_known (c_origin x))"
proof -
  have wf: "wf_contacts c" using inv by (simp add: contacts_inv_def)
  have "r \<in> set (tbl_contacts c)" using find_Some_set [OF r(1) [unfolded lookup_ext_def]] by simp
  have only: "x = r" if "x \<in> set (tbl_contacts c)" "c_id x = i" for x
    using unique_key_inj [OF wf [unfolded wf_contacts_def] that(1) \<open>r \<in> set (tbl_contacts c)\<close>] that(2) r(2) by simp
  note k = merge_contact_key [OF m(2)] merge_contact_incoming [OF m(2,1)]
  have wf': "wf_contacts c'"
    using wf k(1) r(2) only unfolding wf_contacts_def tbl by (intro unique_key_update) auto
  have mem: "x \<in> set (tbl_contacts c') \<longleftrightarrow> (if c_id x = i then x = r' else x \<in> set (tbl_contacts c))" for x
    using \<open>r \<in> set (tbl_contacts c)\<close> r(2) k(1) by (auto simp: tbl image_iff)
  show "\<forall>j. j \<noteq> i \<longrightarrow> is_trusted c' j = is_trusted c j"
  proof (intro allI impI, rule trust_of_others [OF wf wf' conf])
    have "{x \<in> set (tbl_contacts c'). c_id x = i \<and> is_known (c_origin x)} = (if is_known (c_origin r) then {r'} else {})"
      using mem k(1,6) r(2) by auto
    moreover have "{x \<in> set (tbl_contacts c). c_id x = i \<and> is_known (c_origin x)} = (if is_known (c_origin r) then {r} else {})"
    proof -
      have "{x \<in> set (tbl_contacts c). c_id x = i} = {r}" using only r(2) \<open>r \<in> set (tbl_contacts c)\<close> by blast
      then show ?thesis by auto
    qed
    ultimately show "(\<lambda>x. (c_addr x, c_blocked x)) ` {x \<in> set (tbl_contacts c'). c_id x = i \<and> is_known (c_origin x)} =
      (\<lambda>x. (c_addr x, c_blocked x)) ` {x \<in> set (tbl_contacts c). c_id x = i \<and> is_known (c_origin x)}"
      using k(4,7) by simp
  qed (auto simp: mem)
  have f: "find_contact c i = Some r" "find_contact c' i = Some r'"
    using find_contact_iff [OF wf, of i r] find_contact_iff [OF wf', of i r'] mem [of r'] r(2) k(1) \<open>r \<in> set (tbl_contacts c)\<close> by auto
  have g: "get_by_id c i = Ok r" using special f(1) by (simp add: get_by_id_ordinary)
  show "is_trusted c' i = Ok True \<longrightarrow> is_trusted c i = Ok True \<or>
      (\<exists>x \<in> set (tbl_contacts c). addr_eq a x \<and> c_id x \<noteq> i \<and> \<not> c_blocked x \<and> is_known (c_origin x))"
  proof
    assume t: "is_trusted c' i = Ok True"
    show "is_trusted c i = Ok True \<or>
      (\<exists>x \<in> set (tbl_contacts c). addr_eq a x \<and> c_id x \<noteq> i \<and> \<not> c_blocked x \<and> is_known (c_origin x))"
    proof (cases "c_addr r' = a")
      case True
      from vouched_by_other [OF wf' special f(2) t] mem k(6,9) True show ?thesis
        unfolding is_trusted_iff [OF wf] using f(1) g by auto
    next
      case False
      then have addr: "c_addr r' = c_addr r" using k(8) by blast
      have "get_by_id c' i = Ok r'" "i \<noteq> CONTACT_SELF" using special f(2) by (simp_all add: get_by_id_ordinary id_consts)
      with t f(2) have "is_known (c_origin r') \<or> c_verifier r' \<noteq> 0 \<or> vouched c' r'"
        unfolding is_trusted_iff [OF wf'] by auto
      moreover have "vouched c r" if "vouched c' r'"
        using that addr mem r(2) k(1) by (auto simp: vouched_def)
      ultimately have "is_known (c_origin r) \<or> c_verifier r \<noteq> 0 \<or> vouched c r" using k(6,9) by auto
      then show ?thesis unfolding is_trusted_iff [OF wf] using f(1) g by blast
    qed
  qed
qed

text \<open>C37: attaching an advertised key to a contact opens the inbox to nobody but through an address: nobody
  else's standing changes, and the contact of the key is trusted afterwards only if it was before, or if
  the message names as its sender the address of another contact the user knows.\<close>
theorem adopt_trust:
  assumes inv: "contacts_inv c" and run: "adopt self_fp mime c = (Ok (Some i), c')" and i: "i > CONTACT_LAST_SPECIAL"
  shows "(\<forall>j. j \<noteq> i \<longrightarrow> is_trusted c' j = is_trusted c j) \<and>
    (is_trusted c' i = Ok True \<longrightarrow> is_trusted c i = Ok True \<or>
      (\<exists>x \<in> set (tbl_contacts c). addr_eq (trim (si_addr (mm_from mime))) x \<and> c_id x \<noteq> i \<and> \<not> c_blocked x \<and> is_known (c_origin x)))"
proof (cases "c' = c")
  case True
  then show ?thesis by simp
next
  case False
  obtain fp a where "mm_signature mime = None" "mm_autocrypt_fingerprint mime = Some fp" "fp \<noteq> []"
    and a: "a = trim (si_addr (mm_from mime))" "a \<noteq> []" and conf: "configured_addr c' = configured_addr c"
    and "(\<exists>n orig. \<not> is_known orig \<and> i = Suc (contacts_seq c) \<and> lookup_ext a fp c = None \<and>
       tbl_contacts c' = tbl_contacts c @ [\<lparr>c_id = i, c_name = [], c_authname = n, c_addr = a, c_origin = orig, c_blocked = False,
         c_last_seen = 0, c_fingerprint = fp, c_verifier = 0\<rparr>]) \<or>
     (\<exists>r. lookup_ext a fp c = Some r \<and> c_id r = i \<and> (tbl_contacts c' = tbl_contacts c \<or>
       (\<exists>n orig r' b. \<not> is_known orig \<and> merge_contact n a orig False r = Some (r', b) \<and>
         tbl_contacts c' = update_where (\<lambda>x. c_id x = i) (\<lambda>_. r') (tbl_contacts c))))"
    by (rule adopt_cases [OF run False])
  then consider (inserted) n orig where "\<not> is_known orig" "i = Suc (contacts_seq c)"
      "tbl_contacts c' = tbl_contacts c @ [\<lparr>c_id = i, c_name = [], c_authname = n, c_addr = a, c_origin = orig, c_blocked = False,
         c_last_seen = 0, c_fingerprint = fp, c_verifier = 0\<rparr>]"
    | (same) "tbl_contacts c' = tbl_contacts c"
    | (updated) r n orig r' b where "lookup_ext a fp c = Some r" "c_id r = i" "\<not> is_known orig" "merge_contact n a orig False r = Some (r', b)"
        "tbl_contacts c' = update_where (\<lambda>x. c_id x = i) (\<lambda>_. r') (tbl_contacts c)"
    by blast
  then show ?thesis
  proof cases
    case same
    then show ?thesis using contact_lookup_frame(2) [OF same conf] by simp
  next
    case inserted
    then show ?thesis using adopt_inserted [OF inv conf i inserted] by (auto simp: a(1))
  next
    case updated
    then show ?thesis using adopt_updated [OF inv conf i updated] by (auto simp: a(1))
  qed
qed

text \<open>A stranger's key contact, and a friend of the user; the stranger writes under the friend's address and
  advertises the key.\<close>

definition friend_and_stranger :: ctx where
  "friend_and_stranger = fresh_db\<lparr>tbl_contacts :=
     [stranger\<lparr>c_fingerprint := ''AB''\<rparr>, stranger\<lparr>c_id := 11, c_addr := ''alice@example.org'', c_origin := IncomingReplyTo\<rparr>],
     contacts_seq := 11\<rparr>"

definition borrowed_from :: mime_message where
  "borrowed_from = \<lparr>mm_signature = None, mm_autocrypt_fingerprint = Some ''AB'',
     mm_from = \<lparr>si_addr = ''alice@example.org'', si_display_name = None\<rparr>,
     mm_header_recipients = \<lparr>hr_to = [], hr_cc = []\<rparr>, mm_header_raw = (\<lambda>_. None), mm_decoded_data = []\<rparr>"

theorem adopt_trust_witness:
  "let c' = snd (adopt (Ok ''CD'') borrowed_from friend_and_stranger)
   in is_trusted friend_and_stranger 10 = Ok False \<and> is_trusted c' 10 = Ok True \<and>
      is_trusted c' 11 = is_trusted friend_and_stranger 11 \<and>
      (\<exists>x \<in> set (tbl_contacts friend_and_stranger). addr_eq ''alice@example.org'' x \<and> is_known (c_origin x))"
proof -
  let ?c = "friend_and_stranger"
  let ?c' = "snd (adopt (Ok ''CD'') borrowed_from ?c)"
  have inv: "contacts_inv ?c" by (simp add: friend_and_stranger_def contacts_inv_def wf_contacts_def unique_key_def stranger_def)
  have "fst (adopt (Ok ''CD'') borrowed_from ?c) = Ok (Some 10)" by code_simp
  then have run: "adopt (Ok ''CD'') borrowed_from ?c = (Ok (Some 10), ?c')" by (metis prod.collapse)
  have sp: "(10::nat) > CONTACT_LAST_SPECIAL" by (simp add: id_consts)
  have "trim (si_addr (mm_from borrowed_from)) = ''alice@example.org''" by code_simp
  note p = adopt_trust [OF inv run sp, unfolded this]
  have "is_trusted ?c 10 = Ok False" "is_trusted ?c' 10 = Ok True" by code_simp+
  with p show ?thesis by (auto simp: Let_def)
qed

end
