(* ===== verification/Pipeline.thy ===== *)
theory Pipeline
  imports Label_Sync Tags Compose Threading Rawmime Structured Autocrypt
begin

text \<open>
  Where the components meet: the hooks the receive path runs on a message it has stored
  (\<open>receive_imf.rs\<close>), and the pass over the side tables in housekeeping (\<open>sql.rs\<close>). Both run every
  step whatever became of the one before. The hash of blobs, the cipher and its random numbers, the
  MIME parser, the JSON library and the account's own fingerprint are arguments.
\<close>

section \<open>The hooks\<close>

record 'j environment =
  env_hash :: "bytes \<Rightarrow> string"
  env_aead :: aead
  env_random :: random
  env_parse_mail :: "bytes \<Rightarrow> parsed_mail option"
  env_json :: "'j serde_json"
  env_self_fingerprint :: "string result"

definition receive_message :: "'j environment \<Rightarrow> mime_message \<Rightarrow> bytes \<Rightarrow> msg_id \<Rightarrow> ctx \<Rightarrow> ctx" where
  "receive_message E mime imf_raw m c =
    (let c1 = rawmime_store (env_hash E) (env_aead E) (env_random E) m imf_raw c;
         c2 = recipients_store m (to_recipients (mm_header_recipients mime)) c1;
         c3 = best_effort (assign_stored m) c2;
         c4 = drain_pending m c3;
         c5 = best_effort (gating_apply m) c4;
         c6 = importance_set m (from_headers (mm_header_raw mime ''importance'') (mm_header_raw mime ''x-priority'')
                (mm_header_raw mime ''priority'')) c5;
         c7 = best_effort (blocklist_apply m) c6
     in best_effort (structured_store (env_parse_mail E) (env_json E) m (mm_decoded_data mime) imf_raw) c7)"

definition receive_hooks :: "'j environment \<Rightarrow> mime_message \<Rightarrow> bytes \<Rightarrow> string \<Rightarrow> msg_id list \<Rightarrow> ctx \<Rightarrow> ctx" where
  "receive_hooks E mime imf_raw rfc724_mid_orig ids c =
    (let c1 = fold (receive_message E mime imf_raw) ids c;
         c2 = best_effort (adopt (env_self_fingerprint E) mime) c1
     in apply_server_retention rfc724_mid_orig c2)"

section \<open>Housekeeping\<close>

definition prune_tombstones :: "ctx \<Rightarrow> ctx" where
  "prune_tombstones c =
    c\<lparr>tbl_msgs := delete_where
        (\<lambda>r. m_chat_id r = DC_CHAT_ID_TRASH \<and> m_timestamp r \<le> saturating_sub (clock c) (2 * 24 * 3600) \<and>
             \<not> exists_where (\<lambda>i. m_rfc724_mid r = Some (im_rfc724_mid i) \<and> im_target i \<noteq> []) (tbl_imap c))
        (tbl_msgs c)\<rparr>"

text \<open>The part of \<open>housekeeping\<close> that concerns the email layer, in its order.\<close>

definition housekeeping_tables :: "ctx \<Rightarrow> ctx" where
  "housekeeping_tables c =
    (let c1 = snd (rawmime_expire c);
         c2 = recipients_prune c1;
         c3 = threading_prune c2;
         c4 = labels_prune c3;
         c5 = snd (expire_on_server c4);
         c6 = policy_prune c5
     in receipts_prune c6)"

definition housekeeping_email :: "ctx \<Rightarrow> ctx" where
  "housekeeping_email c = structured_prune (best_effort purge (best_effort sweep (housekeeping_tables c)))"

section \<open>Hooks that do not place a message\<close>

text \<open>What decides where a message is found: the message and contact rows, the labels, the settings and the
  blocklist.\<close>

definition placement where
  "placement c = ((clock c, env_var c, tbl_config c, configured_addr c),
     (tbl_msgs c, tbl_contacts c, tbl_blocklist c),
     (tbl_labels c, labels_seq c, tbl_msg_labels c, tbl_pending_msg_labels c))"

lemma placement_eqD:
  assumes "placement c' = placement c"
  shows "clock c' = clock c" "env_var c' = env_var c" "tbl_config c' = tbl_config c" "configured_addr c' = configured_addr c"
    "tbl_msgs c' = tbl_msgs c" "tbl_contacts c' = tbl_contacts c" "tbl_blocklist c' = tbl_blocklist c"
    "tbl_labels c' = tbl_labels c" "labels_seq c' = labels_seq c" "tbl_msg_labels c' = tbl_msg_labels c"
    "tbl_pending_msg_labels c' = tbl_pending_msg_labels c"
  using assms by (simp_all add: placement_def)

lemma must_hold_cong:
  assumes "env_var c' = env_var c" "tbl_config c' = tbl_config c" "configured_addr c' = configured_addr c"
    "tbl_msgs c' = tbl_msgs c" "tbl_contacts c' = tbl_contacts c"
  shows "must_hold c' m = must_hold c m"
proof -
  have "gating_is_enabled c' = gating_is_enabled c"
    by (simp add: gating_is_enabled_def get_config_bool_frame [OF assms(1,2)])
  moreover have "find_msg c' m = find_msg c m" by (simp add: find_msg_def assms)
  ultimately show ?thesis by (simp add: must_hold_def contact_lookup_frame(2) [OF assms(5,3)])
qed

lemma must_block_cong:
  assumes "configured_addr c' = configured_addr c" "tbl_msgs c' = tbl_msgs c" "tbl_contacts c' = tbl_contacts c"
    "tbl_blocklist c' = tbl_blocklist c"
  shows "must_block c' m = must_block c m"
proof -
  have "matches c' a = matches c a" for a unfolding matches_def assms by (rule refl)
  moreover have "find_msg c' m = find_msg c m" by (simp add: find_msg_def assms)
  ultimately show ?thesis by (simp add: must_block_def contact_lookup_frame(1) [OF assms(3,1)])
qed

locale enrichment =
  fixes hook :: "ctx \<Rightarrow> ctx"
  assumes quiet: "placement (hook c) = placement c"
begin

lemmas kept = placement_eqD [OF quiet]

lemma hold_kept: "must_hold (hook c) m = must_hold c m"
  by (rule must_hold_cong) (simp_all add: kept)

lemma block_kept: "must_block (hook c) m = must_block c m"
  by (rule must_block_cong) (simp_all add: kept)

lemma tag_kept: "has_tag n (hook c) = has_tag n c"
  by (rule has_tag_cong) (simp_all add: kept)

lemma labels_inv_kept: "labels_inv c \<Longrightarrow> labels_inv (hook c)"
  by (rule labels_inv_frame) (simp_all add: kept)

end

interpretation rm: enrichment "rawmime_store H A R m raw" for H A R m raw
  by unfold_locales (simp add: rawmime_store_def store_with_retention_def create_and_deduplicate_from_bytes_def Let_def
      best_effort_def protect_def ensure_key_def convert_def write_file_def placement_def split: prod.split result.split option.split)

interpretation rc: enrichment "recipients_store m rs" for m rs
  by unfold_locales (simp add: recipients_store_def placement_def)

lemma merge_all_placement: "placement (snd (merge_all s ls c)) = placement c"
proof (induction s ls c rule: merge_all.induct)
  case (2 s l ls c)
  then show ?case by (simp add: merge_thread_def placement_def split: prod.splits result.splits)
qed simp

interpretation th: enrichment "best_effort (assign_stored m)" for m
proof unfold_locales
  have "placement (snd (assign m h c)) = placement c" for h c
    using merge_all_placement
    by (auto simp: assign_def Let_def place_def placement_def split: list.split prod.split result.split) (metis snd_conv)+
  then show "placement (best_effort (assign_stored m) c) = placement c" for c
    by (simp add: assign_stored_def best_effort_def split: option.split prod.split result.split) (metis snd_conv)
qed

interpretation im: enrichment "importance_set m i" for m i
  by unfold_locales (simp add: importance_set_def placement_def)

interpretation sd: enrichment "best_effort (structured_store P J m d raw)" for P J m d raw
  by unfold_locales (simp add: structured_store_def best_effort_def placement_def Let_def split: result.split)

interpretation sr: enrichment "apply_server_retention mid" for mid
  by unfold_locales (simp add: apply_server_retention_def delete_from_server_def placement_def Let_def split: server_retention.split)

section \<open>Placing received mail\<close>

lemma drain_frame [simp]:
  "clock (drain_pending m c) = clock c" "env_var (drain_pending m c) = env_var c" "tbl_config (drain_pending m c) = tbl_config c"
  "configured_addr (drain_pending m c) = configured_addr c" "tbl_msgs (drain_pending m c) = tbl_msgs c"
  "tbl_contacts (drain_pending m c) = tbl_contacts c" "tbl_blocklist (drain_pending m c) = tbl_blocklist c"
  "tbl_labels (drain_pending m c) = tbl_labels c" "tbl_structured_data (drain_pending m c) = tbl_structured_data c"
  by (simp_all add: drain_pending_def Let_def split: option.split)

text \<open>Draining depends on the message, on what is parked, and on the labels the message has.\<close>

lemma set_label_fold_cong:
  "(\<And>l. (m, l) \<in> set t \<longleftrightarrow> (m, l) \<in> set t') \<Longrightarrow>
    (m, l) \<in> set (fold (\<lambda>p. set_label_row (p_apply p) (p_label_id p) m) ps t) \<longleftrightarrow>
    (m, l) \<in> set (fold (\<lambda>p. set_label_row (p_apply p) (p_label_id p) m) ps t')"
proof (induction ps arbitrary: t t')
  case (Cons p ps)
  show ?case unfolding fold_simps by (rule Cons.IH) (simp add: set_label_row_iff Cons.prems)
qed simp

lemma set_label_fold_other:
  "m' \<noteq> m \<Longrightarrow> (m', l) \<in> set (fold (\<lambda>p. set_label_row (p_apply p) (p_label_id p) m) ps t) \<longleftrightarrow> (m', l) \<in> set t"
  by (induction ps arbitrary: t) (auto simp: set_label_row_iff)

lemma drain_other: "m' \<noteq> m \<Longrightarrow> (m', l) \<in> set (tbl_msg_labels (drain_pending m c)) \<longleftrightarrow> (m', l) \<in> set (tbl_msg_labels c)"
  by (auto simp: drain_pending_def Let_def set_label_fold_other split: option.splits)

lemma drain_cong:
  assumes "tbl_msgs c' = tbl_msgs c" "tbl_pending_msg_labels c' = tbl_pending_msg_labels c"
  shows "tbl_pending_msg_labels (drain_pending m c') = tbl_pending_msg_labels (drain_pending m c)"
    and "(\<And>l. (m, l) \<in> set (tbl_msg_labels c') \<longleftrightarrow> (m, l) \<in> set (tbl_msg_labels c)) \<Longrightarrow>
      (m, l) \<in> set (tbl_msg_labels (drain_pending m c')) \<longleftrightarrow> (m, l) \<in> set (tbl_msg_labels (drain_pending m c))"
  using assms set_label_fold_cong [of m "tbl_msg_labels c'" "tbl_msg_labels c"]
  by (auto simp: drain_pending_def find_msg_def Let_def split: option.splits)

lemma has_tag_rows:
  "tbl_labels c' = tbl_labels c \<Longrightarrow> (\<And>l. (m, l) \<in> set (tbl_msg_labels c') \<longleftrightarrow> (m, l) \<in> set (tbl_msg_labels c)) \<Longrightarrow>
    has_tag n c' m \<longleftrightarrow> has_tag n c m"
  by (simp add: has_tag_def by_name_def cong: option.case_cong)

lemma put_tag_other:
  assumes "labels_inv c" "n \<in> set RESERVED" "m \<notin> set ms"
  shows "(m, l) \<in> set (tbl_msg_labels (put_tag sy n ms a c)) \<longleftrightarrow> (m, l) \<in> set (tbl_msg_labels c)"
proof -
  obtain k where "put_tag sy n ms a c = set_ext ms k a sy c" using set_reserved_Ok [OF assms(1,2)] by metis
  then show ?thesis using assms(3) by (simp add: set_label_rows_iff)
qed

text \<open>\<open>placed S c d c'\<close>: \<open>c'\<close> is \<open>c\<close> with its messages \<open>S\<close> placed, where \<open>d\<close> is \<open>c\<close> with only the parked
  changes of these messages drained.\<close>

definition placed :: "msg_id set \<Rightarrow> ctx \<Rightarrow> ctx \<Rightarrow> ctx \<Rightarrow> bool" where
  "placed S c d c' \<longleftrightarrow> labels_inv c' \<and> tbl_msgs c' = tbl_msgs c \<and> tbl_contacts c' = tbl_contacts c \<and>
     tbl_blocklist c' = tbl_blocklist c \<and> env_var c' = env_var c \<and> tbl_config c' = tbl_config c \<and>
     configured_addr c' = configured_addr c \<and> tbl_labels c' = tbl_labels c \<and>
     tbl_pending_msg_labels c' = tbl_pending_msg_labels d \<and>
     (\<forall>m l. m \<notin> S \<longrightarrow> ((m, l) \<in> set (tbl_msg_labels c') \<longleftrightarrow> (m, l) \<in> set (tbl_msg_labels d))) \<and>
     (\<forall>n \<in> set RESERVED. \<forall>m \<in> S. has_tag n c' m \<longleftrightarrow>
        has_tag n d m \<or> n = UNVERIFIED \<and> must_hold c m \<or> n = TRASH \<and> must_block c m)"

text \<open>Both hooks that place a message put one tag on it under a condition.\<close>

definition tagged_if :: "string \<Rightarrow> bool \<Rightarrow> msg_id \<Rightarrow> ctx \<Rightarrow> ctx \<Rightarrow> bool" where
  "tagged_if n p m c c' \<longleftrightarrow>
    (\<exists>h t. c' = (if p then (put_tag Nosync n [m] True c)\<lparr>tbl_held_msgs := h, tbl_trashed_msgs := t\<rparr> else c))"

lemma update_held: "c\<lparr>tbl_held_msgs := h\<rparr> = c\<lparr>tbl_held_msgs := h, tbl_trashed_msgs := tbl_trashed_msgs c\<rparr>" for c :: ctx
  by simp

lemma update_trashed: "c\<lparr>tbl_trashed_msgs := t\<rparr> = c\<lparr>tbl_held_msgs := tbl_held_msgs c, tbl_trashed_msgs := t\<rparr>" for c :: ctx
  by simp

lemma gating_apply_tagged:
  assumes "labels_inv c"
  shows "tagged_if UNVERIFIED (must_hold c m) m c (best_effort (gating_apply m) c)"
proof (cases "must_hold c m")
  case True
  show ?thesis unfolding tagged_if_def best_effort_def gating_apply_eq [OF assms] snd_conv if_P [OF True]
    by (intro exI) (rule update_held)
next
  case False
  then show ?thesis by (simp add: tagged_if_def best_effort_def gating_apply_eq [OF assms])
qed

lemma blocklist_apply_tagged:
  assumes "labels_inv c"
  shows "tagged_if TRASH (must_block c m) m c (best_effort (blocklist_apply m) c)"
proof (cases "must_block c m")
  case True
  have "(if Blocked = Deleted then Sync else Nosync) = Nosync" by simp
  then show ?thesis
    unfolding tagged_if_def best_effort_def blocklist_apply_eq [OF assms] to_trash_eq [OF assms] Let_def snd_conv if_P [OF True]
    by (simp only:) (intro exI, rule update_trashed)
next
  case False
  then show ?thesis by (simp add: tagged_if_def best_effort_def blocklist_apply_eq [OF assms])
qed

lemma tagged_ifD:
  assumes "tagged_if n p m c c'" and inv: "labels_inv c" and n: "n \<in> set RESERVED"
  shows "labels_inv c'" "tbl_msgs c' = tbl_msgs c" "tbl_contacts c' = tbl_contacts c" "tbl_blocklist c' = tbl_blocklist c"
    "env_var c' = env_var c" "tbl_config c' = tbl_config c" "configured_addr c' = configured_addr c" "tbl_labels c' = tbl_labels c"
    "tbl_pending_msg_labels c' = tbl_pending_msg_labels c" "tbl_structured_data c' = tbl_structured_data c"
    and "m' \<noteq> m \<Longrightarrow> (m', l) \<in> set (tbl_msg_labels c') \<longleftrightarrow> (m', l) \<in> set (tbl_msg_labels c)"
    and "n' \<in> set RESERVED \<Longrightarrow> has_tag n' c' m \<longleftrightarrow> has_tag n' c m \<or> n' = n \<and> p"
proof -
  let ?p = "put_tag Nosync n [m] True c"
  obtain h t where c': "c' = (if p then ?p\<lparr>tbl_held_msgs := h, tbl_trashed_msgs := t\<rparr> else c)"
    using assms(1) by (auto simp: tagged_if_def)
  show "labels_inv c'" using inv labels_inv_frame [OF labels_inv_put [OF inv, of Nosync n "[m]" True], of c'] by (auto simp: c')
  show "tbl_msgs c' = tbl_msgs c" "tbl_contacts c' = tbl_contacts c" "tbl_blocklist c' = tbl_blocklist c"
    "env_var c' = env_var c" "tbl_config c' = tbl_config c" "configured_addr c' = configured_addr c" "tbl_labels c' = tbl_labels c"
    "tbl_pending_msg_labels c' = tbl_pending_msg_labels c" "tbl_structured_data c' = tbl_structured_data c"
    by (simp_all add: c')
  show "m' \<noteq> m \<Longrightarrow> (m', l) \<in> set (tbl_msg_labels c') \<longleftrightarrow> (m', l) \<in> set (tbl_msg_labels c)"
    using put_tag_other [OF inv n, of m' "[m]" l Nosync True] by (simp add: c')
  show "n' \<in> set RESERVED \<Longrightarrow> has_tag n' c' m \<longleftrightarrow> has_tag n' c m \<or> n' = n \<and> p"
    using has_tag_cong [of c' ?p n'] has_tag_put [OF inv n, of n' Nosync "[m]" True m] by (cases p; cases "n' = n") (simp_all add: c')
qed

text \<open>The stages of one message.\<close>

definition before_drain :: "'j environment \<Rightarrow> mime_message \<Rightarrow> bytes \<Rightarrow> msg_id \<Rightarrow> ctx \<Rightarrow> ctx" where
  "before_drain E mime raw m c = best_effort (assign_stored m)
     (recipients_store m (to_recipients (mm_header_recipients mime)) (rawmime_store (env_hash E) (env_aead E) (env_random E) m raw c))"

interpretation bd: enrichment "before_drain E mime raw m" for E mime raw m
  by unfold_locales (simp only: before_drain_def th.quiet rc.quiet rm.quiet)

lemma receive_message_placed:
  assumes inv: "labels_inv c"
  shows "placed {m} c (drain_pending m c) (receive_message E mime raw m c)"
proof -
  let ?d = "drain_pending m c"
  define c4 where "c4 = drain_pending m (before_drain E mime raw m c)"
  define c5 where "c5 = best_effort (gating_apply m) c4"
  define c6 where "c6 = importance_set m (from_headers (mm_header_raw mime ''importance'') (mm_header_raw mime ''x-priority'') (mm_header_raw mime ''priority'')) c5"
  define c7 where "c7 = best_effort (blocklist_apply m) c6"
  have c8: "receive_message E mime raw m c = best_effort (structured_store (env_parse_mail E) (env_json E) m (mm_decoded_data mime) raw) c7"
    by (simp add: receive_message_def Let_def before_drain_def c4_def c5_def c6_def c7_def)
  have i4: "labels_inv c4" unfolding c4_def by (intro drain_pending_inv bd.labels_inv_kept inv)
  note g = tagged_ifD [OF gating_apply_tagged [OF i4, of m] i4, folded c5_def, simplified]
  have i6: "labels_inv c6" unfolding c6_def by (rule im.labels_inv_kept) (rule g(1))
  note b = tagged_ifD [OF blocklist_apply_tagged [OF i6, of m] i6, folded c7_def, simplified]
  have pend: "tbl_pending_msg_labels c4 = tbl_pending_msg_labels ?d"
    unfolding c4_def by (rule drain_cong) (simp_all add: bd.kept)
  have rows: "(m', l) \<in> set (tbl_msg_labels c4) \<longleftrightarrow> (m', l) \<in> set (tbl_msg_labels ?d)" for m' l
  proof (cases "m' = m")
    case True
    show ?thesis unfolding True c4_def by (rule drain_cong(2)) (simp_all add: bd.kept)
  next
    case False
    then show ?thesis by (simp add: c4_def drain_other bd.kept)
  qed
  have hold: "must_hold c4 m = must_hold c m" by (rule must_hold_cong) (simp_all add: c4_def bd.kept)
  have block: "must_block c6 m = must_block c m" by (rule must_block_cong) (simp_all add: c6_def im.kept g c4_def bd.kept)
  show ?thesis unfolding placed_def
  proof (intro conjI allI impI ballI)
    show "labels_inv (receive_message E mime raw m c)" unfolding c8 by (rule sd.labels_inv_kept) (rule b(1))
    show "tbl_pending_msg_labels (receive_message E mime raw m c) = tbl_pending_msg_labels ?d"
      by (simp add: c8 sd.kept b c6_def im.kept g pend)
  next
    fix m' l assume "m' \<notin> {m}"
    then have "m' \<noteq> m" by simp
    then show "(m', l) \<in> set (tbl_msg_labels (receive_message E mime raw m c)) \<longleftrightarrow> (m', l) \<in> set (tbl_msg_labels ?d)"
      by (simp add: c8 sd.kept b(11) c6_def im.kept g(11) rows)
  next
    fix n m' assume n: "n \<in> set RESERVED" and "m' \<in> {m}"
    then have [simp]: "m' = m" by simp
    have "has_tag n (receive_message E mime raw m c) m \<longleftrightarrow> has_tag n c4 m \<or> n = UNVERIFIED \<and> must_hold c m \<or> n = TRASH \<and> must_block c m"
      unfolding c8 sd.tag_kept using b(12) [OF n] g(12) [OF n] hold block by (auto simp: c6_def im.tag_kept)
    moreover have "has_tag n c4 m \<longleftrightarrow> has_tag n ?d m" by (rule has_tag_rows) (simp_all add: rows, simp add: c4_def bd.kept)
    ultimately show "has_tag n (receive_message E mime raw m c) m' \<longleftrightarrow>
        has_tag n ?d m' \<or> n = UNVERIFIED \<and> must_hold c m' \<or> n = TRASH \<and> must_block c m'" by simp
  qed (simp_all add: c8 sd.kept b c6_def im.kept g c4_def bd.kept)
qed

lemma placedD:
  "placed S c d c' \<Longrightarrow> labels_inv c'" "placed S c d c' \<Longrightarrow> tbl_msgs c' = tbl_msgs c"
  "placed S c d c' \<Longrightarrow> n \<in> set RESERVED \<Longrightarrow> m \<in> S \<Longrightarrow>
    has_tag n c' m \<longleftrightarrow> has_tag n d m \<or> n = UNVERIFIED \<and> must_hold c m \<or> n = TRASH \<and> must_block c m"
  unfolding placed_def by blast+

lemma placed_refl: "labels_inv c \<Longrightarrow> placed {} c c c"
  by (simp add: placed_def)

lemma placed_step:
  assumes p: "placed S c d c'" and new: "m \<notin> S" and q: "placed {m} c' (drain_pending m c') c2" and d: "tbl_msgs d = tbl_msgs c" "tbl_labels d = tbl_labels c"
  shows "placed (insert m S) c (drain_pending m d) c2"
proof -
  have pend: "tbl_pending_msg_labels (drain_pending m c') = tbl_pending_msg_labels (drain_pending m d)"
    using p d by (intro drain_cong) (simp_all add: placed_def)
  have rows: "(m, l) \<in> set (tbl_msg_labels (drain_pending m c')) \<longleftrightarrow> (m, l) \<in> set (tbl_msg_labels (drain_pending m d))" for l
    using p d new by (intro drain_cong(2)) (simp_all add: placed_def)
  have hold: "must_hold c' x = must_hold c x" "must_block c' x = must_block c x" for x
    by (rule must_hold_cong; use p in \<open>simp add: placed_def\<close>) (rule must_block_cong; use p in \<open>simp add: placed_def\<close>)
  have tagm: "has_tag n (drain_pending m c') m \<longleftrightarrow> has_tag n (drain_pending m d) m" for n
    by (rule has_tag_rows) (use p d rows in \<open>simp_all add: placed_def\<close>)
  have old: "has_tag n c2 x \<longleftrightarrow> has_tag n c' x" "has_tag n (drain_pending m d) x \<longleftrightarrow> has_tag n d x" if "x \<in> S" for n x
  proof -
    have "x \<noteq> m" using that new by blast
    show "has_tag n c2 x \<longleftrightarrow> has_tag n c' x"
      by (rule has_tag_rows) (use q \<open>x \<noteq> m\<close> in \<open>simp_all add: placed_def drain_other\<close>)
    show "has_tag n (drain_pending m d) x \<longleftrightarrow> has_tag n d x"
      by (rule has_tag_rows) (use \<open>x \<noteq> m\<close> in \<open>simp_all add: drain_other\<close>)
  qed
  show ?thesis unfolding placed_def
  proof (intro conjI allI impI ballI)
    fix x l assume x: "x \<notin> insert m S"
    then show "(x, l) \<in> set (tbl_msg_labels c2) \<longleftrightarrow> (x, l) \<in> set (tbl_msg_labels (drain_pending m d))"
      using p q by (simp add: placed_def drain_other)
  next
    fix n x assume n: "n \<in> set RESERVED" and x: "x \<in> insert m S"
    show "has_tag n c2 x \<longleftrightarrow> has_tag n (drain_pending m d) x \<or> n = UNVERIFIED \<and> must_hold c x \<or> n = TRASH \<and> must_block c x"
    proof (cases "x = m")
      case True
      then show ?thesis using q n tagm [of n] hold [of m] by (simp add: placed_def)
    next
      case False
      then show ?thesis using x old [of x n] p n by (simp add: placed_def)
    qed
  qed (use p q pend in \<open>simp_all add: placed_def\<close>)
qed

lemma drain_all_frame: "tbl_msgs (fold drain_pending ids c) = tbl_msgs c" "tbl_labels (fold drain_pending ids c) = tbl_labels c"
  "labels_inv c \<Longrightarrow> labels_inv (fold drain_pending ids c)"
  by (induction ids arbitrary: c) (simp_all add: drain_pending_inv)

lemma receive_all_placed:
  assumes "labels_inv c" "distinct ids"
  shows "placed (set ids) c (fold drain_pending ids c) (fold (receive_message E mime raw) ids c)"
  using assms(2)
proof (induction ids rule: rev_induct)
  case Nil
  then show ?case using placed_refl [OF assms(1)] by simp
next
  case (snoc m ids)
  let ?c = "fold (receive_message E mime raw) ids c"
  have p: "placed (set ids) c (fold drain_pending ids c) ?c" using snoc by simp
  then have "labels_inv ?c" by (simp add: placed_def)
  have "m \<notin> set ids" using snoc.prems by simp
  from placed_step [OF p this receive_message_placed [OF \<open>labels_inv ?c\<close>, of m E mime raw] drain_all_frame(1,2)] show ?case by simp
qed

lemma adopt_frame:
  "tbl_msgs (best_effort (adopt f mime) c) = tbl_msgs c" "tbl_labels (best_effort (adopt f mime) c) = tbl_labels c"
  "labels_seq (best_effort (adopt f mime) c) = labels_seq c" "tbl_msg_labels (best_effort (adopt f mime) c) = tbl_msg_labels c"
  "tbl_pending_msg_labels (best_effort (adopt f mime) c) = tbl_pending_msg_labels c"
  "tbl_structured_data (best_effort (adopt f mime) c) = tbl_structured_data c"
  by (simp_all add: best_effort_def adopt_def Let_def add_or_lookup_ext_def insert_contact_ext_def update_chat_names_def
      split: option.split result.split prod.split)

text \<open>System tags in terms of the reserved labels.\<close>

lemma stored_tag_has_tag:
  assumes "labels_inv c" "stored_name tag = Some n"
  shows "tag \<in> set (tg_system (tags_of_msg c m)) \<longleftrightarrow> has_tag n c m"
proof -
  obtain l where l: "by_name c n = Some l" using reserved_Ok [OF assms(1) stored_name_reserved [OF assms(2)]] by blast
  show ?thesis unfolding stored_tag_iff [OF assms l] by (simp add: has_tag_def l)
qed

lemma filed_has_tag:
  assumes "labels_inv c"
  shows "filed c m \<longleftrightarrow> (\<exists>n \<in> set RESERVED. has_tag n c m)"
proof
  assume "filed c m"
  then obtain tag n where "stored_name tag = Some n" "tag \<in> set (tg_system (tags_of_msg c m))"
    using filed_stored_tag [OF assms] by blast
  then show "\<exists>n \<in> set RESERVED. has_tag n c m" using stored_tag_has_tag [OF assms] stored_name_reserved by blast
next
  assume "\<exists>n \<in> set RESERVED. has_tag n c m"
  then obtain n where n: "n \<in> set RESERVED" "has_tag n c m" by blast
  then obtain tag where tag: "stored_name tag = Some n"
    using that [of Archive] that [of Trash] that [of Unverified] by (auto simp: RESERVED_def)
  then have t: "tag \<in> set (tg_system (tags_of_msg c m))" using stored_tag_has_tag [OF assms] n(2) by blast
  then show "filed c m" using tag by (auto simp: tags_of_msg_def Let_def filed_iff list_ex_iff)
qed

lemma inbox_iff:
  assumes "labels_inv c"
  shows "Inbox \<in> set (tg_system (tags_of_msg c m)) \<longleftrightarrow>
    (\<exists>r. find_msg c m = Some r \<and> is_incoming (m_state r)) \<and> (\<forall>n \<in> set RESERVED. \<not> has_tag n c m)"
proof (cases "find_msg c m")
  case None
  then show ?thesis using no_row_no_derived [of Inbox] by simp
next
  case (Some r)
  then show ?thesis using derived_tag_iff [of Inbox c m r] filed_has_tag [OF assms] by simp
qed

lemma receive_hooks_tags:
  assumes "labels_inv c" "distinct ids" "m \<in> set ids" "n \<in> set RESERVED"
  shows "labels_inv (receive_hooks E mime raw mid ids c)" "tbl_msgs (receive_hooks E mime raw mid ids c) = tbl_msgs c"
    and "has_tag n (receive_hooks E mime raw mid ids c) m \<longleftrightarrow>
      has_tag n (fold drain_pending ids c) m \<or> n = UNVERIFIED \<and> must_hold c m \<or> n = TRASH \<and> must_block c m"
proof -
  let ?c = "fold (receive_message E mime raw) ids c"
  have p: "placed (set ids) c (fold drain_pending ids c) ?c" by (rule receive_all_placed [OF assms(1,2)])
  have h: "receive_hooks E mime raw mid ids c = apply_server_retention mid (best_effort (adopt (env_self_fingerprint E) mime) ?c)"
    by (simp add: receive_hooks_def Let_def)
  have "labels_inv (best_effort (adopt (env_self_fingerprint E) mime) ?c)"
    by (rule labels_inv_frame [OF placedD(1) [OF p]]) (rule adopt_frame)+
  then show "labels_inv (receive_hooks E mime raw mid ids c)" unfolding h by (rule sr.labels_inv_kept)
  show "tbl_msgs (receive_hooks E mime raw mid ids c) = tbl_msgs c" unfolding h sr.kept adopt_frame by (rule placedD(2) [OF p])
  have "has_tag n (receive_hooks E mime raw mid ids c) = has_tag n ?c"
    unfolding h sr.tag_kept by (rule has_tag_cong) (rule adopt_frame)+
  then show "has_tag n (receive_hooks E mime raw mid ids c) m \<longleftrightarrow>
      has_tag n (fold drain_pending ids c) m \<or> n = UNVERIFIED \<and> must_hold c m \<or> n = TRASH \<and> must_block c m"
    using placedD(3) [OF p assms(4,3)] by (simp only:)
qed

section \<open>Properties\<close>

text \<open>C38: received mail lands where its labels, its sender and the blocklist say, whatever else the hooks do or
  fail to do: a message carries the tags that were parked for it, Unverified if its sender has to be held, and
  Trash if its sender is blocked, and no other; it is in the inbox exactly if it would be by its parked tags
  alone, and neither gating nor the blocklist took it out.\<close>
theorem received_mail_lands:
  assumes "labels_inv c" "distinct ids" "m \<in> set ids"
  shows "let T = set (tg_system (tags_of_msg (receive_hooks E mime raw mid ids c) m));
             D = set (tg_system (tags_of_msg (fold drain_pending ids c) m)) in
    (\<forall>tag. stored_name tag \<noteq> None \<longrightarrow>
      (tag \<in> T \<longleftrightarrow> tag \<in> D \<or> tag = Unverified \<and> must_hold c m \<or> tag = Trash \<and> must_block c m)) \<and>
    (Inbox \<in> T \<longleftrightarrow> Inbox \<in> D \<and> \<not> must_hold c m \<and> \<not> must_block c m)"
  unfolding Let_def
proof (intro conjI allI impI)
  let ?T = "set (tg_system (tags_of_msg (receive_hooks E mime raw mid ids c) m))"
  let ?D = "set (tg_system (tags_of_msg (fold drain_pending ids c) m))"
  note r = receive_hooks_tags [OF assms(1-3), of _ E mime raw mid]
  note inv = r(1) [OF reserved_names(1)] drain_all_frame(3) [OF assms(1), of ids]
  fix tag assume "stored_name tag \<noteq> None"
  then obtain n where n: "stored_name tag = Some n" by blast
  show "tag \<in> ?T \<longleftrightarrow> tag \<in> ?D \<or> tag = Unverified \<and> must_hold c m \<or> tag = Trash \<and> must_block c m"
    unfolding stored_tag_has_tag [OF inv(1) n] stored_tag_has_tag [OF inv(2) n] r(3) [OF stored_name_reserved [OF n]]
    using n by (cases tag) auto
next
  let ?T = "set (tg_system (tags_of_msg (receive_hooks E mime raw mid ids c) m))"
  let ?D = "set (tg_system (tags_of_msg (fold drain_pending ids c) m))"
  note r = receive_hooks_tags [OF assms(1-3), of _ E mime raw mid]
  note inv = r(1) [OF reserved_names(1)] drain_all_frame(3) [OF assms(1), of ids]
  have "find_msg (receive_hooks E mime raw mid ids c) m = find_msg (fold drain_pending ids c) m"
    by (simp add: find_msg_def r(2) [OF reserved_names(1)] drain_all_frame)
  then show "Inbox \<in> ?T \<longleftrightarrow> Inbox \<in> ?D \<and> \<not> must_hold c m \<and> \<not> must_block c m"
    unfolding inbox_iff [OF inv(1)] inbox_iff [OF inv(2)] using r(3) by (auto simp: RESERVED_def)
qed

definition sample_env :: "string environment" where
  "sample_env = \<lparr>env_hash = id, env_aead = null_cipher, env_random = some_random, env_parse_mail = whole_part,
     env_json = plain_json, env_self_fingerprint = Ok ''CD''\<rparr>"

theorem received_mail_lands_witness:
  "let T = set (tg_system (tags_of_msg (receive_hooks sample_env borrowed_from ''raw'' ''x@y'' [10] cold_mail) 10))
   in Unverified \<in> T \<and> Inbox \<notin> T"
  using received_mail_lands [OF cold_mail_inv, of "[10]" 10 sample_env borrowed_from "''raw''" "''x@y''"] cold_mail_must_hold
  by (simp add: Let_def)

section \<open>Held mail is inert\<close>

lemma merge_all_structured: "tbl_structured_data (snd (merge_all s ls c)) = tbl_structured_data c"
proof (induction s ls c rule: merge_all.induct)
  case (2 s l ls c)
  then show ?case by (simp add: merge_thread_def split: prod.splits result.splits)
qed simp

lemma before_drain_structured: "tbl_structured_data (before_drain E mime raw m c) = tbl_structured_data c"
proof -
  have "tbl_structured_data (snd (assign m h c)) = tbl_structured_data c" for h c
    using merge_all_structured
    by (auto simp: assign_def Let_def place_def split: list.split prod.split result.split) (metis snd_conv)
  then have 1: "tbl_structured_data (best_effort (assign_stored m) c) = tbl_structured_data c" for c
    by (simp add: assign_stored_def best_effort_def split: option.split prod.split result.split) (metis snd_conv)
  have 2: "tbl_structured_data (rawmime_store H A R m raw c) = tbl_structured_data c" for H A R
    by (simp add: rawmime_store_def store_with_retention_def create_and_deduplicate_from_bytes_def Let_def
      best_effort_def protect_def ensure_key_def convert_def write_file_def split: prod.split result.split option.split)
  show ?thesis by (simp add: before_drain_def 1 2 recipients_store_def)
qed

lemma receive_message_last:
  assumes inv: "labels_inv c"
  obtains c7 where "receive_message E mime raw m c = best_effort (structured_store (env_parse_mail E) (env_json E) m (mm_decoded_data mime) raw) c7"
    "tbl_msgs c7 = tbl_msgs c" "tbl_contacts c7 = tbl_contacts c" "configured_addr c7 = configured_addr c"
    "tbl_structured_data c7 = tbl_structured_data c"
proof -
  define c4 where "c4 = drain_pending m (before_drain E mime raw m c)"
  have i4: "labels_inv c4" unfolding c4_def by (intro drain_pending_inv bd.labels_inv_kept inv)
  note g = tagged_ifD [OF gating_apply_tagged [OF i4, of m] i4, simplified]
  define c6 where "c6 = importance_set m (from_headers (mm_header_raw mime ''importance'') (mm_header_raw mime ''x-priority'') (mm_header_raw mime ''priority''))
    (best_effort (gating_apply m) c4)"
  have i6: "labels_inv c6" unfolding c6_def by (rule im.labels_inv_kept) (rule g(1))
  note b = tagged_ifD [OF blocklist_apply_tagged [OF i6, of m] i6, simplified]
  have "tbl_structured_data c6 = tbl_structured_data c"
    by (simp add: c6_def importance_set_def g) (simp add: c4_def before_drain_structured)
  moreover have "tbl_msgs c6 = tbl_msgs c" "tbl_contacts c6 = tbl_contacts c" "configured_addr c6 = configured_addr c"
    unfolding c6_def im.kept g by (simp_all add: c4_def bd.kept)
  moreover have "receive_message E mime raw m c =
      best_effort (structured_store (env_parse_mail E) (env_json E) m (mm_decoded_data mime) raw) (best_effort (blocklist_apply m) c6)"
    by (simp add: receive_message_def Let_def before_drain_def c4_def c6_def)
  ultimately show thesis by (intro that [of "best_effort (blocklist_apply m) c6"]) (simp_all add: b)
qed

lemma receive_message_structured:
  assumes inv: "labels_inv c" and r: "r \<in> set (tbl_structured_data (receive_message E mime raw m c))"
  shows "r \<in> set (tbl_structured_data c) \<or> sd_msg_id r = m \<and> (must_hold c m \<longrightarrow> \<not> sd_trusted r)"
proof -
  obtain c7 where c7: "receive_message E mime raw m c = best_effort (structured_store (env_parse_mail E) (env_json E) m (mm_decoded_data mime) raw) c7"
    "tbl_msgs c7 = tbl_msgs c" "tbl_contacts c7 = tbl_contacts c" "configured_addr c7 = configured_addr c"
    "tbl_structured_data c7 = tbl_structured_data c"
    by (rule receive_message_last [OF inv])
  show ?thesis
  proof (cases "structured_is_trusted c7 m")
    case (Err e)
    then show ?thesis using r c7 by (simp add: best_effort_def structured_store_def Let_def split: if_splits)
  next
    case (Ok t)
    have "\<not> t" if "must_hold c m"
      using that structured_is_trusted_iff [OF Ok] contact_lookup_frame(2) [OF c7(3,4)]
      by (auto simp: must_hold_def find_msg_def c7(2))
    moreover have "r \<in> set (tbl_structured_data c) \<or> r \<in> structured_row_of m t ` set (extract_objects (env_parse_mail E) (env_json E) (mm_decoded_data mime) raw)"
      using r unfolding c7(1) best_effort_def structured_store_rows [OF Ok] c7(5) by auto
    ultimately show ?thesis by (auto simp: structured_row_of_def)
  qed
qed

lemma receive_all_structured:
  assumes "labels_inv c" "distinct ids" "r \<in> set (tbl_structured_data (fold (receive_message E mime raw) ids c))"
  shows "r \<in> set (tbl_structured_data c) \<or> (must_hold c (sd_msg_id r) \<longrightarrow> \<not> sd_trusted r)"
  using assms(2,3)
proof (induction ids rule: rev_induct)
  case (snoc m ids)
  let ?c = "fold (receive_message E mime raw) ids c"
  have p: "placed (set ids) c (fold drain_pending ids c) ?c" using snoc.prems by (intro receive_all_placed assms(1)) simp
  have hold: "must_hold ?c m = must_hold c m" by (rule must_hold_cong; use p in \<open>unfold placed_def, blast\<close>)
  have "r \<in> set (tbl_structured_data ?c) \<or> sd_msg_id r = m \<and> (must_hold ?c m \<longrightarrow> \<not> sd_trusted r)"
    using receive_message_structured [OF placedD(1) [OF p], of r E mime raw m] snoc.prems(2) by simp
  then show ?case using snoc.IH snoc.prems(1) hold by auto
qed simp

text \<open>C39: what a held message says about itself is never acted on: no structured object stored with a message that
  gating holds is trusted, whatever the message contains and whichever of the hooks fail.\<close>
theorem held_mail_inert:
  assumes "labels_inv c" "distinct ids" "must_hold c m" "m \<notin> sd_msg_id ` set (tbl_structured_data c)"
  shows "\<forall>x \<in> set (structured_of_msg (receive_hooks E mime raw mid ids c) m). \<not> so_trusted x"
proof
  let ?c = "fold (receive_message E mime raw) ids c"
  have "tbl_structured_data (receive_hooks E mime raw mid ids c) = tbl_structured_data ?c"
    by (simp add: receive_hooks_def Let_def adopt_frame apply_server_retention_def delete_from_server_def split: server_retention.split)
  moreover fix x assume "x \<in> set (structured_of_msg (receive_hooks E mime raw mid ids c) m)"
  ultimately obtain r where "r \<in> set (tbl_structured_data ?c)" "sd_msg_id r = m" "so_trusted x = sd_trusted r"
    by (auto simp: structured_of_msg_def)
  with receive_all_structured [OF assms(1,2), of r E mime raw] assms(3,4) show "\<not> so_trusted x" by auto
qed

theorem held_mail_inert_witness:
  "filter so_trusted (structured_of_msg (receive_hooks sample_env borrowed_from ''{}'' ''x@y'' [10] cold_mail) 10) = []"
proof -
  have "10 \<notin> sd_msg_id ` set (tbl_structured_data cold_mail)" by (simp add: cold_mail_def fresh_db_def)
  then show ?thesis
    using held_mail_inert [OF cold_mail_inv, of "[10]" 10 sample_env borrowed_from "''{}''" "''x@y''"] cold_mail_must_hold
    by (simp add: filter_empty_conv)
qed

section \<open>Housekeeping\<close>

lemma housekeeping_tables_frame:
  "clock (housekeeping_tables c) = clock c" "env_var (housekeeping_tables c) = env_var c"
  "tbl_config (housekeeping_tables c) = tbl_config c" "tbl_msgs (housekeeping_tables c) = tbl_msgs c"
  "tbl_held_msgs (housekeeping_tables c) = tbl_held_msgs c" "tbl_trashed_msgs (housekeeping_tables c) = tbl_trashed_msgs c"
  "tbl_labels (housekeeping_tables c) = tbl_labels c" "labels_seq (housekeeping_tables c) = labels_seq c"
  "tbl_msg_labels (housekeeping_tables c) = delete_where (\<lambda>ml. fst ml \<notin> set (live_ids c)) (tbl_msg_labels c)"
  "tbl_pending_msg_labels (housekeeping_tables c) =
     delete_where (\<lambda>p. p_timestamp p < saturating_sub (clock c) PENDING_TTL) (tbl_pending_msg_labels c)"
  by (simp_all add: housekeeping_tables_def Let_def rawmime_expire_def recipients_prune_def threading_prune_def labels_prune_def
      expire_on_server_eq policy_prune_def receipts_prune_def live_ids_def)

lemma housekeeping_tables_inv:
  assumes "trash_inv c"
  shows "trash_inv (housekeeping_tables c)"
proof -
  have "labels_inv (labels_prune c)" using assms by (intro labels_prune_inv) (simp add: trash_inv_def)
  then have "labels_inv (housekeeping_tables c)"
    by (rule labels_inv_frame) (simp_all add: housekeeping_tables_frame labels_prune_def)
  then show ?thesis using assms by (simp add: trash_inv_def housekeeping_tables_frame)
qed

lemma housekeeping_tables_tag: "m \<in> set (live_ids c) \<Longrightarrow> has_tag n (housekeeping_tables c) m \<longleftrightarrow> has_tag n c m"
  by (rule has_tag_rows) (simp_all add: housekeeping_tables_frame)

lemma sweep_trash_inv: "trash_inv c \<Longrightarrow> trash_inv (snd (sweep c))"
  by (simp add: trash_inv_def sweep_labels_inv sweep_deadlines(3))

lemma purge_secs_cong: "env_var c' = env_var c \<Longrightarrow> tbl_config c' = tbl_config c \<Longrightarrow> purge_secs c' = purge_secs c"
  using get_config_int_frame [of c' c] by (simp add: purge_secs_def purge_days_def)

lemma swept_tables: "swept (housekeeping_tables c) m = swept c m"
  using get_config_int_frame [of "housekeeping_tables c" c] by (simp add: swept_def hold_days_def housekeeping_tables_frame)

lemma purge_frame:
  assumes "labels_inv c"
  shows "tbl_msg_recipients (snd (purge c)) = tbl_msg_recipients c" "tbl_msg_threads (snd (purge c)) = tbl_msg_threads c"
    "tbl_raw_mime (snd (purge c)) = tbl_raw_mime c" "tbl_msg_undelivered (snd (purge c)) = tbl_msg_undelivered c"
    "tbl_structured_data (snd (purge c)) = tbl_structured_data c" "clock (snd (purge c)) = clock c"
  by (rule reconcile_eq [OF assms, of "clock c"]; simp add: purge_def Let_def destroy_eq)+

lemma sweep_side_tables:
  assumes "labels_inv c"
  shows "tbl_msg_recipients (snd (sweep c)) = tbl_msg_recipients c" "tbl_msg_threads (snd (sweep c)) = tbl_msg_threads c"
    "tbl_raw_mime (snd (sweep c)) = tbl_raw_mime c" "tbl_msg_undelivered (snd (sweep c)) = tbl_msg_undelivered c"
  by (rule sweep_eq [OF assms]; simp add: gating_prune_def)+

lemma housekeeping_tables_side:
  "r_msg_id ` set (tbl_msg_recipients (housekeeping_tables c)) \<union> fst ` set (tbl_msg_threads (housekeeping_tables c)) \<union>
    rm_msg_id ` set (tbl_raw_mime (housekeeping_tables c)) \<union> fst ` set (tbl_msg_undelivered (housekeeping_tables c)) \<subseteq> set (live_ids c)"
  by (auto simp: housekeeping_tables_def Let_def rawmime_expire_def recipients_prune_def threading_prune_def labels_prune_def
      expire_on_server_eq policy_prune_def receipts_prune_def live_ids_def)

text \<open>C40: one pass of housekeeping destroys a message exactly if it is in the trash, or is moved there in this
  pass because its hold has run out, and its deadline has come; mail moved without an earlier deadline starts
  its window now, so that it is destroyed in the same pass exactly if the window is empty. Afterwards the
  recipients, threads, originals and undelivered addresses kept are those of messages that were there
  when the pass began.\<close>
theorem housekeeping_destroys:
  assumes inv: "trash_inv c"
  defines "c' \<equiv> housekeeping_email c"
  shows "(\<forall>m \<in> set (live_ids c). m \<notin> set (live_ids c') \<longleftrightarrow> (has_tag TRASH c m \<or> swept c m) \<and>
      (case deadline c m of Some d \<Rightarrow> t_purge_at d | None \<Rightarrow> saturating_add (clock c) (purge_secs c)) \<le> clock c) \<and>
    set (live_ids c') \<subseteq> set (live_ids c) \<and>
    r_msg_id ` set (tbl_msg_recipients c') \<union> fst ` set (tbl_msg_threads c') \<union> rm_msg_id ` set (tbl_raw_mime c') \<union>
      fst ` set (tbl_msg_undelivered c') \<subseteq> set (live_ids c)"
proof (intro conjI ballI)
  let ?t = "housekeeping_tables c"
  let ?s = "snd (sweep ?t)"
  have it: "trash_inv ?t" and si: "trash_inv ?s" using housekeeping_tables_inv [OF inv] sweep_trash_inv by blast+
  note lt = trash_inv_labels [OF it] and ls = trash_inv_labels [OF si]
  have c': "c' = structured_prune (snd (purge ?s))" by (simp add: c'_def housekeeping_email_def best_effort_def)
  have "tbl_msgs c' = map (\<lambda>r. if m_id r \<in> {m. purge_due ?s m} then tombstone True r else r) (tbl_msgs c)"
    by (simp add: c' structured_prune_def purge_msgs(2) [OF si] sweep_frame(2) [OF lt] housekeeping_tables_frame)
  note live = live_destroyed [OF this]
  show "set (live_ids c') \<subseteq> set (live_ids c)" using live by auto
  fix m assume m: "m \<in> set (live_ids c)"
  have "purge_secs ?s = purge_secs c" by (rule purge_secs_cong) (simp_all add: sweep_frame [OF lt] housekeeping_tables_frame)
  moreover have "purge_secs ?t = purge_secs c" by (rule purge_secs_cong) (simp_all add: housekeeping_tables_frame)
  moreover have "has_tag TRASH ?s m \<longleftrightarrow> swept c m \<or> has_tag TRASH c m"
    using sweep_tags [OF lt, of TRASH m] housekeeping_tables_tag [OF m, of TRASH] by (auto simp: swept_tables)
  moreover have "deadline ?t m = deadline c m" by (simp add: deadline_def housekeeping_tables_frame)
  ultimately show "m \<notin> set (live_ids c') \<longleftrightarrow> (has_tag TRASH c m \<or> swept c m) \<and>
      (case deadline c m of Some d \<Rightarrow> t_purge_at d | None \<Rightarrow> saturating_add (clock c) (purge_secs c)) \<le> clock c"
    using live [of m] m
    by (auto simp: purge_due_def sweep_deadlines(1) [OF lt] swept_tables sweep_frame(3) [OF lt] housekeeping_tables_frame split: option.splits)
next
  have lt: "labels_inv (housekeeping_tables c)" using housekeeping_tables_inv [OF inv] by (rule trash_inv_labels)
  show "r_msg_id ` set (tbl_msg_recipients c') \<union> fst ` set (tbl_msg_threads c') \<union> rm_msg_id ` set (tbl_raw_mime c') \<union>
      fst ` set (tbl_msg_undelivered c') \<subseteq> set (live_ids c)"
    using housekeeping_tables_side [of c]
    by (simp add: c'_def housekeeping_email_def best_effort_def structured_prune_def purge_frame [OF sweep_labels_inv [OF lt]] sweep_side_tables [OF lt])
qed

text \<open>Mail held for a week, with a trash window of none.\<close>

definition forgotten_mail :: ctx where
  "forgotten_mail = cold_mail\<lparr>clock := 700000, tbl_config := (\<lambda>k. if k = Config_UnverifiedTrashDays then Some ''7''
     else if k = Config_TrashPurgeDays then Some ''0'' else None), tbl_held_msgs := [\<lparr>h_msg_id = 10, h_held_at = 1000\<rparr>]\<rparr>"

theorem housekeeping_destroys_witness:
  "10 \<in> set (live_ids forgotten_mail) \<and> \<not> has_tag TRASH forgotten_mail 10 \<and> 10 \<notin> set (live_ids (housekeeping_email forgotten_mail))"
proof -
  have "labels_inv forgotten_mail" by (rule labels_inv_frame [OF cold_mail_inv]) (simp_all add: forgotten_mail_def)
  then have inv: "trash_inv forgotten_mail" by (simp add: trash_inv_def forgotten_mail_def cold_mail_def fresh_db_def)
  have "10 \<in> set (live_ids forgotten_mail)" "\<not> has_tag TRASH forgotten_mail 10" "deadline forgotten_mail 10 = None"
    "saturating_add (clock forgotten_mail) (purge_secs forgotten_mail) \<le> clock forgotten_mail" by code_simp+
  moreover have "hold_days forgotten_mail = 7" by code_simp
  then have "swept forgotten_mail 10" by (simp add: swept_def) (simp add: forgotten_mail_def sat_defs)
  ultimately show ?thesis using housekeeping_destroys [OF inv] by auto
qed

text \<open>A tombstone is enough for \<open>structured::prune\<close> to keep what a destroyed message said about itself; the data
  goes in the pass after the tombstone.\<close>

lemma structured_outlives:
  assumes "trash_inv c"
  shows "set (tbl_structured_data (housekeeping_email c)) = {r \<in> set (tbl_structured_data c). sd_msg_id r \<in> m_id ` set (tbl_msgs c)}"
proof -
  have it: "trash_inv (housekeeping_tables c)" by (rule housekeeping_tables_inv) fact
  note lt = trash_inv_labels [OF it] and si = sweep_trash_inv [OF it]
  have "m_id ` set (tbl_msgs (snd (purge (snd (sweep (housekeeping_tables c)))))) = m_id ` set (tbl_msgs c)"
  proof -
    have "m_id (if p then tombstone True r else r) = m_id r" for p r by (simp add: tombstone_def default_msg_def)
    then show ?thesis
      unfolding purge_msgs(2) [OF si] sweep_frame(2) [OF lt] housekeeping_tables_frame set_map image_image by (simp only:)
  qed
  moreover have "tbl_structured_data (housekeeping_tables c) = tbl_structured_data c"
    by (simp add: housekeeping_tables_def Let_def rawmime_expire_def recipients_prune_def threading_prune_def labels_prune_def
      expire_on_server_eq policy_prune_def receipts_prune_def)
  ultimately show ?thesis
    by (auto simp: housekeeping_email_def best_effort_def structured_prune_def purge_frame [OF sweep_labels_inv [OF lt]] sweep_frame(6) [OF lt])
qed

lemma prune_tombstones_live: "live_ids (prune_tombstones c) = live_ids c"
  by (simp add: live_ids_def prune_tombstones_def delete_where_def filter_filter) (metis (mono_tags, lifting) filter_cong)

end
