(* ===== verification/Sql_Like.thy ===== *)
theory Sql_Like
  imports Prelude
begin

text \<open>
  SQLite's \<open>LIKE\<close> operator, which both searches use with a pattern made of what the user typed:
  a percent sign stands for any text, an underscore for any character, and ASCII letters match
  without regard to case. \<open>like_needle\<close> is the pattern \<open>format!("%{needle}%")\<close>.
\<close>

fun sql_like :: "string \<Rightarrow> string \<Rightarrow> bool" where
  "sql_like [] s \<longleftrightarrow> s = []"
| "sql_like (p # ps) [] \<longleftrightarrow> p = CHR ''%'' \<and> sql_like ps []"
| "sql_like (p # ps) (x # xs) \<longleftrightarrow>
    (if p = CHR ''%'' then sql_like ps (x # xs) \<or> sql_like (p # ps) xs
     else (p = CHR ''_'' \<or> ascii_lower_char p = ascii_lower_char x) \<and> sql_like ps xs)"

definition like_needle :: "string \<Rightarrow> string" where
  "like_needle n = CHR ''%'' # n @ ''%''"

definition wildcard_free :: "string \<Rightarrow> bool" where
  "wildcard_free n \<longleftrightarrow> CHR ''%'' \<notin> set n \<and> CHR ''_'' \<notin> set n"

lemma like_percent: "sql_like (CHR ''%'' # ps) s \<longleftrightarrow> (\<exists>a b. s = a @ b \<and> sql_like ps b)"
proof (induction s)
  case (Cons c s)
  have "(\<exists>a b. c # s = a @ b \<and> sql_like ps b) \<longleftrightarrow> sql_like ps (c # s) \<or> (\<exists>a b. s = a @ b \<and> sql_like ps b)"
    by (metis append_Cons append_Nil list.sel(3) tl_append2)
  with Cons show ?case by simp
qed simp

lemma like_all: "sql_like ''%'' s"
  using like_percent [of "[]" s] by simp

lemma like_prefix:
  "wildcard_free n \<Longrightarrow> sql_like (n @ ''%'') s \<longleftrightarrow> length n \<le> length s \<and> ascii_lower (take (length n) s) = ascii_lower n"
proof (induction n arbitrary: s)
  case Nil
  then show ?case using like_all by (simp add: ascii_lower_def)
next
  case (Cons x n)
  then have "x \<noteq> CHR ''%''" "x \<noteq> CHR ''_''" "wildcard_free n" by (auto simp: wildcard_free_def)
  with Cons.IH [of "tl s"] show ?case by (cases s) (auto simp: ascii_lower_def)
qed

text \<open>Without wildcards the pattern finds exactly the texts that contain what was typed, ASCII case apart.\<close>

lemma like_substring:
  assumes "wildcard_free n"
  shows "sql_like (like_needle n) s \<longleftrightarrow> contains (ascii_lower n) (ascii_lower s)"
proof -
  have "sql_like (like_needle n) s \<longleftrightarrow> (\<exists>a b. s = a @ b \<and> length n \<le> length b \<and> ascii_lower (take (length n) b) = ascii_lower n)"
    by (simp only: like_needle_def like_percent like_prefix [OF assms])
  also have "\<dots> \<longleftrightarrow> (\<exists>a b. ascii_lower s = a @ ascii_lower n @ b)"
  proof
    assume "\<exists>a b. s = a @ b \<and> length n \<le> length b \<and> ascii_lower (take (length n) b) = ascii_lower n"
    then obtain a b where "s = a @ b" "ascii_lower (take (length n) b) = ascii_lower n" by blast
    then have "ascii_lower s = ascii_lower a @ ascii_lower n @ ascii_lower (drop (length n) b)"
      unfolding ascii_lower_def by (metis append_take_drop_id map_append)
    then show "\<exists>a b. ascii_lower s = a @ ascii_lower n @ b" by blast
  next
    assume "\<exists>a b. ascii_lower s = a @ ascii_lower n @ b"
    then obtain a b where ab: "ascii_lower s = a @ ascii_lower n @ b" by blast
    let ?d = "drop (length a) s"
    have "ascii_lower ?d = ascii_lower n @ b" using ab by (metis append_eq_conv_conj ascii_lower_def drop_map)
    then have "length n \<le> length ?d" "ascii_lower (take (length n) ?d) = ascii_lower n"
      by (metis ascii_lower_def le_add1 length_append length_map) (metis \<open>ascii_lower ?d = ascii_lower n @ b\<close> append_eq_conv_conj ascii_lower_def length_map take_map)
    then show "\<exists>a b. s = a @ b \<and> length n \<le> length b \<and> ascii_lower (take (length n) b) = ascii_lower n"
      by (metis append_take_drop_id)
  qed
  finally show ?thesis by (simp add: contains_iff)
qed

end
