(* ===== verification/Search.thy ===== *)
theory Search
  imports Tags Sql_Like
begin

text \<open>
  \<open>email/search.rs\<close>: the search over bodies, subjects, recipients, labels and system tags. The query
  the code assembles as text is a conjunction of conditions on a message row; the theorems relate
  the condition it adds for a system tag to the tags of \<open>email/tags.rs\<close>.
\<close>

record search_query =
  q_text :: string
  q_label :: "label_id option"
  q_tag :: "system_tag option"
  q_chat_id :: "chat_id option"

definition query_text :: "string \<Rightarrow> search_query" where
  "query_text needle = \<lparr>q_text = needle, q_label = None, q_tag = None, q_chat_id = None\<rparr>"

definition with_label_filter :: "label_id \<Rightarrow> search_query \<Rightarrow> search_query" where
  "with_label_filter l q = q\<lparr>q_label := Some l\<rparr>"

definition with_tag_filter :: "system_tag \<Rightarrow> search_query \<Rightarrow> search_query" where
  "with_tag_filter t q = q\<lparr>q_tag := Some t\<rparr>"

definition query_is_empty :: "search_query \<Rightarrow> bool" where
  "query_is_empty q \<longleftrightarrow> trim (q_text q) = [] \<and> q_label q = None \<and> q_tag q = None \<and> q_chat_id q = None"

definition SEARCH_LIMIT :: nat where "SEARCH_LIMIT = 1000"

text \<open>The base condition: an ordinary chat that is not blocked, a sender that is not blocked, and a hidden
  message only among drafts.\<close>

definition search_base :: "ctx \<Rightarrow> search_query \<Rightarrow> msg_row \<Rightarrow> bool" where
  "search_base c q r \<longleftrightarrow> m_chat_id r > 9 \<and> (q_tag q = Some Drafts \<or> \<not> m_hidden r) \<and>
     (case List.find (\<lambda>ch. ch_id ch = m_chat_id r) (tbl_chats c) of None \<Rightarrow> True | Some ch \<Rightarrow> ch_blocked ch \<noteq> 1) \<and>
     (case List.find (\<lambda>ct. c_id ct = m_from_id r) (tbl_contacts c) of None \<Rightarrow> True | Some ct \<Rightarrow> \<not> c_blocked ct)"

definition or_empty :: "string option \<Rightarrow> string" where
  "or_empty x = (case x of Some s \<Rightarrow> s | None \<Rightarrow> [])"

text \<open>A body that is \<open>NULL\<close> does not match.\<close>

definition text_matches :: "ctx \<Rightarrow> string \<Rightarrow> msg_row \<Rightarrow> bool" where
  "text_matches c needle r \<longleftrightarrow>
    (let like = sql_like (like_needle needle) in
     (case m_txt_normalized r of
        Some t \<Rightarrow> like t
      | None \<Rightarrow> (case m_txt r of Some t \<Rightarrow> like t | None \<Rightarrow> False)) \<or>
     like (ascii_lower (or_empty (m_subject r))) \<or>
     list_ex (\<lambda>x. r_msg_id x = m_id r \<and> (like (r_addr x) \<or> like (ascii_lower (r_name x)))) (tbl_msg_recipients c))"

definition tag_condition :: "ctx \<Rightarrow> system_tag \<Rightarrow> msg_row \<Rightarrow> bool" where
  "tag_condition c tag r \<longleftrightarrow>
    (case stored_name tag of
       Some name \<Rightarrow> list_ex (\<lambda>ml. fst ml = m_id r \<and> list_ex (\<lambda>l. l_id l = snd ml \<and> l_name_norm l = to_lowercase name) (tbl_labels c)) (tbl_msg_labels c)
     | None \<Rightarrow>
         (case (case tag of Drafts \<Rightarrow> (OutDraft, OutDraft) | Sent \<Rightarrow> (OutPending, OutMdnRcvd) | _ \<Rightarrow> (InFresh, InSeen)) of
            (lo, hi) \<Rightarrow> state_num (m_state r) \<ge> state_num lo \<and> state_num (m_state r) \<le> state_num hi) \<and>
         (tag = Inbox \<longrightarrow> \<not> filed c (m_id r)))"

definition search_condition :: "ctx \<Rightarrow> search_query \<Rightarrow> msg_row \<Rightarrow> bool" where
  "search_condition c q r \<longleftrightarrow>
    (let needle = to_lowercase (trim (q_text q)) in
     search_base c q r \<and>
     (needle \<noteq> [] \<longrightarrow> text_matches c needle r) \<and>
     (case q_label q of None \<Rightarrow> True | Some l \<Rightarrow> list_ex (\<lambda>ml. fst ml = m_id r \<and> snd ml = l) (tbl_msg_labels c)) \<and>
     (case q_tag q of None \<Rightarrow> True | Some t \<Rightarrow> tag_condition c t r) \<and>
     (case q_chat_id q of None \<Rightarrow> True | Some i \<Rightarrow> m_chat_id r = i))"

definition search :: "ctx \<Rightarrow> search_query \<Rightarrow> msg_id list" where
  "search c q =
    (if query_is_empty q then []
     else take SEARCH_LIMIT (map m_id (sort_key (\<lambda>r. - int (m_id r)) (filter (search_condition c q) (tbl_msgs c)))))"

section \<open>Lemmas\<close>

lemma to_lowercase_stored_name: "stored_name tag = Some n \<Longrightarrow> to_lowercase n = labels_normalize n"
proof -
  have "\<forall>n \<in> set RESERVED. to_lowercase n = labels_normalize n" by code_simp
  then show "stored_name tag = Some n \<Longrightarrow> to_lowercase n = labels_normalize n" using stored_name_reserved by blast
qed

lemma tag_condition_iff:
  assumes inv: "labels_inv c" and r: "find_msg c m = Some r"
  shows "tag_condition c tag r \<longleftrightarrow> tag \<in> set (tg_system (tags_of_msg c m))"
proof (cases "stored_name tag")
  case None
  have "m_id r = m" using find_msg_Some [OF r] by simp
  then show ?thesis
    unfolding derived_tag_iff [OF None r] using None
    by (cases tag; cases "m_state r") (simp_all add: tag_condition_def is_incoming_def state_order)
next
  case (Some n)
  have m: "m_id r = m" using find_msg_Some [OF r] by simp
  obtain l where l: "by_name c n = Some l" using reserved_Ok [OF inv stored_name_reserved [OF Some]] by blast
  obtain x where x: "x \<in> set (tbl_labels c)" "l = row_to_label x" "l_name_norm x = labels_normalize n"
    using by_name_Some [OF l] by blast
  have only: "y = x" if "y \<in> set (tbl_labels c)" "l_name_norm y = labels_normalize n" for y
    using inv that x by (auto simp: labels_inv_def wf_label_table_def dest: unique_key_inj)
  have "(\<exists>ml \<in> set (tbl_msg_labels c). fst ml = m \<and> (\<exists>y \<in> set (tbl_labels c). l_id y = snd ml \<and> l_name_norm y = labels_normalize n)) \<longleftrightarrow>
      (m, l_id x) \<in> set (tbl_msg_labels c)"
    using only x(1,3) by (metis fst_conv snd_conv prod.collapse)
  then show ?thesis
    unfolding stored_tag_iff [OF inv Some l]
    by (simp add: tag_condition_def list_ex_iff to_lowercase_stored_name [OF Some] Some x(2) m)
qed

lemma list_ex_pair: "list_ex (\<lambda>ml. fst ml = a \<and> snd ml = b) t \<longleftrightarrow> (a, b) \<in> set t"
  by (induction t) auto

section \<open>Properties\<close>

text \<open>What a query asks for, with the tags of a message as \<open>email/tags.rs\<close> derives them.\<close>

definition search_spec :: "ctx \<Rightarrow> search_query \<Rightarrow> msg_row \<Rightarrow> bool" where
  "search_spec c q r \<longleftrightarrow> search_base c q r \<and>
      (trim (q_text q) = [] \<or> text_matches c (to_lowercase (trim (q_text q))) r) \<and>
      (\<forall>l. q_label q = Some l \<longrightarrow> (m_id r, l) \<in> set (tbl_msg_labels c)) \<and>
      (\<forall>t. q_tag q = Some t \<longrightarrow> t \<in> set (tg_system (tags_of_msg c (m_id r)))) \<and>
      (\<forall>i. q_chat_id q = Some i \<longrightarrow> m_chat_id r = i)"

text \<open>C33: A search that is not empty returns, newest row first and at most a thousand, exactly the messages
  of chats and senders that are not blocked that meet every restriction: the text is in the body,
  the subject or a recipient, the label is on the message, the system tag is among its tags, the
  conversation is the one given. An empty query finds nothing.\<close>

theorem search_exact:
  assumes "labels_inv c" "wf_msgs c"
  shows "\<exists>rs. search c q = take SEARCH_LIMIT (map m_id rs) \<and> sorted_wrt (\<lambda>a b. m_id a > m_id b) rs \<and>
    set rs = {r \<in> set (tbl_msgs c). \<not> query_is_empty q \<and> search_spec c q r}"
proof -
  let ?rs = "if query_is_empty q then [] else sort_key (\<lambda>r. - int (m_id r)) (filter (search_condition c q) (tbl_msgs c))"
  have "search_condition c q r \<longleftrightarrow> search_spec c q r" if "r \<in> set (tbl_msgs c)" for r
    using tag_condition_iff [OF assms(1) find_msg_row [OF assms(2) that]]
    by (auto simp: search_condition_def search_spec_def Let_def list_ex_pair split: option.splits)
  moreover have "sorted_wrt (\<lambda>a b. m_id a > m_id b) ?rs"
  proof -
    have "sorted (map (\<lambda>r. - int (m_id r)) ?rs)" by simp
    moreover have "distinct (map (\<lambda>r. - int (m_id r)) ?rs)"
      using assms(2) by (auto simp: wf_msgs_def unique_key_def distinct_map inj_on_def)
    ultimately have "sorted_wrt (<) (map (\<lambda>r. - int (m_id r)) ?rs)" by (simp add: strict_sorted_iff)
    then show ?thesis by (simp add: sorted_wrt_map)
  qed
  moreover have "search c q = take SEARCH_LIMIT (map m_id ?rs)" by (simp add: search_def)
  ultimately show ?thesis by (intro exI [of _ ?rs]) auto
qed

definition one_mail :: ctx where
  "one_mail = fresh_db\<lparr>tbl_msgs := [(default_msg 12)\<lparr>m_chat_id := 10, m_state := InFresh, m_txt := Some ''Hello''\<rparr>]\<rparr>"

theorem search_exact_witness:
  "search one_mail (with_tag_filter Inbox (query_text ''hell'')) = [12] \<and> Inbox \<in> set (tg_system (tags_of_msg one_mail 12))"
proof -
  let ?q = "with_tag_filter Inbox (query_text ''hell'')"
  have inv: "labels_inv one_mail" "wf_msgs one_mail"
    using labels_inv_frame [OF labels_inv_fresh, of one_mail] by (simp_all add: one_mail_def wf_msgs_def unique_key_def)
  have found: "search one_mail ?q = [12]" "map m_id (tbl_msgs one_mail) = [12]" by code_simp+
  obtain rs where rs: "search one_mail ?q = take SEARCH_LIMIT (map m_id rs)"
      "set rs = {r \<in> set (tbl_msgs one_mail). \<not> query_is_empty ?q \<and> search_spec one_mail ?q r}"
    using search_exact [OF inv, of ?q] by blast
  have "12 \<in> set (map m_id rs)" using rs(1) found(1) by (metis in_set_takeD list.set_intros(1))
  then obtain r where "search_spec one_mail ?q r" "m_id r = 12" using rs(2) by auto
  then show ?thesis using found(1) by (simp add: search_spec_def with_tag_filter_def)
qed

text \<open>The subject a message has is found by typing it, as long as it has no capital letter beyond ASCII:
  what is typed is lowered in full, what it is compared with only in ASCII.\<close>

lemma contains_same_length: "length p = length s \<Longrightarrow> contains p s \<longleftrightarrow> p = s"
  by (auto simp: contains_iff) (metis append_Nil append_Nil2)

lemma lower_chars:
  fixes x :: char
  shows "ascii_lower_char (lower_char x) = lower_char x" "ascii_lower_char (ascii_lower_char x) = ascii_lower_char x"
    and "(of_char (lower_char x) :: nat) = (if (65 \<le> (of_char x :: nat) \<and> (of_char x :: nat) \<le> 90) \<or> (192 \<le> (of_char x :: nat) \<and> (of_char x :: nat) \<le> 222 \<and> (of_char x :: nat) \<noteq> 215) then of_char x + 32 else of_char x)"
proof -
  have "(of_char x :: nat) < 256" by simp
  then show "ascii_lower_char (lower_char x) = lower_char x" "ascii_lower_char (ascii_lower_char x) = ascii_lower_char x"
    and "(of_char (lower_char x) :: nat) = (if (65 \<le> (of_char x :: nat) \<and> (of_char x :: nat) \<le> 90) \<or> (192 \<le> (of_char x :: nat) \<and> (of_char x :: nat) \<le> 222 \<and> (of_char x :: nat) \<noteq> 215) then of_char x + 32 else of_char x)"
    by (auto simp: lower_char_def ascii_lower_char_def Let_def)
qed

lemma lower_wildcard:
  assumes "lower_char x = y" "(of_char y :: nat) \<in> {37, 95}"
  shows "x = y"
proof -
  have "(of_char (lower_char x) :: nat) \<in> {37, 95}" using assms by simp
  then have "(of_char x :: nat) = of_char (lower_char x)" unfolding lower_chars(3) by (auto split: if_splits)
  then have "x = lower_char x" by (simp only: of_char_eq_iff)
  then show ?thesis using assms(1) by (rule trans)
qed

lemma wildcard_free_lower:
  assumes "wildcard_free s"
  shows "wildcard_free (to_lowercase s)"
proof -
  have "y \<notin> lower_char ` set s" if "(of_char y :: nat) \<in> {37, 95}" "y \<notin> set s" for y
    using lower_wildcard [OF _ that(1)] that(2) by (metis imageE)
  then have "CHR ''%'' \<notin> lower_char ` set s" "CHR ''_'' \<notin> lower_char ` set s"
    using assms by (simp_all add: wildcard_free_def)
  then show ?thesis by (simp add: wildcard_free_def to_lowercase_def)
qed

lemma subject_found:
  assumes "wildcard_free s" "trim s = s"
  shows "sql_like (like_needle (to_lowercase (trim s))) (ascii_lower s) \<longleftrightarrow> to_lowercase s = ascii_lower s"
proof -
  have "sql_like (like_needle (to_lowercase (trim s))) (ascii_lower s) \<longleftrightarrow> contains (ascii_lower (to_lowercase s)) (ascii_lower (ascii_lower s))"
    by (simp add: like_substring [OF wildcard_free_lower [OF assms(1)]] assms(2))
  also have "\<dots> \<longleftrightarrow> ascii_lower (to_lowercase s) = ascii_lower (ascii_lower s)"
    by (rule contains_same_length) (simp add: ascii_lower_def to_lowercase_def)
  also have "\<dots> \<longleftrightarrow> to_lowercase s = ascii_lower s"
    by (simp add: ascii_lower_def to_lowercase_def lower_chars(1,2) comp_def)
  finally show ?thesis .
qed

end
