(* ===== verification/Addressbook.thy ===== *)
theory Addressbook
  imports Contacts Sql_Like
begin

text \<open>
  \<open>email/addressbook.rs\<close>: details and phone numbers of contacts, categories of contacts, and the search over all of it.
\<close>

record phone =
  pn_label :: string
  pn_number :: string

record details =
  dt_organisation :: string
  dt_job_title :: string
  dt_postal :: string
  dt_website :: string
  dt_notes :: string
  dt_phones :: "phone list"

record category =
  ca_id :: nat
  ca_name :: string
  ca_color :: "nat option"

definition category_normalize :: "string \<Rightarrow> string" where
  "category_normalize name = to_lowercase (trim name)"

section \<open>Details\<close>

definition phones_of :: "ctx \<Rightarrow> contact_id \<Rightarrow> phone list" where
  "phones_of c i =
    map (\<lambda>p. \<lparr>pn_label = ph_label p, pn_number = ph_number p\<rparr>)
      (sort_key ph_seq (filter (\<lambda>p. ph_contact_id p = i) (tbl_contact_phones c)))"

definition details_of :: "ctx \<Rightarrow> contact_id \<Rightarrow> details" where
  "details_of c i =
    (case List.find (\<lambda>d. d_contact_id d = i) (tbl_contact_details c) of
       None \<Rightarrow> \<lparr>dt_organisation = [], dt_job_title = [], dt_postal = [], dt_website = [], dt_notes = [], dt_phones = phones_of c i\<rparr>
     | Some d \<Rightarrow> \<lparr>dt_organisation = d_organisation d, dt_job_title = d_job_title d, dt_postal = d_postal d,
                   dt_website = d_website d, dt_notes = d_notes d, dt_phones = phones_of c i\<rparr>)"

definition set_details :: "contact_id \<Rightarrow> details \<Rightarrow> ctx \<Rightarrow> ctx" where
  "set_details i d c =
    (let row = \<lparr>d_contact_id = i, d_organisation = trim (dt_organisation d), d_job_title = trim (dt_job_title d),
                d_postal = trim (dt_postal d), d_website = trim (dt_website d), d_notes = trim (dt_notes d)\<rparr>;
         numbers = filter (\<lambda>p. trim (pn_number p) \<noteq> []) (dt_phones d)
     in c\<lparr>tbl_contact_details := upsert d_contact_id (\<lambda>_. row) row (tbl_contact_details c),
          tbl_contact_phones := delete_where (\<lambda>p. ph_contact_id p = i) (tbl_contact_phones c) @
            map (\<lambda>(s, p). \<lparr>ph_contact_id = i, ph_seq = s, ph_label = trim (pn_label p), ph_number = trim (pn_number p)\<rparr>)
              (enumerate 0 numbers)\<rparr>)"

section \<open>Categories\<close>

definition row_to_category :: "category_row \<Rightarrow> category" where
  "row_to_category r = \<lparr>ca_id = cat_id r, ca_name = cat_name r, ca_color = cat_color r\<rparr>"

definition categories :: "ctx \<Rightarrow> category list" where
  "categories c = map row_to_category (sort_key cat_name_norm (tbl_contact_categories c))"

definition category_by_norm :: "ctx \<Rightarrow> string \<Rightarrow> category option" where
  "category_by_norm c n = map_option row_to_category (List.find (\<lambda>r. cat_name_norm r = n) (tbl_contact_categories c))"

definition create_category :: "string \<Rightarrow> nat option \<Rightarrow> (ctx, category) eff" where
  "create_category name color c =
    (let trimmed = trim name in
     if trimmed = [] then (Err CategoryNameEmpty, c)
     else
       let n = category_normalize trimmed;
           c1 = (if exists_where (\<lambda>r. cat_name_norm r = n) (tbl_contact_categories c) then c
                 else c\<lparr>tbl_contact_categories := tbl_contact_categories c @
                          [\<lparr>cat_id = Suc (categories_seq c), cat_name = trimmed, cat_name_norm = n, cat_color = color\<rparr>],
                        categories_seq := Suc (categories_seq c)\<rparr>)
       in case category_by_norm c1 n of
            None \<Rightarrow> (Err CategoryVanished, c1)
          | Some k \<Rightarrow> (Ok k, c1))"

definition rename_category :: "nat \<Rightarrow> string \<Rightarrow> (ctx, unit) eff" where
  "rename_category i name c =
    (let trimmed = trim name in
     if trimmed = [] then (Err CategoryNameEmpty, c)
     else
       let n = category_normalize trimmed in
       if (case category_by_norm c n of Some k \<Rightarrow> ca_id k \<noteq> i | None \<Rightarrow> False) then (Err (CategoryExists trimmed), c)
       else (Ok (), c\<lparr>tbl_contact_categories := update_where (\<lambda>r. cat_id r = i)
              (\<lambda>r. r\<lparr>cat_name := trimmed, cat_name_norm := n\<rparr>) (tbl_contact_categories c)\<rparr>))"

definition set_category_color :: "nat \<Rightarrow> nat option \<Rightarrow> ctx \<Rightarrow> ctx" where
  "set_category_color i color c =
    c\<lparr>tbl_contact_categories := update_where (\<lambda>r. cat_id r = i) (\<lambda>r. r\<lparr>cat_color := color\<rparr>) (tbl_contact_categories c)\<rparr>"

definition delete_category :: "nat \<Rightarrow> ctx \<Rightarrow> ctx" where
  "delete_category i c =
    c\<lparr>tbl_category_members := delete_where (\<lambda>r. snd r = i) (tbl_category_members c),
      tbl_contact_categories := delete_where (\<lambda>r. cat_id r = i) (tbl_contact_categories c)\<rparr>"

definition category_assign :: "contact_id \<Rightarrow> nat \<Rightarrow> ctx \<Rightarrow> ctx" where
  "category_assign i k c = c\<lparr>tbl_category_members := insert_or_ignore id (i, k) (tbl_category_members c)\<rparr>"

definition category_unassign :: "contact_id \<Rightarrow> nat \<Rightarrow> ctx \<Rightarrow> ctx" where
  "category_unassign i k c = c\<lparr>tbl_category_members := delete_where (\<lambda>r. r = (i, k)) (tbl_category_members c)\<rparr>"

definition categories_of :: "ctx \<Rightarrow> contact_id \<Rightarrow> category list" where
  "categories_of c i =
    map row_to_category (sort_key cat_name_norm
      [k. k \<leftarrow> tbl_contact_categories c, m \<leftarrow> tbl_category_members c, snd m = cat_id k \<and> fst m = i])"

section \<open>Search\<close>

definition contact_matches :: "ctx \<Rightarrow> string \<Rightarrow> contact_row \<Rightarrow> bool" where
  "contact_matches c needle r \<longleftrightarrow>
    (let like = sql_like (like_needle needle) \<circ> ascii_lower;
         d = List.find (\<lambda>d. d_contact_id d = c_id r) (tbl_contact_details c);
         column = (\<lambda>f. case d of Some x \<Rightarrow> f x | None \<Rightarrow> [])
     in like (c_addr r) \<or> like (c_name r) \<or> like (c_authname r) \<or>
        like (column d_organisation) \<or> like (column d_job_title) \<or> like (column d_notes) \<or>
        list_ex (\<lambda>p. ph_contact_id p = c_id r \<and> like (ph_number p)) (tbl_contact_phones c))"

definition contact_order :: "contact_row \<Rightarrow> string \<times> string" where
  "contact_order r = (ascii_lower (if c_name r = [] then c_authname r else c_name r), ascii_lower (c_addr r))"

definition addressbook_search :: "ctx \<Rightarrow> string \<Rightarrow> nat option \<Rightarrow> bool \<Rightarrow> contact_id list" where
  "addressbook_search c query category include_blocked =
    (let needle = to_lowercase (trim query) in
     map c_id (sort_key contact_order
       (filter (\<lambda>r. c_id r > CONTACT_LAST_SPECIAL \<and> (include_blocked \<or> \<not> c_blocked r) \<and>
          (needle \<noteq> [] \<longrightarrow> contact_matches c needle r) \<and>
          (case category of None \<Rightarrow> True | Some k \<Rightarrow> list_ex (\<lambda>m. fst m = c_id r \<and> snd m = k) (tbl_category_members c)))
        (tbl_contacts c))))"

section \<open>Properties\<close>

lemma phones_set_details:
  "phones_of (set_details i d c) j =
    (if j = i then map (\<lambda>p. \<lparr>pn_label = trim (pn_label p), pn_number = trim (pn_number p)\<rparr>)
       (filter (\<lambda>p. trim (pn_number p) \<noteq> []) (dt_phones d)) else phones_of c j)"
proof -
  define f where "f = (\<lambda>(s, p :: phone). \<lparr>ph_contact_id = i, ph_seq = s, ph_label = trim (pn_label p), ph_number = trim (pn_number p)\<rparr>)"
  define xs where "xs = enumerate 0 (filter (\<lambda>p. trim (pn_number p) \<noteq> []) (dt_phones d))"
  have "filter (\<lambda>p. ph_contact_id p = j) (delete_where (\<lambda>p. ph_contact_id p = i) (tbl_contact_phones c) @ map f xs) =
      (if j = i then map f xs else filter (\<lambda>p. ph_contact_id p = j) (tbl_contact_phones c))"
    by (auto simp: delete_where_def filter_map comp_def f_def case_prod_beta intro!: filter_True filter_False filter_cong)
  moreover have "sort_key ph_seq (map f xs) = map f xs"
    by (rule sort_key_id_if_sorted) (simp add: f_def xs_def comp_def case_prod_beta)
  moreover have "map (\<lambda>p. \<lparr>pn_label = ph_label p, pn_number = ph_number p\<rparr>) (map f xs) =
      map (\<lambda>p. \<lparr>pn_label = trim (pn_label p), pn_number = trim (pn_number p)\<rparr>) (map snd xs)"
    by (simp add: f_def case_prod_beta)
  moreover have "tbl_contact_phones (set_details i d c) =
      delete_where (\<lambda>p. ph_contact_id p = i) (tbl_contact_phones c) @ map f xs"
    by (simp add: set_details_def Let_def f_def xs_def)
  moreover have "map snd xs = filter (\<lambda>p. trim (pn_number p) \<noteq> []) (dt_phones d)" by (simp add: xs_def)
  ultimately show ?thesis by (cases "j = i") (simp_all add: phones_of_def)
qed

text \<open>The details of a contact read back as they were written, white space around each value apart: the
  phone numbers in the order given, without the blank ones. No other contact's details change.\<close>

lemma details_round_trip:
  "details_of (set_details i d c) j =
    (if j = i
     then \<lparr>dt_organisation = trim (dt_organisation d), dt_job_title = trim (dt_job_title d), dt_postal = trim (dt_postal d),
           dt_website = trim (dt_website d), dt_notes = trim (dt_notes d),
           dt_phones = map (\<lambda>p. \<lparr>pn_label = trim (pn_label p), pn_number = trim (pn_number p)\<rparr>)
             (filter (\<lambda>p. trim (pn_number p) \<noteq> []) (dt_phones d))\<rparr>
     else details_of c j)"
proof -
  have "find (\<lambda>r. d_contact_id r = j) (tbl_contact_details (set_details i d c)) =
      (if j = i then Some \<lparr>d_contact_id = i, d_organisation = trim (dt_organisation d), d_job_title = trim (dt_job_title d),
         d_postal = trim (dt_postal d), d_website = trim (dt_website d), d_notes = trim (dt_notes d)\<rparr>
       else find (\<lambda>r. d_contact_id r = j) (tbl_contact_details c))"
    by (simp add: set_details_def Let_def find_upsert split: option.split)
  then show ?thesis by (cases "j = i") (simp_all add: details_of_def phones_set_details split: option.split)
qed

text \<open>Categories are found by the normal form of their name.\<close>

definition categories_inv :: "ctx \<Rightarrow> bool" where
  "categories_inv c \<longleftrightarrow>
    unique_key cat_id (tbl_contact_categories c) \<and> unique_key cat_name_norm (tbl_contact_categories c) \<and>
    (\<forall>r \<in> set (tbl_contact_categories c). 0 < cat_id r \<and> cat_id r \<le> categories_seq c \<and>
       cat_name r \<noteq> [] \<and> trim (cat_name r) = cat_name r \<and> cat_name_norm r = category_normalize (cat_name r)) \<and>
    distinct (tbl_category_members c)"

inductive category_step :: "ctx \<Rightarrow> ctx \<Rightarrow> bool" where
  created: "category_step c (snd (create_category name color c))"
| renamed: "category_step c (snd (rename_category i name c))"
| coloured: "category_step c (set_category_color i color c)"
| deleted: "category_step c (delete_category i c)"
| assigned: "category_step c (category_assign i k c)"
| unassigned: "category_step c (category_unassign i k c)"

inductive_cases category_stepE: "category_step c c'"

lemma category_by_norm_None: "category_by_norm c n = None \<longleftrightarrow> n \<notin> cat_name_norm ` set (tbl_contact_categories c)"
  by (simp add: category_by_norm_def find_None_key)

lemma category_by_norm_Some:
  "category_by_norm c n = Some k \<Longrightarrow> \<exists>r \<in> set (tbl_contact_categories c). cat_name_norm r = n \<and> k = row_to_category r"
  by (auto simp: category_by_norm_def dest!: find_Some_set)

lemma unique_key_rekey:
  assumes "unique_key ident t" "unique_key key t" and "\<And>r. r \<in> set t \<Longrightarrow> ident r = i \<Longrightarrow> key (f r) = n"
    and "\<And>r. r \<in> set t \<Longrightarrow> key r = n \<Longrightarrow> ident r = i"
  shows "unique_key key (update_where (\<lambda>r. ident r = i) f t)"
proof -
  have "map key (update_where (\<lambda>r. ident r = i) f t) = map (\<lambda>r. if ident r = i then n else key r) t"
    using assms(3) by (auto simp: update_where_def)
  moreover have "distinct t" using assms(1) by (simp add: unique_key_def distinct_map)
  moreover have "inj_on (\<lambda>r. if ident r = i then n else key r) (set t)"
    using unique_key_inj [OF assms(1)] unique_key_inj [OF assms(2)] assms(4)
    by (intro inj_onI) (auto split: if_splits)
  ultimately show ?thesis by (simp add: unique_key_def distinct_map)
qed

lemma create_category_state:
  "snd (create_category name color c) =
    (if trim name = [] \<or> category_normalize name \<in> cat_name_norm ` set (tbl_contact_categories c) then c
     else c\<lparr>tbl_contact_categories := tbl_contact_categories c @
              [\<lparr>cat_id = Suc (categories_seq c), cat_name = trim name, cat_name_norm = category_normalize name, cat_color = color\<rparr>],
            categories_seq := Suc (categories_seq c)\<rparr>)"
proof -
  have "exists_where (\<lambda>r. cat_name_norm r = n) (tbl_contact_categories c) \<longleftrightarrow> n \<in> cat_name_norm ` set (tbl_contact_categories c)" for n
    by (auto simp: exists_where_def list_ex_iff)
  moreover have "category_normalize (trim name) = category_normalize name" by (simp add: category_normalize_def)
  ultimately show ?thesis by (simp add: create_category_def Let_def split: option.split)
qed

lemma create_category_inv:
  assumes "categories_inv c"
  shows "categories_inv (snd (create_category name color c))"
proof -
  let ?r = "\<lparr>cat_id = Suc (categories_seq c), cat_name = trim name, cat_name_norm = category_normalize name, cat_color = color\<rparr>"
  have "categories_inv (c\<lparr>tbl_contact_categories := tbl_contact_categories c @ [?r], categories_seq := Suc (categories_seq c)\<rparr>)"
    if new: "category_normalize name \<notin> cat_name_norm ` set (tbl_contact_categories c)" and "trim name \<noteq> []"
  proof -
    have "Suc (categories_seq c) \<notin> cat_id ` set (tbl_contact_categories c)"
      using assms by (force simp: categories_inv_def)
    moreover have "category_normalize (trim name) = category_normalize name" by (simp add: category_normalize_def)
    moreover have "\<forall>r \<in> set (tbl_contact_categories c). cat_id r \<le> Suc (categories_seq c)"
      using assms by (auto simp: categories_inv_def intro: le_SucI)
    ultimately show ?thesis using assms that by (simp add: categories_inv_def unique_key_def)
  qed
  then show ?thesis using assms by (simp add: create_category_state)
qed

lemma rename_category_inv:
  assumes "categories_inv c"
  shows "categories_inv (snd (rename_category i name c))"
proof -
  let ?n = "category_normalize (trim name)"
  let ?up = "update_where (\<lambda>r. cat_id r = i) (\<lambda>r. r\<lparr>cat_name := trim name, cat_name_norm := ?n\<rparr>) (tbl_contact_categories c)"
  have "categories_inv (c\<lparr>tbl_contact_categories := ?up\<rparr>)"
    if free: "\<not> (case category_by_norm c ?n of Some k \<Rightarrow> ca_id k \<noteq> i | None \<Rightarrow> False)" and "trim name \<noteq> []"
  proof -
    have own: "cat_id r = i" if "r \<in> set (tbl_contact_categories c)" "cat_name_norm r = ?n" for r
      using free find_unique [of cat_name_norm "tbl_contact_categories c" r] that assms
      by (auto simp: category_by_norm_def row_to_category_def categories_inv_def)
    have "unique_key cat_name_norm ?up"
      using assms own by (auto simp: categories_inv_def intro!: unique_key_rekey)
    moreover have "unique_key cat_id ?up" using assms by (auto simp: categories_inv_def intro!: unique_key_update)
    ultimately show ?thesis using assms that(2) by (auto simp: categories_inv_def category_normalize_def)
  qed
  then show ?thesis using assms by (simp add: rename_category_def Let_def)
qed

lemma category_step_inv: "category_step c c' \<Longrightarrow> categories_inv c \<Longrightarrow> categories_inv c'"
proof (elim category_stepE)
  fix name color assume "categories_inv c" "c' = snd (create_category name color c)"
  then show "categories_inv c'" by (simp add: create_category_inv)
next
  fix i name assume "categories_inv c" "c' = snd (rename_category i name c)"
  then show "categories_inv c'" by (simp add: rename_category_inv)
next
  fix i color assume "categories_inv c" "c' = set_category_color i color c"
  then show "categories_inv c'" by (auto simp: categories_inv_def set_category_color_def intro!: unique_key_update)
next
  fix i assume "categories_inv c" "c' = delete_category i c"
  then show "categories_inv c'"
    unfolding categories_inv_def delete_category_def by (auto simp: delete_where_def unique_key_def distinct_map_filter)
next
  fix i k assume "categories_inv c" "c' = category_assign i k c"
  then show "categories_inv c'"
    by (auto simp: categories_inv_def category_assign_def insert_or_ignore_def list_ex_iff)
next
  fix i k assume "categories_inv c" "c' = category_unassign i k c"
  then show "categories_inv c'" by (auto simp: categories_inv_def category_unassign_def delete_where_def)
qed

lemma categories_reachable: "category_step\<^sup>*\<^sup>* fresh_db c \<Longrightarrow> categories_inv c"
proof (induction rule: rtranclp_induct)
  case base then show ?case by (simp add: categories_inv_def fresh_db_def)
next
  case step then show ?case by (blast intro: category_step_inv)
qed

lemma category_by_norm_exact:
  assumes "categories_inv c"
  shows "category_by_norm c n = Some k \<longleftrightarrow> k \<in> set (categories c) \<and> category_normalize (ca_name k) = n"
proof
  assume "category_by_norm c n = Some k"
  then show "k \<in> set (categories c) \<and> category_normalize (ca_name k) = n"
    using assms by (auto simp: categories_def row_to_category_def categories_inv_def dest!: category_by_norm_Some)
next
  assume k: "k \<in> set (categories c) \<and> category_normalize (ca_name k) = n"
  then obtain r where "r \<in> set (tbl_contact_categories c)" "k = row_to_category r" by (auto simp: categories_def)
  with k assms find_unique [of cat_name_norm "tbl_contact_categories c" r] show "category_by_norm c n = Some k"
    by (auto simp: category_by_norm_def categories_inv_def row_to_category_def)
qed

lemma create_category_result:
  "trim name \<noteq> [] \<Longrightarrow> \<exists>k. fst (create_category name color c) = Ok k \<and>
    category_by_norm (snd (create_category name color c)) (category_normalize name) = Some k"
proof -
  assume name: "trim name \<noteq> []"
  have "category_normalize (trim name) = category_normalize name" by (simp add: category_normalize_def)
  with name obtain c1 where c1: "create_category name color c =
      (case category_by_norm c1 (category_normalize name) of None \<Rightarrow> (Err CategoryVanished, c1) | Some k \<Rightarrow> (Ok k, c1))"
    unfolding create_category_def Let_def by (simp only: if_False)
  have "category_by_norm (snd (create_category name color c)) (category_normalize name) \<noteq> None"
    using name by (simp add: category_by_norm_None create_category_state)
  then show ?thesis by (cases "category_by_norm c1 (category_normalize name)") (auto simp: c1)
qed

text \<open>C34: a category is what its name says, up to case and surrounding space, whatever was done to the
  categories before: creating one with a name that is not blank always succeeds and answers the one
  category of that name, which is the existing category with its identity and colour when there is one,
  and then nothing changes; and renaming is refused exactly for a blank name and for a name that another
  category has.\<close>
theorem category_names_unique:
  assumes "category_step\<^sup>*\<^sup>* fresh_db c"
  shows "(trim name \<noteq> [] \<longrightarrow> (\<exists>k c'. create_category name color c = (Ok k, c') \<and>
      {x \<in> set (categories c'). category_normalize (ca_name x) = category_normalize name} = {k} \<and>
      ((\<exists>x \<in> set (categories c). category_normalize (ca_name x) = category_normalize name) \<longrightarrow> c' = c))) \<and>
    (fst (rename_category i name c) = Ok () \<longleftrightarrow> trim name \<noteq> [] \<and>
      (\<forall>x \<in> set (categories c). category_normalize (ca_name x) = category_normalize name \<longrightarrow> ca_id x = i))"
proof (intro conjI impI)
  have inv: "categories_inv c" by (rule categories_reachable) fact
  show "\<exists>k c'. create_category name color c = (Ok k, c') \<and>
      {x \<in> set (categories c'). category_normalize (ca_name x) = category_normalize name} = {k} \<and>
      ((\<exists>x \<in> set (categories c). category_normalize (ca_name x) = category_normalize name) \<longrightarrow> c' = c)"
    if name: "trim name \<noteq> []"
  proof -
    obtain k where k: "fst (create_category name color c) = Ok k"
        "category_by_norm (snd (create_category name color c)) (category_normalize name) = Some k"
      using create_category_result [OF name] by blast
    have "{x \<in> set (categories (snd (create_category name color c))).
        category_normalize (ca_name x) = category_normalize name} = {k}"
      unfolding category_by_norm_exact [OF create_category_inv [OF inv], symmetric] k(2) by auto
    moreover have "snd (create_category name color c) = c"
      if "\<exists>x \<in> set (categories c). category_normalize (ca_name x) = category_normalize name"
    proof -
      have "category_by_norm c (category_normalize name) \<noteq> None" using that category_by_norm_exact [OF inv] by fastforce
      then show ?thesis by (simp add: category_by_norm_None create_category_state)
    qed
    ultimately show ?thesis using k(1) by (intro exI [of _ k] exI [of _ "snd (create_category name color c)"]) (auto intro: prod_eqI)
  qed
  have "category_normalize (trim name) = category_normalize name" by (simp add: category_normalize_def)
  moreover have "(\<forall>x \<in> set (categories c). category_normalize (ca_name x) = category_normalize name \<longrightarrow> ca_id x = i) \<longleftrightarrow>
      (\<forall>x. category_by_norm c (category_normalize name) = Some x \<longrightarrow> ca_id x = i)"
    unfolding category_by_norm_exact [OF inv] by blast
  ultimately show "fst (rename_category i name c) = Ok () \<longleftrightarrow> trim name \<noteq> [] \<and>
      (\<forall>x \<in> set (categories c). category_normalize (ca_name x) = category_normalize name \<longrightarrow> ca_id x = i)"
    by (simp add: rename_category_def Let_def split: option.split)
qed

theorem category_names_unique_witness:
  "let c = snd (create_category '' Work '' (Some 255) fresh_db)
   in fst (rename_category 1 ''WORK'' c) = Ok () \<and> (\<exists>k. create_category ''work'' None c = (Ok k, c))"
proof -
  let ?c = "snd (create_category '' Work '' (Some 255) fresh_db)"
  have r: "category_step\<^sup>*\<^sup>* fresh_db ?c" by (blast intro: category_step.created)
  have c: "categories ?c = [\<lparr>ca_id = 1, ca_name = ''Work'', ca_color = Some 255\<rparr>]" by code_simp
  have n: "trim ''work'' \<noteq> []" "trim ''WORK'' \<noteq> []" "category_normalize ''Work'' = category_normalize ''work''"
      "category_normalize ''Work'' = category_normalize ''WORK''" by code_simp+
  show ?thesis
    using category_names_unique [OF r, of "''work''" None] category_names_unique [OF r, of "''WORK''" None 1] c n by (auto simp: Let_def)
qed

end
