(* ===== verification/Spec2Isabelle.thy ===== *)
theory Spec2Isabelle
  imports Pipeline Search Addressbook
begin

text \<open>
  A verification of the email layer of eeemail, the modules of \<open>src/core/src/email\<close> that turn a chat core
  into a mail client, together with the functions of the core they call.

  \<^bold>\<open>The program.\<close> An account is one SQLite database and a directory of blobs. The core receives a
  message, stores its row and then runs the hooks of the email layer on it
  (\<open>receive_imf.rs\<close>): the original bytes are kept, the recipient set, thread, importance and structured data
  are stored beside the message, label changes that another device sent ahead of it are drained, and gating
  and the blocklist decide whether it is held, thrown away or left in the inbox. The user then labels,
  archives, trashes, restores and searches. Sending asks the policy, the receipt settings and the
  options of the draft. A daily pass (\<open>sql.rs\<close>, \<open>housekeeping\<close>) sweeps old holds into the trash, destroys
  what has been there long enough, and prunes the side tables.

  \<^bold>\<open>The model.\<close> The state is the record \<open>ctx\<close> of \<open>Store\<close>, for the code's \<open>Context\<close>: the clock, the
  environment, the blob directory and one list of row records for every table, in insertion order.
  An operation that can fail is a function to \<open>'a result \<times> ctx\<close>, with the errors of the code as a
  datatype; a transaction that fails returns the state it started from. An operation whose error the caller
  logs and drops is run under \<open>best_effort\<close>. Operations on labels take the code's \<open>sync\<close> flag
  and queue the sync item the code queues. Strings are lists of code points below 256, times
  and stored integers are integers with the saturation and the 32-bit parsing of the code written out.

  \<^bold>\<open>The theories\<close>, with the source they translate (paths below \<open>src/core/src\<close>):
  \<^item> \<open>Prelude\<close>: results, saturating arithmetic, decimal text, the string functions of Rust's library, the SQL
    statements on tables, with the lemmas every component uses.
  \<^item> \<open>Store\<close>: rows, enumerations and the initial database, from \<open>sql/tables.sql\<close>, \<open>sql/migrations.rs\<close>,
    \<open>message.rs\<close>, \<open>contact.rs\<close>.
  \<^item> \<open>Config\<close>: \<open>config.rs\<close> (\<open>get_config\<close> and its typed variants, \<open>set_config_ext\<close>), the cached raw table of
    \<open>sql.rs\<close>, \<open>add_sync_item\<close> of \<open>sync.rs\<close>.
  \<^item> \<open>Messages\<close>: look-up by Message-ID and tombstones, \<open>message.rs\<close>.
  \<^item> \<open>Labels\<close> and \<open>Label_Sync\<close>: \<open>email/labels.rs\<close>, every operation; the second theory relates changes that are
    applied at once to changes parked by \<open>park\<close> and drained by \<open>drain_pending\<close>.
  \<^item> \<open>Tag_Store\<close>: what the other components rely on of labels. \<open>Tags\<close>: \<open>email/tags.rs\<close>.
  \<^item> \<open>Trashing\<close>: \<open>email/ephemeral.rs\<close>, with \<open>select_expired_messages\<close> and \<open>delete_expired_messages\<close> of
    \<open>ephemeral.rs\<close>.
  \<^item> \<open>Addresses\<close>, \<open>Contacts\<close>: \<open>deltachat-contact-tools\<close> and the parts of \<open>contact.rs\<close>, \<open>chat.rs\<close> on
    correspondents.
  \<^item> \<open>Gating\<close>: \<open>email/gating.rs\<close>, with \<open>scaleup_origin\<close> and \<open>mark_contact_id_as_verified\<close> of \<open>contact.rs\<close>.
    \<open>Blocklist\<close>: \<open>email/blocklist.rs\<close>.
  \<^item> \<open>Encryption\<close>, \<open>Policy\<close>: \<open>email/policy.rs\<close>, first the modes, then \<open>prepare_send\<close>, undelivered
    recipients, the padlock and server retention. \<open>Receipts\<close>: \<open>email/receipts.rs\<close>.
  \<^item> \<open>Recipients\<close>, \<open>Importance\<close>, \<open>Sendopts\<close>, \<open>Compose\<close>: the modules of the same names and
    \<open>signature.rs\<close>; \<open>Compose\<close> has \<open>Contact::add_or_lookup\<close> and the use \<open>mimefactory.rs\<close> makes of the extra
    recipients.
  \<^item> \<open>Threading\<close>: \<open>email/threading.rs\<close>. \<open>Structured\<close>: \<open>email/structured.rs\<close>. \<open>Autocrypt\<close>:
    \<open>email/autocrypt.rs\<close>.
  \<^item> \<open>Blobcrypt\<close>: \<open>email/blobcrypt.rs\<close>, \<open>email/vault.rs\<close>. \<open>Rawmime\<close>: \<open>email/rawmime.rs\<close>, with
    \<open>create_and_deduplicate_from_bytes\<close> of \<open>blob.rs\<close>.
  \<^item> \<open>Sql_Like\<close>, \<open>Search\<close>, \<open>Addressbook\<close>: \<open>email/search.rs\<close> and \<open>email/addressbook.rs\<close> over SQLite's \<open>LIKE\<close>.
  \<^item> \<open>Pipeline\<close>: the hooks of \<open>receive_imf.rs\<close> (\<open>receive_message\<close>, \<open>receive_hooks\<close>) and the email part of
    \<open>housekeeping\<close>.

  \<^bold>\<open>Interfaces.\<close> A locale states what one component relies on of another, and is interpreted on
  the model. \<open>tag_store\<close> (a reserved label is put on and off, and nothing else changes) is
  discharged by the labels as \<open>rt\<close> and used by trash, gating and blocklist. \<open>override_fold\<close> (the
  strictest of a default and some overrides, in any order) holds of the encryption modes, \<open>em\<close>, and of
  timers, \<open>tm\<close>. \<open>sparse_table\<close> (no row stands for the default) holds of importance, \<open>imp\<close>, and of send
  options, \<open>so\<close>. \<open>enrichment\<close> (a hook does not change what decides where a message goes) holds of every hook
  before the drain (\<open>rm\<close>, \<open>rc\<close>, \<open>th\<close>, \<open>im\<close>, \<open>sd\<close>, \<open>sr\<close>, and \<open>bd\<close> for their composition), so
  that the theorems about reception need only look at the drain, gating and the blocklist.

  \<^bold>\<open>What the theorems show.\<close>
  \<^item> Labels: every history of operations keeps the invariant of the tables and the system labels. Changes that
    arrive before their message end as if it had been there and the changes overtaken by a newer one had not come;
    so a device with the message agrees with one without it if the changes come in the order of their
    timestamps, and need not otherwise. The two views of system tags, by message and by tag, agree, and so
    does the search.
  \<^item> Trash: the purge and the user destroy trashed mail only, exactly from its deadline on; with a positive window,
    mail whose timer has fired is moved there first; core's own sweep destroys exactly fired mail if the window is
    zero, and mail older than \<open>delete_device_after\<close>; restoring undoes trashing.
  \<^item> Reception: mail is held exactly if its sender's row is neither known nor verified and no other unblocked row with
    the address is known; accepting a sender takes hold and label off exactly their held mail; the sweep is exact; the two look-ups of the blocklist agree with its definition; after all hooks the place of a message
    is exactly determined, and nothing a held message carries may be acted on.
  \<^item> Sending: the mode is the strictest asked for, and a message in strict mode is never marked for cleartext; the
    envelope gains the stored Cc and Bcc addresses and the header the Cc addresses, further To addresses do not reach
    it; adding a contact is idempotent and touches no other; timers and server retention follow the settings.
  \<^item> Threads are the components of the reference relation, in any order of arrival, and the reply tree shows
    every message once.
  \<^item> Encryption at rest: blobs stay readable through every history, including interrupted passes; the
    report on protection is true; an original reads back until its retention ends.
  \<^item> Housekeeping destroys exactly what is due and leaves side rows for present messages only.

  \<^bold>\<open>Termination and bounds.\<close> There is no fuel. Two loops are not structural: \<open>script_loop\<close> of \<open>Structured\<close> has a
  measure on the text that is left, and \<open>build_loop\<close> of \<open>Threading\<close>, an explicit stack in the code, is a
  \<open>partial_function\<close> whose result on every thread is a theorem. \<open>migrate_upto n\<close> stops a pass over the
  blob directory after \<open>n\<close> files and models an interruption; \<open>migrate\<close> is the whole pass.

  \<^bold>\<open>Parameters.\<close> Code outside the repository is an argument: the cipher (\<open>aead\<close>, of which \<open>aead_ok\<close>
  asks that decrypting undoes encrypting) and its random numbers (\<open>random_ok\<close>: of the length asked for), the hash of
  blob contents, the MIME parser, the JSON library, and the fingerprint of the own key. The witnesses
  instantiate them with concrete functions.

  \<^bold>\<open>Not modelled.\<close>
  \<^item> Command lines, desktop client and bindings (\<open>src/cli\<close>, \<open>deltachat-repl\<close>, \<open>deltachat-ffi\<close>,
    \<open>deltachat-jsonrpc\<close>): marshalling of calls into the library.
  \<^item> Network and scheduling (\<open>imap.rs\<close>, \<open>smtp.rs\<close>, \<open>scheduler.rs\<close>): servers and the loops around them. That a
    row is marked for deletion on the server is modelled, the deletion is not.
  \<^item> OpenPGP (\<open>pgp.rs\<close>, \<open>key.rs\<close>, \<open>e2ee.rs\<close>) and MIME (\<open>mimeparser.rs\<close>, \<open>mimefactory.rs\<close>): built on libraries
    that are not in the repository. Their results are inputs: what a parsed message contains, whether it was
    encrypted, which keys are known.
  \<^item> The step-by-step migrations, account set-up, the creation of chats, drafts and vCards, SQLCipher's copy of
    the database under a key, and errors of the file system or of SQLite other than those the code
    provokes.
  \<^item> Events sent to a user interface, localised strings, log messages.
  \<^item> Code points from 256 on, where lower-casing and white space are Unicode tables.
  \<^item> Webxdc, calls and locations, which the email layer does not use.
\<close>

end
